(* ===== verification/Transitions.thy ===== *)
theory Transitions
  imports Main
begin

text \<open>
  Runs of a labelled step relation, and the two ways the development reasons about them: a property
  of states that every step preserves (locale \<open>preserved\<close>), and a transitive relation between the
  states before and after that every step respects while the invariant holds (locale \<open>monotone\<close>).
\<close>

inductive run :: "('s \<Rightarrow> 'e \<Rightarrow> 's \<Rightarrow> bool) \<Rightarrow> 's \<Rightarrow> 'e list \<Rightarrow> 's \<Rightarrow> bool" for step where
  run_Nil: "run step s [] s"
| run_Cons: "step s e s1 \<Longrightarrow> run step s1 es s2 \<Longrightarrow> run step s (e # es) s2"

inductive_cases run_ConsE: "run step s (e # es) s2"
inductive_simps run_Nil_iff [simp]: "run step s [] s2"

lemma run_Cons_iff: "run step s (e # es) s2 \<longleftrightarrow> (\<exists>s1. step s e s1 \<and> run step s1 es s2)"
  by (auto intro: run_Cons elim: run_ConsE)

lemma run_append: "run step s (es @ fs) s2 \<longleftrightarrow> (\<exists>s1. run step s es s1 \<and> run step s1 fs s2)"
  by (induction es arbitrary: s) (auto simp: run_Cons_iff)

locale preserved =
  fixes step :: "'s \<Rightarrow> 'e \<Rightarrow> 's \<Rightarrow> bool"
    and inv :: "'s \<Rightarrow> bool"
  assumes step_inv: "step s e s' \<Longrightarrow> inv s \<Longrightarrow> inv s'"
begin

lemma run_inv: "run step s es s' \<Longrightarrow> inv s \<Longrightarrow> inv s'"
  by (induction rule: run.induct) (auto dest: step_inv)

end

locale monotone = preserved +
  fixes le :: "'s \<Rightarrow> 's \<Rightarrow> bool"
  assumes le_refl: "le s s"
    and le_trans: "le s s1 \<Longrightarrow> le s1 s2 \<Longrightarrow> le s s2"
    and step_le: "step s e s' \<Longrightarrow> inv s \<Longrightarrow> le s s'"
begin

lemma run_le: "run step s es s' \<Longrightarrow> inv s \<Longrightarrow> le s s'"
proof (induction rule: run.induct)
  case (run_Cons s e s1 es s2)
  then show ?case using step_le step_inv le_trans by metis
qed (rule le_refl)

end

end
