(* ===== verification/Prelude.thy ===== *)
theory Prelude
  imports
    Complex_Main
    "HOL-Library.Word"
    "HOL-Library.Finite_Map"
    "HOL-Library.Monad_Syntax"
begin

text \<open>
  Shared vocabulary of the development: the Go machine types, the parts of Go's standard
  library that every component uses (\<open>time.Time\<close>, \<open>time.Duration\<close>, \<open>io.ReadFull\<close>,
  \<open>encoding/binary\<close>, comparisons of \<open>float64\<close>), and generic lemmas on them.

  \<^item> A Go \<open>string\<close> is a sequence of bytes: \<^typ>\<open>string\<close>, one \<^typ>\<open>char\<close> per byte.
  \<^item> \<open>time.Time\<close> is the number of nanoseconds since the Unix epoch in UTC, an unbounded
    integer; the zero time (1 January of year 1) is \<open>zero_time\<close>.
  \<^item> \<open>time.Duration\<close> is a signed 64-bit count of nanoseconds: an \<^typ>\<open>int\<close>, with the wrap of
    every addition and subtraction of the code written out by \<open>i64\<close>.
  \<^item> A run that panics is \<^const>\<open>None\<close>; a run that returns is \<^const>\<open>Some\<close> of its result.
\<close>

section \<open>Machine types\<close>

type_synonym byte = "8 word"
type_synonym u16 = "16 word"
type_synonym u32 = "32 word"
type_synonym u64 = "64 word"
type_synonym bytes16 = "byte list"
type_synonym bytes32 = "byte list"
type_synonym duration = int
type_synonym time = int

named_theorems go_arith \<open>rules for 64-bit durations and saturating arithmetic\<close>
named_theorems go_map \<open>rules for lookups in finite maps\<close>

abbreviation max_int64 :: int where
  "max_int64 \<equiv> 9223372036854775807"

abbreviation min_int64 :: int where
  "min_int64 \<equiv> - 9223372036854775808"

abbreviation second :: duration where
  "second \<equiv> 1000000000"

abbreviation minute :: duration where
  "minute \<equiv> 60000000000"

abbreviation hour :: duration where
  "hour \<equiv> 3600000000000"

definition in_i64 :: "int \<Rightarrow> bool" where
  "in_i64 x \<longleftrightarrow> min_int64 \<le> x \<and> x \<le> max_int64"

text \<open>Two's complement wrap-around of a mathematical result to \<open>int64\<close>.\<close>

definition i64 :: "int \<Rightarrow> int" where
  "i64 x = (x + 9223372036854775808) mod 18446744073709551616 - 9223372036854775808"

lemma i64_in_range: "in_i64 (i64 x)"
proof -
  have "0 \<le> (x + 9223372036854775808) mod 18446744073709551616"
    and "(x + 9223372036854775808) mod 18446744073709551616 < 18446744073709551616"
    by simp_all
  then show ?thesis by (simp add: in_i64_def i64_def)
qed

lemma i64_id [go_arith]: "in_i64 x \<Longrightarrow> i64 x = x"
  by (simp add: i64_def in_i64_def mod_pos_pos_trivial)

section \<open>time.Time\<close>

definition zero_time :: time where
  "zero_time = - 62135596800 * second"

text \<open>\<open>t.Sub(u)\<close> saturates at the ends of \<open>Duration\<close>.\<close>

definition time_sub :: "time \<Rightarrow> time \<Rightarrow> duration" where
  "time_sub t u = max min_int64 (min max_int64 (t - u))"

lemma time_sub_in_range: "in_i64 (time_sub t u)"
  by (simp add: time_sub_def in_i64_def)

lemma time_sub_positive_iff: "0 < time_sub t u \<longleftrightarrow> u < t"
  by (auto simp: time_sub_def)

section \<open>float64 comparisons\<close>

text \<open>
  A \<open>float64\<close> is a finite value, an infinity or NaN; a comparison with NaN is false.
\<close>

datatype go_float = Fin rat | Pos_Inf | Neg_Inf | NaN

fun fl_le :: "go_float \<Rightarrow> go_float \<Rightarrow> bool" where
  "fl_le NaN y = False"
| "fl_le x NaN = False"
| "fl_le (Fin a) (Fin b) = (a \<le> b)"
| "fl_le Neg_Inf y = True"
| "fl_le x Pos_Inf = True"
| "fl_le x y = False"

fun fl_lt :: "go_float \<Rightarrow> go_float \<Rightarrow> bool" where
  "fl_lt NaN y = False"
| "fl_lt x NaN = False"
| "fl_lt (Fin a) (Fin b) = (a < b)"
| "fl_lt Neg_Inf y = (y \<noteq> Neg_Inf)"
| "fl_lt x Pos_Inf = (x \<noteq> Pos_Inf)"
| "fl_lt x y = False"

section \<open>io.ReadFull\<close>

text \<open>
  The random source is an \<open>io.Reader\<close>: the list of the bytes it still delivers before it
  fails. \<open>ReadFull\<close> of \<open>n\<close> bytes returns them, or drains the source and fails.
\<close>

definition read_full :: "nat \<Rightarrow> byte list \<Rightarrow> byte list option \<times> byte list" where
  "read_full n src = (if n \<le> length src then (Some (take n src), drop n src) else (None, []))"

lemma read_full_length: "read_full n src = (Some bs, src') \<Longrightarrow> length bs = n"
  by (auto simp: read_full_def split: if_splits)

section \<open>encoding/binary: big endian\<close>

definition be16 :: "u16 \<Rightarrow> byte list" where
  "be16 w = [ucast (drop_bit 8 w), ucast w]"

definition be32 :: "u32 \<Rightarrow> byte list" where
  "be32 w = [ucast (drop_bit 24 w), ucast (drop_bit 16 w), ucast (drop_bit 8 w), ucast w]"

definition be64 :: "u64 \<Rightarrow> byte list" where
  "be64 w = [ucast (drop_bit 56 w), ucast (drop_bit 48 w), ucast (drop_bit 40 w), ucast (drop_bit 32 w),
             ucast (drop_bit 24 w), ucast (drop_bit 16 w), ucast (drop_bit 8 w), ucast w]"

lemma length_be [simp]: "length (be16 a) = 2" "length (be32 b) = 4" "length (be64 c) = 8"
  by (simp_all add: be16_def be32_def be64_def)

text \<open>The byte of a string at each position is its character code.\<close>

definition str_bytes :: "string \<Rightarrow> byte list" where
  "str_bytes s = map (\<lambda>c. of_nat (of_char c)) s"

definition bytes_str :: "byte list \<Rightarrow> string" where
  "bytes_str bs = map (\<lambda>b. char_of (unat b)) bs"

lemma length_str_bytes [simp]: "length (str_bytes s) = length s"
  by (simp add: str_bytes_def)

lemma bytes_str_str_bytes [simp]: "bytes_str (str_bytes s) = s"
proof -
  have "char_of (unat (of_nat (of_char c) :: byte)) = c" for c
    by (simp add: unat_of_nat)
  then show ?thesis by (simp add: bytes_str_def str_bytes_def comp_def)
qed

lemma str_bytes_inject [simp]: "str_bytes s = str_bytes t \<longleftrightarrow> s = t"
  by (metis bytes_str_str_bytes)

section \<open>Maps\<close>

text \<open>\<open>len(m)\<close> of a Go map.\<close>

definition len_map :: "('k, 'v) fmap \<Rightarrow> int" where
  "len_map m = int (fcard (fmdom m))"

lemma len_map_empty [simp]: "len_map fmempty = 0"
  by (simp add: len_map_def)

lemma len_map_fmupd [go_map]:
  "len_map (fmupd k v m) = (if fmlookup m k = None then len_map m + 1 else len_map m)"
  by (auto simp: len_map_def fcard_finsert_if fmlookup_dom_iff)

lemma len_map_fmdrop_le: "len_map (fmdrop k m) \<le> len_map m"
proof -
  have "fmdom (fmdrop k m) |\<subseteq>| fmdom m" by auto
  then show ?thesis unfolding len_map_def by (simp add: fcard_mono)
qed

end
