(* ===== verification/Codec.thy ===== *)
theory Codec
  imports Prelude
begin

text \<open>
  \<open>internal/protocol/codec.go\<close>: the wire envelope, the identifier grammar, and the checks that
  \<open>DecodeClient\<close> and \<open>EncodeServer\<close> make around the Protobuf library. The envelope is the
  generated message of \<open>api/relay/v1/relay.proto\<close>; \<open>proto.Unmarshal\<close> and \<open>proto.Marshal\<close> are
  third-party code and are arguments (\<open>unmarshal\<close>, \<open>marshal\<close>) of the definitions that call them.
\<close>

section \<open>Constants and messages\<close>

definition Revision :: u32 where "Revision = 1"
definition MaxDatagramBytes :: nat where "MaxDatagramBytes = 1200"
definition MaxPayloadBytes :: nat where "MaxPayloadBytes = 900"
definition MaxIDBytes :: nat where "MaxIDBytes = 64"
definition MinHelloBytes :: nat where "MinHelloBytes = 256"

lemmas codec_consts = Revision_def MaxDatagramBytes_def MaxPayloadBytes_def MaxIDBytes_def
  MinHelloBytes_def

record hello_msg =
  h_grant_id :: "byte list"
  h_client_nonce :: "byte list"
  h_padding :: "byte list"
  h_unknown :: "byte list"

record challenge_msg =
  cm_candidate_id :: "byte list"
  cm_server_nonce :: "byte list"
  cm_expires_unix_ms :: int
  cm_unknown :: "byte list"

record auth_msg =
  am_candidate_id :: "byte list"
  am_unknown :: "byte list"

record bound_msg =
  bm_binding_id :: "byte list"
  bm_expires_unix_ms :: int
  bm_unknown :: "byte list"

record client_data_msg =
  cd_binding_id :: "byte list"
  cd_payload :: "byte list"
  cd_unknown :: "byte list"

record server_data_msg =
  sd_sender_participant_id :: string
  sd_payload :: "byte list"
  sd_unknown :: "byte list"

record ping_msg =
  pm_binding_id :: "byte list"
  pm_unknown :: "byte list"

text \<open>
  The oneof \<open>body\<close>. \<^const>\<open>None\<close> below a constructor is a nil wrapper or a nil message, which
  every check treats alike; \<open>Body_Nil\<close> is an envelope without a body.
\<close>

datatype envelope_body =
    Body_Nil
  | Envelope_Hello "hello_msg option"
  | Envelope_Challenge "challenge_msg option"
  | Envelope_Auth "auth_msg option"
  | Envelope_Bound "bound_msg option"
  | Envelope_ClientData "client_data_msg option"
  | Envelope_ServerData "server_data_msg option"
  | Envelope_Ping "ping_msg option"

record envelope =
  e_protocol_revision :: u32
  e_sequence :: u64
  e_auth_tag :: "byte list"
  e_session_id :: string
  e_room_id :: string
  e_body :: envelope_body
  e_unknown :: "byte list"

datatype codec_error = errMalformed | errOversized | errUnsupportedVersion

datatype reason = ReasonMalformed | ReasonOversized | ReasonUnsupportedVersion

fun reason_of :: "codec_error \<Rightarrow> reason" where
  "reason_of errOversized = ReasonOversized"
| "reason_of errUnsupportedVersion = ReasonUnsupportedVersion"
| "reason_of errMalformed = ReasonMalformed"

section \<open>Identifiers\<close>

definition id_alnum :: "char \<Rightarrow> bool" where
  "id_alnum c \<longleftrightarrow> (let n = (of_char c :: nat) in
     (65 \<le> n \<and> n \<le> 90) \<or> (97 \<le> n \<and> n \<le> 122) \<or> (48 \<le> n \<and> n \<le> 57))"

definition id_punct :: "char \<Rightarrow> bool" where
  "id_punct c \<longleftrightarrow> c = CHR ''.'' \<or> c = CHR ''_'' \<or> c = CHR ''-''"

fun valid_id_from :: "nat \<Rightarrow> string \<Rightarrow> bool" where
  "valid_id_from index [] = True"
| "valid_id_from index (c # cs) =
     (if id_alnum c then valid_id_from (Suc index) cs
      else if index > 0 \<and> id_punct c then valid_id_from (Suc index) cs
      else False)"

definition valid_id :: "string \<Rightarrow> bool" where
  "valid_id s = (if length s = 0 \<or> length s > MaxIDBytes then False else valid_id_from 0 s)"

section \<open>Validation\<close>

definition validate_envelope :: "envelope option \<Rightarrow> codec_error option" where
  "validate_envelope envelope = (case envelope of
     None \<Rightarrow> Some errMalformed
   | Some e \<Rightarrow>
       if length (e_unknown e) \<noteq> 0 then Some errMalformed
       else if e_protocol_revision e \<noteq> Revision then Some errUnsupportedVersion
       else if \<not> valid_id (e_room_id e) \<or> \<not> valid_id (e_session_id e) then Some errMalformed
       else None)"

definition validate_client :: "envelope \<Rightarrow> nat \<Rightarrow> codec_error option" where
  "validate_client e datagram_bytes = (case e_body e of
     Envelope_Hello body \<Rightarrow> (case body of None \<Rightarrow> Some errMalformed | Some m \<Rightarrow>
       if length (h_unknown m) \<noteq> 0 \<or> e_sequence e \<noteq> 0 \<or> length (e_auth_tag e) \<noteq> 0 \<or>
          length (h_grant_id m) \<noteq> 16 \<or> length (h_client_nonce m) \<noteq> 16 \<or>
          datagram_bytes < MinHelloBytes
       then Some errMalformed else None)
   | Envelope_Auth body \<Rightarrow> (case body of None \<Rightarrow> Some errMalformed | Some m \<Rightarrow>
       if length (am_unknown m) \<noteq> 0 \<or> e_sequence e \<noteq> 0 \<or> length (e_auth_tag e) \<noteq> 32 \<or>
          length (am_candidate_id m) \<noteq> 16
       then Some errMalformed else None)
   | Envelope_ClientData body \<Rightarrow> (case body of None \<Rightarrow> Some errMalformed | Some m \<Rightarrow>
       if length (cd_unknown m) \<noteq> 0 \<or> e_sequence e = 0 \<or> length (e_auth_tag e) \<noteq> 32 \<or>
          length (cd_binding_id m) \<noteq> 16
       then Some errMalformed
       else if length (cd_payload m) > MaxPayloadBytes then Some errOversized else None)
   | Envelope_Ping body \<Rightarrow> (case body of None \<Rightarrow> Some errMalformed | Some m \<Rightarrow>
       if length (pm_unknown m) \<noteq> 0 \<or> e_sequence e = 0 \<or> length (e_auth_tag e) \<noteq> 32 \<or>
          length (pm_binding_id m) \<noteq> 16
       then Some errMalformed else None)
   | _ \<Rightarrow> Some errMalformed)"

definition validate_server :: "envelope \<Rightarrow> codec_error option" where
  "validate_server e = (case e_body e of
     Envelope_Challenge body \<Rightarrow> (case body of None \<Rightarrow> Some errMalformed | Some m \<Rightarrow>
       if length (cm_unknown m) \<noteq> 0 \<or> e_sequence e \<noteq> 0 \<or> length (e_auth_tag e) \<noteq> 0 \<or>
          length (cm_candidate_id m) \<noteq> 16 \<or> length (cm_server_nonce m) \<noteq> 32 \<or>
          cm_expires_unix_ms m \<le> 0
       then Some errMalformed else None)
   | Envelope_Bound body \<Rightarrow> (case body of None \<Rightarrow> Some errMalformed | Some m \<Rightarrow>
       if length (bm_unknown m) \<noteq> 0 \<or> e_sequence e \<noteq> 0 \<or> length (e_auth_tag e) \<noteq> 32 \<or>
          length (bm_binding_id m) \<noteq> 16 \<or> bm_expires_unix_ms m \<le> 0
       then Some errMalformed else None)
   | Envelope_ServerData body \<Rightarrow> (case body of None \<Rightarrow> Some errMalformed | Some m \<Rightarrow>
       if length (sd_unknown m) \<noteq> 0 \<or> e_sequence e = 0 \<or> length (e_auth_tag e) \<noteq> 0 \<or>
          \<not> valid_id (sd_sender_participant_id m)
       then Some errMalformed
       else if length (sd_payload m) > MaxPayloadBytes then Some errOversized else None)
   | _ \<Rightarrow> Some errMalformed)"

section \<open>DecodeClient and EncodeServer\<close>

definition decode_client ::
  "(byte list \<Rightarrow> envelope option) \<Rightarrow> byte list \<Rightarrow> codec_error + envelope" where
  "decode_client unmarshal datagram =
     (if length datagram = 0 then Inl errMalformed
      else if length datagram > MaxDatagramBytes then Inl errOversized
      else (case unmarshal datagram of
        None \<Rightarrow> Inl errMalformed
      | Some envelope \<Rightarrow> (case validate_envelope (Some envelope) of
          Some err \<Rightarrow> Inl err
        | None \<Rightarrow> (case validate_client envelope (length datagram) of
            Some err \<Rightarrow> Inl err
          | None \<Rightarrow> Inr envelope))))"

definition encode_server ::
  "(envelope \<Rightarrow> byte list option) \<Rightarrow> envelope option \<Rightarrow> codec_error + byte list" where
  "encode_server marshal envelope = (case validate_envelope envelope of
     Some err \<Rightarrow> Inl err
   | None \<Rightarrow> (case validate_server (the envelope) of
       Some err \<Rightarrow> Inl err
     | None \<Rightarrow> (case marshal (the envelope) of
         None \<Rightarrow> Inl errMalformed
       | Some wire \<Rightarrow> if length wire > MaxDatagramBytes then Inl errOversized else Inr wire)))"

section \<open>What the checks accept\<close>

lemma valid_id_from_Suc:
  "valid_id_from (Suc n) cs \<longleftrightarrow> (\<forall>c \<in> set cs. id_alnum c \<or> id_punct c)"
  by (induction cs arbitrary: n) auto

text \<open>An identifier is accepted exactly when it matches the documented grammar
  \<open>^[A-Za-z0-9][A-Za-z0-9._-]{0,63}$\<close>: one alphanumeric byte, then at most 63 bytes that are
  alphanumeric or one of dot, underscore and hyphen.\<close>

lemma valid_id_grammar:
  "valid_id s \<longleftrightarrow> (\<exists>c cs. s = c # cs \<and> length cs \<le> 63 \<and> id_alnum c \<and>
      (\<forall>d \<in> set cs. id_alnum d \<or> id_punct d))"
  by (cases s) (auto simp: valid_id_def MaxIDBytes_def valid_id_from_Suc)

lemma valid_id_grammar_witness:
  "valid_id ''room-1.a_b'' \<and> \<not> valid_id ''-room'' \<and> \<not> valid_id '''' \<and>
   (\<exists>c cs. ''room-1.a_b'' = c # cs \<and> length cs \<le> 63 \<and> id_alnum c \<and>
      (\<forall>d \<in> set cs. id_alnum d \<or> id_punct d))"
proof -
  have "valid_id ''room-1.a_b''" "\<not> valid_id ''-room''" "\<not> valid_id ''''" by code_simp+
  then show ?thesis using valid_id_grammar [of "''room-1.a_b''"] by blast
qed

lemma valid_id_length: "valid_id s \<Longrightarrow> 0 < length s \<and> length s \<le> 64"
  by (auto simp: valid_id_def MaxIDBytes_def split: if_splits)

text \<open>
  The wire contract, stated independently of the order of the checks: a client message has an
  exact shape per body, and so has a server message.
\<close>

definition envelope_ok :: "envelope \<Rightarrow> bool" where
  "envelope_ok e \<longleftrightarrow> e_unknown e = [] \<and> e_protocol_revision e = 1 \<and>
     valid_id (e_room_id e) \<and> valid_id (e_session_id e)"

fun client_body_ok :: "envelope \<Rightarrow> nat \<Rightarrow> envelope_body \<Rightarrow> bool" where
  "client_body_ok e n (Envelope_Hello (Some m)) =
     (h_unknown m = [] \<and> e_sequence e = 0 \<and> e_auth_tag e = [] \<and> length (h_grant_id m) = 16 \<and>
      length (h_client_nonce m) = 16 \<and> 256 \<le> n)"
| "client_body_ok e n (Envelope_Auth (Some m)) =
     (am_unknown m = [] \<and> e_sequence e = 0 \<and> length (e_auth_tag e) = 32 \<and>
      length (am_candidate_id m) = 16)"
| "client_body_ok e n (Envelope_ClientData (Some m)) =
     (cd_unknown m = [] \<and> e_sequence e \<noteq> 0 \<and> length (e_auth_tag e) = 32 \<and>
      length (cd_binding_id m) = 16 \<and> length (cd_payload m) \<le> 900)"
| "client_body_ok e n (Envelope_Ping (Some m)) =
     (pm_unknown m = [] \<and> e_sequence e \<noteq> 0 \<and> length (e_auth_tag e) = 32 \<and>
      length (pm_binding_id m) = 16)"
| "client_body_ok e n _ = False"

fun server_body_ok :: "envelope \<Rightarrow> envelope_body \<Rightarrow> bool" where
  "server_body_ok e (Envelope_Challenge (Some m)) =
     (cm_unknown m = [] \<and> e_sequence e = 0 \<and> e_auth_tag e = [] \<and> length (cm_candidate_id m) = 16 \<and>
      length (cm_server_nonce m) = 32 \<and> 0 < cm_expires_unix_ms m)"
| "server_body_ok e (Envelope_Bound (Some m)) =
     (bm_unknown m = [] \<and> e_sequence e = 0 \<and> length (e_auth_tag e) = 32 \<and>
      length (bm_binding_id m) = 16 \<and> 0 < bm_expires_unix_ms m)"
| "server_body_ok e (Envelope_ServerData (Some m)) =
     (sd_unknown m = [] \<and> e_sequence e \<noteq> 0 \<and> e_auth_tag e = [] \<and>
      valid_id (sd_sender_participant_id m) \<and> length (sd_payload m) \<le> 900)"
| "server_body_ok e _ = False"

lemma validate_envelope_None_iff:
  "validate_envelope (Some e) = None \<longleftrightarrow> envelope_ok e"
  by (auto simp: validate_envelope_def envelope_ok_def Revision_def)

lemma validate_client_None_iff:
  "validate_client e n = None \<longleftrightarrow> client_body_ok e n (e_body e)"
  by (auto simp: validate_client_def codec_consts not_less split: envelope_body.splits option.splits)

lemma validate_server_None_iff:
  "validate_server e = None \<longleftrightarrow> server_body_ok e (e_body e)"
  by (auto simp: validate_server_def codec_consts not_less split: envelope_body.splits option.splits)

lemmas validate_iffs = validate_envelope_None_iff validate_client_None_iff validate_server_None_iff

text \<open>C16: \<open>DecodeClient\<close> accepts a datagram exactly when it has 1 to 1200 bytes, Protobuf decodes
  it, and the envelope satisfies the client wire contract of revision 1; the result is the decoded
  envelope unchanged. In particular an accepted HELLO has at least 256 bytes.\<close>

theorem decode_client_accepts_iff:
  "decode_client unmarshal d = Inr e \<longleftrightarrow>
     0 < length d \<and> length d \<le> 1200 \<and> unmarshal d = Some e \<and> envelope_ok e \<and>
     client_body_ok e (length d) (e_body e)"
  by (auto simp: decode_client_def codec_consts validate_iffs [symmetric] split: option.splits)

lemma decode_client_Inl_iff:
  "decode_client unmarshal d = Inl err \<longleftrightarrow>
     (length d = 0 \<and> err = errMalformed) \<or> (1200 < length d \<and> err = errOversized) \<or>
     (0 < length d \<and> length d \<le> 1200 \<and>
       ((unmarshal d = None \<and> err = errMalformed) \<or>
        (\<exists>e. unmarshal d = Some e \<and> (validate_envelope (Some e) = Some err \<or>
           envelope_ok e \<and> validate_client e (length d) = Some err))))"
  by (auto simp: decode_client_def MaxDatagramBytes_def validate_envelope_None_iff [symmetric]
      split: option.splits)

lemma validate_envelope_reasons:
  "validate_envelope (Some e) \<noteq> Some errOversized"
  "validate_envelope (Some e) = Some errUnsupportedVersion \<longleftrightarrow>
     e_unknown e = [] \<and> e_protocol_revision e \<noteq> 1"
  by (auto simp: validate_envelope_def Revision_def)

lemma validate_client_reasons:
  "validate_client e n \<noteq> Some errUnsupportedVersion"
  "validate_client e n = Some errOversized \<longleftrightarrow>
     (\<exists>m. e_body e = Envelope_ClientData (Some m) \<and> 900 < length (cd_payload m) \<and>
        client_body_ok e n (Envelope_ClientData (Some (m\<lparr>cd_payload := []\<rparr>))))"
  by (auto simp: validate_client_def codec_consts split: envelope_body.splits option.splits)

text \<open>The rejection reason of \<open>DecodeClient\<close> is determined: \<open>oversized\<close> exactly for more than
  1200 bytes or a client data message, correct otherwise, whose payload exceeds 900 bytes;
  \<open>unsupported_version\<close> exactly for a decodable envelope without unknown fields whose revision is
  not 1 (before any identifier is looked at); every other rejection is \<open>malformed\<close>.\<close>

lemma decode_client_reasons:
  "(decode_client unmarshal d = Inl errOversized \<longleftrightarrow>
     1200 < length d \<or>
     (0 < length d \<and> length d \<le> 1200 \<and> (\<exists>e m. unmarshal d = Some e \<and> envelope_ok e \<and>
        e_body e = Envelope_ClientData (Some m) \<and> 900 < length (cd_payload m) \<and>
        client_body_ok e (length d) (Envelope_ClientData (Some (m\<lparr>cd_payload := []\<rparr>)))))) \<and>
   (decode_client unmarshal d = Inl errUnsupportedVersion \<longleftrightarrow>
     0 < length d \<and> length d \<le> 1200 \<and>
     (\<exists>e. unmarshal d = Some e \<and> e_unknown e = [] \<and> e_protocol_revision e \<noteq> 1))"
  by (simp add: decode_client_Inl_iff validate_envelope_reasons validate_client_reasons
      del: client_body_ok.simps)

text \<open>\<open>EncodeServer\<close> returns bytes exactly when the envelope satisfies the server wire contract,
  Protobuf encodes it, and the encoding fits in 1200 bytes; the bytes are that encoding.\<close>

lemma encode_server_accepts_iff:
  "encode_server marshal (Some e) = Inr w \<longleftrightarrow>
     envelope_ok e \<and> server_body_ok e (e_body e) \<and> marshal e = Some w \<and> length w \<le> 1200"
  by (auto simp: encode_server_def MaxDatagramBytes_def validate_iffs [symmetric] split: option.splits)

lemma encode_server_nil: "encode_server marshal None = Inl errMalformed"
  by (simp add: encode_server_def validate_envelope_def)

text \<open>The two directions of the wire are disjoint: no envelope that \<open>DecodeClient\<close> accepts can
  be sent by \<open>EncodeServer\<close>, so the relay never echoes a client message as it is.\<close>

lemma directions_disjoint:
  assumes "decode_client unmarshal d = Inr e"
  shows "encode_server marshal (Some e) = Inl errMalformed"
proof -
  have "envelope_ok e" "client_body_ok e (length d) (e_body e)"
    using assms by (simp_all add: decode_client_accepts_iff)
  then have "validate_envelope (Some e) = None" "validate_server e = Some errMalformed"
    by (auto simp: validate_iffs validate_server_def split: envelope_body.splits)
  then show ?thesis by (simp add: encode_server_def)
qed

definition demo_ping :: envelope where
  "demo_ping = \<lparr>e_protocol_revision = 1, e_sequence = 7, e_auth_tag = replicate 32 0,
     e_session_id = ''s-1'', e_room_id = ''r-1'',
     e_body = Envelope_Ping (Some \<lparr>pm_binding_id = replicate 16 1, pm_unknown = []\<rparr>),
     e_unknown = []\<rparr>"

lemma directions_disjoint_witness:
  "decode_client (\<lambda>_. Some demo_ping) [1] = Inr demo_ping \<and>
   encode_server (\<lambda>_. Some [1]) (Some demo_ping) = Inl errMalformed"
proof -
  have "valid_id ''r-1''" "valid_id ''s-1''" by code_simp+
  then have h: "decode_client (\<lambda>_. Some demo_ping) [1] = Inr demo_ping"
    by (simp add: decode_client_accepts_iff demo_ping_def envelope_ok_def)
  then show ?thesis using directions_disjoint [OF h] by simp
qed

end
