(* ===== verification/Auth_Tags.thy ===== *)
theory Auth_Tags
  imports Prelude
begin

text \<open>
  \<open>internal/protocol/auth.go\<close>: the HMAC transcripts of the handshake and of the bound traffic.
  \<open>hmac.New(sha256.New, key)\<close> followed by writes and \<open>Sum\<close> is a function \<open>H\<close> of the key and of
  the concatenation of everything written; \<open>H\<close> is an argument of every tag. What the relay
  itself is responsible for is the message it hands to \<open>H\<close>, and that is what is modelled byte
  for byte and proved injective below.
\<close>

section \<open>Transcripts and tags\<close>

type_synonym hmac_fun = "byte list \<Rightarrow> byte list \<Rightarrow> byte list"

definition transcript :: "string \<Rightarrow> byte list list \<Rightarrow> byte list" where
  "transcript domain fields =
     be16 (of_nat (length domain)) @ str_bytes domain @
     concat (map (\<lambda>field. be32 (of_nat (length field)) @ field) fields)"

definition transcript_hmac :: "hmac_fun \<Rightarrow> bytes32 \<Rightarrow> string \<Rightarrow> byte list list \<Rightarrow> bytes32" where
  "transcript_hmac H key domain fields = H key (transcript domain fields)"

definition handshake_tag ::
  "hmac_fun \<Rightarrow> bytes32 \<Rightarrow> string \<Rightarrow> u32 \<Rightarrow> string \<Rightarrow> string \<Rightarrow> bytes16 \<Rightarrow> bytes16 \<Rightarrow> bytes16 \<Rightarrow> bytes32 \<Rightarrow> bytes32" where
  "handshake_tag H grant_secret domain revision room_id session_id grant_id candidate_id client_nonce server_nonce =
     transcript_hmac H grant_secret domain
       [be32 revision, str_bytes room_id, str_bytes session_id, grant_id,
        candidate_id, client_nonce, server_nonce]"

definition auth_tag ::
  "hmac_fun \<Rightarrow> bytes32 \<Rightarrow> u32 \<Rightarrow> string \<Rightarrow> string \<Rightarrow> bytes16 \<Rightarrow> bytes16 \<Rightarrow> bytes16 \<Rightarrow> bytes32 \<Rightarrow> bytes32" where
  "auth_tag H grant_secret revision room_id session_id grant_id candidate_id client_nonce server_nonce =
     handshake_tag H grant_secret ''relay-auth-v1'' revision room_id session_id
       grant_id candidate_id client_nonce server_nonce"

definition binding_key ::
  "hmac_fun \<Rightarrow> bytes32 \<Rightarrow> u32 \<Rightarrow> string \<Rightarrow> string \<Rightarrow> bytes16 \<Rightarrow> bytes16 \<Rightarrow> bytes16 \<Rightarrow> bytes32 \<Rightarrow> bytes32" where
  "binding_key H grant_secret revision room_id session_id grant_id candidate_id client_nonce server_nonce =
     handshake_tag H grant_secret ''relay-binding-key-v1'' revision room_id session_id
       grant_id candidate_id client_nonce server_nonce"

text \<open>\<open>uint64(expiryUnixMS)\<close> reinterprets the signed milliseconds.\<close>

definition bound_tag ::
  "hmac_fun \<Rightarrow> bytes32 \<Rightarrow> u32 \<Rightarrow> string \<Rightarrow> string \<Rightarrow> bytes16 \<Rightarrow> bytes16 \<Rightarrow> int \<Rightarrow> bytes32" where
  "bound_tag H key revision room_id session_id candidate_id binding_id expiry_unix_ms =
     transcript_hmac H key ''relay-bound-v1''
       [be32 revision, str_bytes room_id, str_bytes session_id, candidate_id, binding_id,
        be64 (word_of_int expiry_unix_ms)]"

definition client_data_tag ::
  "hmac_fun \<Rightarrow> bytes32 \<Rightarrow> u32 \<Rightarrow> string \<Rightarrow> string \<Rightarrow> bytes16 \<Rightarrow> u64 \<Rightarrow> byte list \<Rightarrow> bytes32" where
  "client_data_tag H key revision room_id session_id binding_id sequence payload =
     transcript_hmac H key ''relay-client-data-v1''
       [be32 revision, str_bytes room_id, str_bytes session_id, binding_id, be64 sequence, payload]"

definition ping_tag ::
  "hmac_fun \<Rightarrow> bytes32 \<Rightarrow> u32 \<Rightarrow> string \<Rightarrow> string \<Rightarrow> bytes16 \<Rightarrow> u64 \<Rightarrow> bytes32" where
  "ping_tag H key revision room_id session_id binding_id sequence =
     transcript_hmac H key ''relay-ping-v1''
       [be32 revision, str_bytes room_id, str_bytes session_id, binding_id, be64 sequence]"

definition equal_tag :: "bytes32 \<Rightarrow> byte list \<Rightarrow> bool" where
  "equal_tag expected actual \<longleftrightarrow> length actual = length expected \<and> expected = actual"

lemma equal_tag_iff [simp]: "equal_tag expected actual \<longleftrightarrow> actual = expected"
  by (auto simp: equal_tag_def)

lemmas tag_defs = auth_tag_def binding_key_def bound_tag_def client_data_tag_def ping_tag_def
  handshake_tag_def transcript_hmac_def

section \<open>Big-endian encodings are injective\<close>

text \<open>One byte of a word, by bit position, is the step the three widths share.\<close>

lemma byte_bits:
  fixes a b :: "'a::len word"
  assumes "(ucast (drop_bit k a) :: byte) = ucast (drop_bit k b)" and "k \<le> n" and "n < k + 8"
  shows "bit a n = bit b n"
proof -
  have "bit (ucast (drop_bit k a) :: byte) (n - k) = bit (ucast (drop_bit k b) :: byte) (n - k)"
    using assms(1) by simp
  moreover have "n - k < 8" using assms(2,3) by arith
  ultimately show ?thesis using assms(2) by (simp add: bit_ucast_iff bit_drop_bit_eq)
qed

lemma bytes_determine_word:
  fixes a b :: "'a::len word"
  assumes "\<And>j. 8 * j < LENGTH('a) \<Longrightarrow> (ucast (drop_bit (8 * j) a) :: byte) = ucast (drop_bit (8 * j) b)"
  shows "a = b"
proof (rule bit_word_eqI)
  fix n assume "n < LENGTH('a)"
  have "8 * (n div 8) \<le> n" by simp
  moreover have "n < 8 * (n div 8) + 8" by presburger
  moreover have "8 * (n div 8) < LENGTH('a)" using \<open>n < LENGTH('a)\<close> by simp
  ultimately show "bit a n = bit b n" using byte_bits assms by blast
qed

lemma be16_inject [simp]: "be16 a = be16 b \<longleftrightarrow> a = b"
proof
  assume eq: "be16 a = be16 b"
  show "a = b"
  proof (rule bytes_determine_word)
    fix j assume "8 * j < LENGTH(16)"
    then have "j \<in> {0, 1}" by auto
    then show "(ucast (drop_bit (8 * j) a) :: byte) = ucast (drop_bit (8 * j) b)"
      using eq by (auto simp: be16_def)
  qed
qed simp

lemma be32_inject [simp]: "be32 a = be32 b \<longleftrightarrow> a = b"
proof
  assume eq: "be32 a = be32 b"
  show "a = b"
  proof (rule bytes_determine_word)
    fix j assume "8 * j < LENGTH(32)"
    then have "j \<in> {0, 1, 2, 3}" by auto
    then show "(ucast (drop_bit (8 * j) a) :: byte) = ucast (drop_bit (8 * j) b)"
      using eq by (auto simp: be32_def)
  qed
qed simp

lemma be64_inject [simp]: "be64 a = be64 b \<longleftrightarrow> a = b"
proof
  assume eq: "be64 a = be64 b"
  show "a = b"
  proof (rule bytes_determine_word)
    fix j assume "8 * j < LENGTH(64)"
    then have "j \<in> {0, 1, 2, 3, 4, 5, 6, 7}" by auto
    then show "(ucast (drop_bit (8 * j) a) :: byte) = ucast (drop_bit (8 * j) b)"
      using eq by (auto simp: be64_def)
  qed
qed simp

section \<open>Transcripts determine their fields\<close>

definition field_ok :: "byte list \<Rightarrow> bool" where
  "field_ok f \<longleftrightarrow> length f < 4294967296"

lemma field_ok_small [simp]: "length f \<le> 65536 \<Longrightarrow> field_ok f"
  by (simp add: field_ok_def)

lemma of_nat_length_inject:
  assumes "m < 2 ^ LENGTH('a)" and "n < 2 ^ LENGTH('a)"
  shows "(of_nat m :: 'a::len word) = of_nat n \<longleftrightarrow> m = n"
  using assms by (metis unat_of_nat mod_less)

lemma field_prefixD:
  assumes "field_ok f" and "field_ok g"
    and "be32 (of_nat (length f)) @ f @ xs = be32 (of_nat (length g)) @ g @ ys"
  shows "f = g \<and> xs = ys"
  using of_nat_length_inject [of "length f" "length g", where 'a = 32] assms
  by (auto simp: field_ok_def)

lemma fields_inject:
  assumes "\<forall>f \<in> set fs. field_ok f" and "\<forall>g \<in> set gs. field_ok g"
    and "concat (map (\<lambda>field. be32 (of_nat (length field)) @ field) fs) =
         concat (map (\<lambda>field. be32 (of_nat (length field)) @ field) gs)"
  shows "fs = gs"
  using assms
proof (induction fs arbitrary: gs)
  case Nil
  then show ?case by (cases gs) (auto simp: be32_def)
next
  case (Cons f fs)
  then obtain g gs' where gs: "gs = g # gs'" by (cases gs) (auto simp: be32_def)
  have "field_ok f" and "field_ok g" using Cons.prems gs by simp_all
  moreover have "be32 (of_nat (length f)) @ f @ concat (map (\<lambda>field. be32 (of_nat (length field)) @ field) fs) =
      be32 (of_nat (length g)) @ g @ concat (map (\<lambda>field. be32 (of_nat (length field)) @ field) gs')"
    using Cons.prems(3) unfolding gs by (simp only: list.map concat.simps append_assoc)
  ultimately have fg: "f = g \<and> concat (map (\<lambda>field. be32 (of_nat (length field)) @ field) fs) =
         concat (map (\<lambda>field. be32 (of_nat (length field)) @ field) gs')"
    by (rule field_prefixD)
  have "fs = gs'"
  proof (rule Cons.IH)
    show "\<forall>f \<in> set fs. field_ok f" using Cons.prems(1) by simp
    show "\<forall>g \<in> set gs'. field_ok g" using Cons.prems(2) gs by simp
  qed (use fg in blast)
  with fg gs show ?case by blast
qed

lemma transcript_inject:
  assumes "length d < 65536" and "length d' < 65536"
    and "\<forall>f \<in> set fs. field_ok f" and "\<forall>g \<in> set gs. field_ok g"
  shows "transcript d fs = transcript d' gs \<longleftrightarrow> d = d' \<and> fs = gs"
proof
  assume eq: "transcript d fs = transcript d' gs"
  then have "be16 (of_nat (length d)) = be16 (of_nat (length d'))"
    by (simp add: transcript_def be16_def)
  then have "length d = length d'"
    using of_nat_length_inject [of "length d" "length d'", where 'a = 16] assms(1,2) by simp
  with eq have "d = d'" and "concat (map (\<lambda>field. be32 (of_nat (length field)) @ field) fs) =
         concat (map (\<lambda>field. be32 (of_nat (length field)) @ field) gs)"
    by (simp_all add: transcript_def)
  with assms(3,4) show "d = d' \<and> fs = gs" using fields_inject by blast
qed simp

text \<open>
  The bytes that reach HMAC are made visible by instantiating \<open>H\<close> with the function that returns
  its message.
\<close>

definition hmac_message :: hmac_fun where
  "hmac_message key message = message"

lemmas message_defs = tag_defs hmac_message_def

text \<open>Two HMAC transcripts are the same bytes only when they have the same domain and the
  same fields, for domains shorter than 65536 bytes and fields shorter than 4 GiB: the 16-bit and
  32-bit length prefixes leave no room for two splits of the same bytes.\<close>

lemma transcript_injective:
  assumes "length d < 65536" and "length d' < 65536"
    and "\<forall>f \<in> set fs. length f < 4294967296" and "\<forall>g \<in> set gs. length g < 4294967296"
  shows "transcript_hmac hmac_message key d fs = transcript_hmac hmac_message key' d' gs \<longleftrightarrow>
    d = d' \<and> fs = gs"
  using assms transcript_inject [of d d' fs gs] by (simp add: message_defs field_ok_def)

lemma transcript_injective_witness:
  "transcript_hmac hmac_message [1] ''ab'' [[1], [2, 3]] \<noteq>
   transcript_hmac hmac_message [1] ''ab'' [[1, 2], [3]]"
  using transcript_injective [of "''ab''" "''ab''" "[[1], [2, 3]]" "[[1, 2], [3]]" "[1]" "[1]"]
  by simp

text \<open>The tag of a client datagram covers all of it: two client-data tags hash the same message
  exactly when revision, room, session, binding, sequence number and payload agree.\<close>

lemma client_data_tag_covers:
  assumes "length room < 4294967296" and "length room' < 4294967296"
    and "length session < 4294967296" and "length session' < 4294967296"
    and "length binding < 4294967296" and "length binding' < 4294967296"
    and "length payload < 4294967296" and "length payload' < 4294967296"
  shows "client_data_tag hmac_message key r room session binding seq payload =
         client_data_tag hmac_message key' r' room' session' binding' seq' payload' \<longleftrightarrow>
    r = r' \<and> room = room' \<and> session = session' \<and> binding = binding' \<and> seq = seq' \<and>
    payload = payload'"
proof -
  have "field_ok f" if "f \<in> {str_bytes room, str_bytes session, binding, payload,
      str_bytes room', str_bytes session', binding', payload'}" for f
    using that assms by (auto simp: field_ok_def)
  then show ?thesis by (simp add: message_defs transcript_inject)
qed

lemma client_data_tag_covers_witness:
  "client_data_tag hmac_message [1] 1 ''r'' ''s'' [7] 5 [1, 2] \<noteq>
   client_data_tag hmac_message [1] 1 ''r'' ''s'' [7] 6 [1, 2]"
  using client_data_tag_covers [of "''r''" "''r''" "''s''" "''s''" "[7]" "[7]" "[1, 2]" "[1, 2]"
      "[1]" 1 5 "[1]" 1 6]
  by simp

text \<open>The five domains are pairwise different, so are the messages of tags of different kinds.\<close>

lemma domain_neq:
  assumes "d \<noteq> d'" and "length d < 65536" and "length d' < 65536"
  shows "transcript d fs \<noteq> transcript d' gs"
proof
  assume eq: "transcript d fs = transcript d' gs"
  then have "be16 (of_nat (length d)) = be16 (of_nat (length d'))"
    by (simp add: transcript_def be16_def)
  then have "length d = length d'"
    using of_nat_length_inject [of "length d" "length d'", where 'a = 16] assms(2,3) by simp
  with eq assms(1) show False by (simp add: transcript_def)
qed

text \<open>C15: domain separation: an authentication tag, a binding key, a bound tag, a client-data tag
  and a ping tag never hash the same message, whatever their arguments, so a tag observed in one
  role can not be presented in another.\<close>

theorem tag_domains_separated:
  "distinct
     [auth_tag hmac_message k1 r1 room1 s1 g1 c1 n1 x1,
      binding_key hmac_message k2 r2 room2 s2 g2 c2 n2 x2,
      bound_tag hmac_message k3 r3 room3 s3 c3 b3 e3,
      client_data_tag hmac_message k4 r4 room4 s4 b4 q4 p4,
      ping_tag hmac_message k5 r5 room5 s5 b5 q5]"
  by (simp add: message_defs domain_neq)

end
