(* ===== verification/Replay.thy ===== *)
theory Replay
  imports Prelude
begin

text \<open>
  \<open>replayWindow\<close> of \<open>internal/store/relay.go\<close>: the 64-bit sliding window that admits each
  sequence number of a binding at most once. The window is refined to the set of all sequence
  numbers it has accepted, and the at-most-once guarantee is proved once, in the locale
  \<open>replay_guard\<close>, from what such a guard promises.
\<close>

unbundle bit_operations_syntax

section \<open>The window\<close>

record replay_window =
  rw_highest :: u64
  rw_bitmap :: u64
  rw_initialized :: bool

definition fresh_window :: replay_window where
  "fresh_window = \<lparr>rw_highest = 0, rw_bitmap = 0, rw_initialized = False\<rparr>"

definition window_accept :: "replay_window \<Rightarrow> u64 \<Rightarrow> replay_window \<times> bool" where
  "window_accept window sequence =
     (if \<not> rw_initialized window
      then (\<lparr>rw_highest = sequence, rw_bitmap = 1, rw_initialized = True\<rparr>, True)
      else if sequence > rw_highest window
      then (let shift = sequence - rw_highest window;
                bitmap = (if shift \<ge> 64 then 1
                          else push_bit (unat shift) (rw_bitmap window) OR 1)
            in (window\<lparr>rw_bitmap := bitmap, rw_highest := sequence\<rparr>, True))
      else (let delta = rw_highest window - sequence in
        if delta \<ge> 64 then (window, False)
        else (let b = push_bit (unat delta) 1 in
          if rw_bitmap window AND b \<noteq> 0 then (window, False)
          else (window\<lparr>rw_bitmap := rw_bitmap window OR b\<rparr>, True))))"

section \<open>The contract of a replay guard\<close>

fun run_guard :: "('w \<Rightarrow> 's \<Rightarrow> 'w \<times> bool) \<Rightarrow> 'w \<Rightarrow> 's list \<Rightarrow> bool list" where
  "run_guard accept w [] = []"
| "run_guard accept w (s # ss) = (case accept w s of (w', ok) \<Rightarrow> ok # run_guard accept w' ss)"

text \<open>The numbers a run admits, in order.\<close>

definition admitted_by :: "('w \<Rightarrow> 's \<Rightarrow> 'w \<times> bool) \<Rightarrow> 'w \<Rightarrow> 's list \<Rightarrow> 's list" where
  "admitted_by accept w ss = map fst (filter snd (zip ss (run_guard accept w ss)))"

lemma admitted_by_Nil [simp]: "admitted_by accept w [] = []"
  by (simp add: admitted_by_def)

lemma admitted_by_Cons [simp]:
  "admitted_by accept w (s # ss) =
     (if snd (accept w s) then [s] else []) @ admitted_by accept (fst (accept w s)) ss"
  by (simp add: admitted_by_def split: prod.split)

locale replay_guard =
  fixes init :: "'w"
    and accept :: "'w \<Rightarrow> 's \<Rightarrow> 'w \<times> bool"
    and rep :: "'w \<Rightarrow> 's set \<Rightarrow> bool"
  assumes rep_init: "rep init {}"
    and rep_step: "rep w A \<Longrightarrow> rep (fst (accept w s)) (if snd (accept w s) then insert s A else A)"
    and rejects_seen: "rep w A \<Longrightarrow> s \<in> A \<Longrightarrow> \<not> snd (accept w s)"
begin

lemma admitted_distinct_from:
  "rep w A \<Longrightarrow> distinct (admitted_by accept w ss) \<and> set (admitted_by accept w ss) \<inter> A = {}"
proof (induction ss arbitrary: w A)
  case Nil
  then show ?case by simp
next
  case (Cons s ss)
  show ?case
  proof (cases "snd (accept w s)")
    case True
    then have "s \<notin> A" using Cons.prems rejects_seen by blast
    moreover have "rep (fst (accept w s)) (insert s A)" using rep_step [OF Cons.prems, of s] True by simp
    ultimately show ?thesis using Cons.IH True by fastforce
  next
    case False
    then have "rep (fst (accept w s)) A" using rep_step [OF Cons.prems, of s] by simp
    then show ?thesis using Cons.IH False by simp
  qed
qed

lemma admitted_once: "distinct (admitted_by accept init ss)"
  using admitted_distinct_from [OF rep_init] by blast

end

section \<open>The window against the set of accepted numbers\<close>

text \<open>
  \<open>window_rep w A\<close>: the window \<open>w\<close> stands for the set \<open>A\<close> of all numbers accepted so far. The
  highest one is the greatest of \<open>A\<close>, and the bitmap is exact for the 64 numbers up to it.
\<close>

definition window_rep :: "replay_window \<Rightarrow> u64 set \<Rightarrow> bool" where
  "window_rep w A \<longleftrightarrow>
     (if rw_initialized w
      then rw_highest w \<in> A \<and> (\<forall>s \<in> A. s \<le> rw_highest w) \<and>
        (\<forall>s. s \<le> rw_highest w \<and> unat (rw_highest w) - unat s < 64 \<longrightarrow>
           (bit (rw_bitmap w) (unat (rw_highest w) - unat s) \<longleftrightarrow> s \<in> A))
      else A = {})"

text \<open>What the window is for: a number is fresh when it was not accepted before and is less than 64
  below everything accepted so far.\<close>

definition spec_fresh :: "u64 set \<Rightarrow> u64 \<Rightarrow> bool" where
  "spec_fresh A s \<longleftrightarrow> s \<notin> A \<and> (\<forall>a \<in> A. unat a < unat s + 64)"

definition spec_accept :: "u64 set \<Rightarrow> u64 \<Rightarrow> u64 set \<times> bool" where
  "spec_accept A s = (if spec_fresh A s then (insert s A, True) else (A, False))"

lemma unat_diff_le: "(s :: u64) \<le> h \<Longrightarrow> unat (h - s) = unat h - unat s"
  by (rule unat_sub)

lemma and_single_bit: "(bm :: u64) AND 2 ^ n = 0 \<longleftrightarrow> \<not> (n < 64 \<and> bit bm n)"
proof -
  have bits: "bit (bm AND 2 ^ n) m \<longleftrightarrow> m = n \<and> n < 64 \<and> bit bm n" for m
    by (auto simp: bit_and_iff bit_exp_iff)
  have "bm AND 2 ^ n = 0 \<longleftrightarrow> (\<forall>m. \<not> bit (bm AND 2 ^ n) m)"
    by (metis bit_0_eq bit_word_eqI bot_apply bot_bool_def)
  then show ?thesis by (simp add: bits)
qed

lemma window_rep_first:
  "\<not> rw_initialized w \<Longrightarrow> window_rep w A \<Longrightarrow>
   snd (window_accept w s) = spec_fresh A s \<and> window_rep (fst (window_accept w s)) (insert s A)"
proof -
  assume "\<not> rw_initialized w" and "window_rep w A"
  moreover from this have "A = {}" by (simp add: window_rep_def)
  moreover have "t = s" if "t \<le> s" "unat s - unat t = 0" for t
    using that by (simp add: word_le_nat_alt word_unat_eq_iff)
  ultimately show ?thesis
    by (auto simp: window_accept_def window_rep_def spec_fresh_def bit_1_iff)
qed

lemma window_rep_ahead:
  assumes init: "rw_initialized w" and rep: "window_rep w A" and ahead: "rw_highest w < s"
  shows "snd (window_accept w s) = spec_fresh A s \<and> window_rep (fst (window_accept w s)) (insert s A)"
proof -
  let ?h = "rw_highest w" and ?w = "fst (window_accept w s)"
  have A: "a \<le> ?h" if "a \<in> A" for a using that rep init by (simp add: window_rep_def)
  have hs: "unat ?h < unat s" using ahead by (simp add: word_less_nat_alt)
  have fresh: "spec_fresh A s"
    using A ahead by (fastforce simp: spec_fresh_def word_le_nat_alt word_less_nat_alt)
  have shift: "unat (s - ?h) = unat s - unat ?h" using ahead by (simp add: unat_sub)
  have big: "64 \<le> s - ?h \<longleftrightarrow> 64 \<le> unat s - unat ?h" by (simp add: word_le_nat_alt shift)
  have w: "?w = w\<lparr>rw_bitmap := (if 64 \<le> unat s - unat ?h then 1
      else push_bit (unat s - unat ?h) (rw_bitmap w) OR 1), rw_highest := s\<rparr>"
    using init ahead by (simp add: window_accept_def Let_def big shift)
  have exact: "bit (rw_bitmap ?w) (unat s - unat t) \<longleftrightarrow> t \<in> insert s A"
    if t: "t \<le> s" "unat s - unat t < 64" for t
  proof -
    have ts: "unat t \<le> unat s" using t(1) by (simp add: word_le_nat_alt)
    have old: "bit (rw_bitmap w) (unat ?h - unat t) \<longleftrightarrow> t \<in> A" if "unat t \<le> unat ?h" "unat ?h - unat t < 64"
      using that rep init by (simp add: window_rep_def word_le_nat_alt)
    have out: "t \<notin> A" if "unat ?h < unat t"
      using A [of t] that by (auto simp: word_le_nat_alt)
    have eq: "t = s \<longleftrightarrow> unat s - unat t = 0" using ts by (simp add: word_unat_eq_iff) arith
    show ?thesis
    proof (cases "64 \<le> unat s - unat ?h")
      case True
      then have "t \<in> A \<Longrightarrow> False" using A [of t] t by (auto simp: word_le_nat_alt)
      then show ?thesis using True eq by (auto simp: w bit_1_iff)
    next
      case False
      have idx: "unat s - unat t - (unat s - unat ?h) = unat ?h - unat t"
        if "unat s - unat ?h \<le> unat s - unat t" using that hs ts by arith
      have le: "unat s - unat ?h \<le> unat s - unat t \<longleftrightarrow> unat t \<le> unat ?h" using hs ts by arith
      show ?thesis
        using False t(2) eq old out idx le
        by (cases "unat t \<le> unat ?h") (auto simp: w bit_simps)
    qed
  qed
  have "a \<le> s" if "a \<in> A" for a using A [OF that] ahead by simp
  moreover have "snd (window_accept w s)" using init ahead by (simp add: window_accept_def Let_def)
  ultimately show ?thesis using exact fresh init by (simp add: window_rep_def w)
qed

lemma window_rep_behind:
  assumes init: "rw_initialized w" and rep: "window_rep w A" and behind: "s \<le> rw_highest w"
  shows "snd (window_accept w s) = spec_fresh A s \<and>
    window_rep (fst (window_accept w s)) (if spec_fresh A s then insert s A else A)"
proof -
  let ?h = "rw_highest w" and ?d = "unat (rw_highest w) - unat s"
  have delta: "unat (?h - s) = ?d" using behind by (rule unat_diff_le)
  have big: "64 \<le> ?h - s \<longleftrightarrow> 64 \<le> ?d" by (simp add: word_le_nat_alt delta)
  have hA: "?h \<in> A" and A: "\<forall>a \<in> A. a \<le> ?h"
    and exact: "\<And>t. t \<le> ?h \<Longrightarrow> unat ?h - unat t < 64 \<Longrightarrow> bit (rw_bitmap w) (unat ?h - unat t) \<longleftrightarrow> t \<in> A"
    using rep init by (simp_all add: window_rep_def)
  have recent: "(\<forall>a \<in> A. unat a < unat s + 64) \<longleftrightarrow> ?d < 64"
    using hA A behind by (fastforce simp: word_le_nat_alt)
  have seen: "?d < 64 \<Longrightarrow> bit (rw_bitmap w) ?d \<longleftrightarrow> s \<in> A" using exact behind by blast
  have acc: "window_accept w s = (if ?d < 64 \<and> s \<notin> A
      then (w\<lparr>rw_bitmap := rw_bitmap w OR push_bit ?d 1\<rparr>, True) else (w, False))"
    using init behind seen
    by (auto simp: window_accept_def Let_def big delta and_single_bit not_less)
  have fresh: "spec_fresh A s \<longleftrightarrow> ?d < 64 \<and> s \<notin> A" by (auto simp: spec_fresh_def recent)
  have same: "unat ?h - unat t = ?d \<longleftrightarrow> t = s" if "t \<le> ?h" for t
    using that behind by (auto simp: word_le_nat_alt word_unat_eq_iff)
  show ?thesis
  proof (cases "?d < 64 \<and> s \<notin> A")
    case True
    then have "window_rep (w\<lparr>rw_bitmap := rw_bitmap w OR push_bit ?d 1\<rparr>) (insert s A)"
      using init hA A exact behind same by (auto simp: window_rep_def bit_simps)
    with True show ?thesis by (simp add: acc fresh)
  next
    case False
    with rep show ?thesis by (auto simp: acc fresh)
  qed
qed

lemma window_refines:
  assumes "window_rep w A"
  shows "snd (window_accept w s) = spec_fresh A s"
    and "window_rep (fst (window_accept w s)) (if spec_fresh A s then insert s A else A)"
proof -
  have "snd (window_accept w s) = spec_fresh A s \<and>
    window_rep (fst (window_accept w s)) (if spec_fresh A s then insert s A else A)"
  proof (cases "rw_initialized w")
    case False
    then have "A = {}" using assms by (simp add: window_rep_def)
    then show ?thesis using window_rep_first [OF False assms, of s] by (auto simp: spec_fresh_def)
  next
    case True
    show ?thesis
    proof (cases "rw_highest w < s")
      case ahead: True
      have "spec_fresh A s"
        using window_rep_ahead [OF True assms ahead] True ahead by (simp add: window_accept_def Let_def)
      then show ?thesis using window_rep_ahead [OF True assms ahead] by simp
    next
      case False
      then show ?thesis using window_rep_behind [OF True assms] by simp
    qed
  qed
  then show "snd (window_accept w s) = spec_fresh A s"
    and "window_rep (fst (window_accept w s)) (if spec_fresh A s then insert s A else A)" by blast+
qed

interpretation rw: replay_guard fresh_window window_accept window_rep
proof (unfold_locales)
  show "window_rep fresh_window {}" by (simp add: window_rep_def fresh_window_def)
next
  fix w A s assume "window_rep w A"
  then show "window_rep (fst (window_accept w s)) (if snd (window_accept w s) then insert s A else A)"
    using window_refines [of w A s] by simp
next
  fix w A s assume "window_rep w A" and "s \<in> A"
  then show "\<not> snd (window_accept w s)" using window_refines(1) by (simp add: spec_fresh_def)
qed

section \<open>What the window guarantees\<close>

lemma run_window_spec:
  "window_rep w A \<Longrightarrow> run_guard window_accept w ss = run_guard spec_accept A ss"
proof (induction ss arbitrary: w A)
  case (Cons s ss)
  then show ?case
    using window_refines [of w A s] by (auto simp: spec_accept_def split: prod.split)
qed simp

text \<open>C14: on every sequence of packets the window decides exactly as the unbounded specification
  that remembers every accepted number: a packet is accepted when its number was never accepted
  before and is less than 64 below every accepted one.\<close>

theorem window_refines_spec:
  "run_guard window_accept fresh_window ss = run_guard spec_accept {} ss"
  by (rule run_window_spec) (rule rw.rep_init)

text \<open>No sequence number is accepted twice by one window, in whatever order packets arrive and
  however often they are repeated.\<close>

lemma window_at_most_once:
  "distinct (admitted_by window_accept fresh_window ss)"
  by (rule rw.admitted_once)

text \<open>Reordering inside the window loses nothing: a number that was not accepted before and is
  at most 63 below the highest accepted one is accepted when it arrives, and every number above the
  highest is accepted.\<close>

lemma window_accepts_late_packets:
  assumes "window_rep w A" and "s \<notin> A" and "\<forall>a \<in> A. unat a - unat s \<le> 63"
  shows "snd (window_accept w s)"
  using assms window_refines(1) [of w A s] by (force simp: spec_fresh_def)

lemma window_accepts_late_packets_witness:
  "snd (window_accept (fst (window_accept fresh_window 100)) 37) \<and>
   \<not> snd (window_accept (fst (window_accept fresh_window 100)) 36)"
proof -
  have "window_rep (fst (window_accept fresh_window 100)) {100}"
    using rw.rep_step [OF rw.rep_init, of 100] by (simp add: window_accept_def fresh_window_def)
  then have "snd (window_accept (fst (window_accept fresh_window 100)) 37)"
    by (rule window_accepts_late_packets) simp_all
  moreover have "\<not> snd (window_accept (fst (window_accept fresh_window 100)) 36)"
    by (simp add: window_accept_def fresh_window_def)
  ultimately show ?thesis by blast
qed

end
