(* ===== verification/Limiter.thy ===== *)
theory Limiter
  imports Prelude
begin

text \<open>
  Token buckets. \<open>golang.org/x/time/rate\<close> is third-party code: its \<open>Limiter\<close> is a type variable
  \<open>'l\<close> and its four functions that the repository calls are the fields of a record, an argument
  of every definition that charges a limiter. \<open>limiter_law\<close> is the one documented fact the code
  relies on. On top of it stands \<open>allowAtomic\<close> of \<open>internal/store/relay.go\<close>, modelled with its
  panic.
\<close>

section \<open>The interface of rate.Limiter\<close>

record 'l limiter_api =
  new_limiter :: "go_float \<Rightarrow> int \<Rightarrow> 'l"
  lim_burst :: "'l \<Rightarrow> int"
  tokens_at :: "'l \<Rightarrow> int \<Rightarrow> rat"
  allow_n :: "'l \<Rightarrow> int \<Rightarrow> int \<Rightarrow> 'l \<times> bool"

text \<open>
  \<open>AllowN\<close> reports whether \<open>n\<close> events may happen at time \<open>now\<close>: a request within the burst
  that the tokens at that time cover is granted.
\<close>

definition limiter_law :: "'l limiter_api \<Rightarrow> bool" where
  "limiter_law A \<longleftrightarrow> (\<forall>l now n. n \<le> lim_burst A l \<and> of_int n \<le> tokens_at A l now \<longrightarrow>
      snd (allow_n A l now n))"

section \<open>allowAtomic\<close>

text \<open>
  A charge is a limiter (a pointer, \<^const>\<open>None\<close> when nil) and a cost. The outcome is a panic (a
  nil limiter is dereferenced, or \<open>AllowN\<close> refuses what the preflight granted), a denial, or
  the limiters after the charge, in the order of the charges. The code never passes one limiter
  twice in a call, so the charges are independent values.
\<close>

datatype 'l charge_outcome = Charge_Panic | Denied | Charged "'l list"

type_synonym 'l limiter_charge = "'l option \<times> int"

fun preflight :: "'l limiter_api \<Rightarrow> int \<Rightarrow> 'l limiter_charge list \<Rightarrow> bool option" where
  "preflight A now [] = Some True"
| "preflight A now ((None, cost) # charges) = None"
| "preflight A now ((Some l, cost) # charges) =
     (if cost > lim_burst A l \<or> tokens_at A l now < of_int cost then Some False
      else preflight A now charges)"

fun consume :: "'l limiter_api \<Rightarrow> int \<Rightarrow> 'l limiter_charge list \<Rightarrow> 'l list option" where
  "consume A now [] = Some []"
| "consume A now ((None, cost) # charges) = None"
| "consume A now ((Some l, cost) # charges) =
     (if snd (allow_n A l now cost)
      then map_option (Cons (fst (allow_n A l now cost))) (consume A now charges)
      else None)"

definition allow_atomic :: "'l limiter_api \<Rightarrow> int \<Rightarrow> 'l limiter_charge list \<Rightarrow> 'l charge_outcome" where
  "allow_atomic A now charges = (case preflight A now charges of
     None \<Rightarrow> Charge_Panic
   | Some False \<Rightarrow> Denied
   | Some True \<Rightarrow> (case consume A now charges of None \<Rightarrow> Charge_Panic | Some ls \<Rightarrow> Charged ls))"

section \<open>All or nothing\<close>

lemma preflight_True:
  assumes "preflight A now charges = Some True"
  shows "\<forall>c \<in> set charges. \<exists>l. fst c = Some l \<and> snd c \<le> lim_burst A l \<and> of_int (snd c) \<le> tokens_at A l now"
  using assms by (induction A now charges rule: preflight.induct) (auto simp: not_less split: if_splits)

lemma preflight_total:
  "\<forall>c \<in> set charges. fst c \<noteq> None \<Longrightarrow> preflight A now charges \<noteq> None"
  by (induction A now charges rule: preflight.induct) auto

lemma consume_Some:
  "consume A now charges = Some ls \<Longrightarrow>
   ls = map (\<lambda>c. fst (allow_n A (the (fst c)) now (snd c))) charges"
  by (induction A now charges arbitrary: ls rule: consume.induct) (auto split: if_splits)

lemma consume_total:
  assumes "limiter_law A"
  shows "\<forall>c \<in> set charges. \<exists>l. fst c = Some l \<and> snd c \<le> lim_burst A l \<and> of_int (snd c) \<le> tokens_at A l now
    \<Longrightarrow> consume A now charges \<noteq> None"
proof (induction charges)
  case (Cons c charges)
  then obtain l cost where c: "c = (Some l, cost)" "cost \<le> lim_burst A l" "of_int cost \<le> tokens_at A l now"
    by (cases c) auto
  then have "snd (allow_n A l now cost)" using assms by (simp add: limiter_law_def)
  with Cons c show ?case by simp
qed simp

lemma allow_atomic_Charged:
  assumes "allow_atomic A now charges = Charged ls"
  shows "preflight A now charges = Some True"
    and "ls = map (\<lambda>c. fst (allow_n A (the (fst c)) now (snd c))) charges"
    and "length ls = length charges"
proof -
  show "preflight A now charges = Some True"
    using assms by (auto simp: allow_atomic_def split: option.splits bool.splits)
  show eq: "ls = map (\<lambda>c. fst (allow_n A (the (fst c)) now (snd c))) charges"
    using assms consume_Some
    by (auto simp: allow_atomic_def split: option.splits bool.splits)
  show "length ls = length charges" by (simp add: eq)
qed

text \<open>A group of charges is granted all or nothing: it is granted exactly when every limiter of
  the group covers its cost at that instant, then every limiter is charged once with its own cost;
  otherwise no limiter is touched. With the documented behaviour of \<open>AllowN\<close>, and no nil limiter,
  the panic branch is never taken.\<close>

lemma allow_atomic_all_or_nothing:
  assumes "limiter_law A" and "\<forall>c \<in> set charges. fst c \<noteq> None"
  shows "allow_atomic A now charges =
    (if \<forall>c \<in> set charges. snd c \<le> lim_burst A (the (fst c)) \<and>
          of_int (snd c) \<le> tokens_at A (the (fst c)) now
     then Charged (map (\<lambda>c. fst (allow_n A (the (fst c)) now (snd c))) charges)
     else Denied)"
proof (cases "preflight A now charges = Some True")
  case True
  note cover = preflight_True [OF True]
  obtain ls where ls: "consume A now charges = Some ls"
    using consume_total [OF assms(1) cover] by auto
  have "allow_atomic A now charges = Charged ls" using True ls by (simp add: allow_atomic_def)
  moreover have "\<forall>c \<in> set charges. snd c \<le> lim_burst A (the (fst c)) \<and>
      of_int (snd c) \<le> tokens_at A (the (fst c)) now"
    using cover by fastforce
  ultimately show ?thesis using consume_Some [OF ls] by simp
next
  case False
  then have "preflight A now charges = Some False"
    using preflight_total [OF assms(2), of A now] by (cases "preflight A now charges") auto
  moreover from this have "\<not> (\<forall>c \<in> set charges. snd c \<le> lim_burst A (the (fst c)) \<and>
      of_int (snd c) \<le> tokens_at A (the (fst c)) now)"
    by (induction A now charges rule: preflight.induct) (auto simp: not_le split: if_splits)
  ultimately show ?thesis by (simp add: allow_atomic_def)
qed

text \<open>
  A concrete limiter, for the witnesses: a bucket that never refills, of type burst and
  remaining tokens.
\<close>

definition bucket :: "(int \<times> int) limiter_api" where
  "bucket = \<lparr>new_limiter = (\<lambda>rate burst. (burst, burst)), lim_burst = fst,
     tokens_at = (\<lambda>l now. of_int (snd l)),
     allow_n = (\<lambda>l now n. if n \<le> snd l then ((fst l, snd l - n), True) else (l, False))\<rparr>"

lemma bucket_law [simp]: "limiter_law bucket"
  by (simp add: limiter_law_def bucket_def)

lemma allow_atomic_all_or_nothing_witness:
  "allow_atomic bucket 0 [(Some (5, 5), 2), (Some (9, 3), 3)] = Charged [(5, 3), (9, 0)] \<and>
   allow_atomic bucket 0 [(Some (5, 5), 2), (Some (9, 3), 4)] = Denied"
  using allow_atomic_all_or_nothing [OF bucket_law, of "[(Some (5, 5), 2), (Some (9, 3), 3)]" 0]
    allow_atomic_all_or_nothing [OF bucket_law, of "[(Some (5, 5), 2), (Some (9, 3), 4)]" 0]
  by (simp add: bucket_def)

end
