(* ===== verification/Store_Limits.thy ===== *)
theory Store_Limits
  imports Prelude
begin

text \<open>
  The configuration of \<open>internal/store/store.go\<close>: \<open>Limits\<close>, the compiled hard maxima (the
  constant block, here the record \<open>hard_limits\<close>), \<open>DefaultLimits\<close> and \<open>validLimits\<close>. A
  \<open>rate.Limit\<close> is a \<open>float64\<close>, so a rate can be an infinity or NaN, which the validation must
  reject.
\<close>

section \<open>Limits\<close>

record limits =
  MaxOpenRooms :: int
  MaxRoomRecords :: int
  MaxRoomCapacity :: int
  MaxActiveSessions :: int
  MaxRoomTTL :: duration
  MaxGrantTTL :: duration
  SweepInterval :: duration
  EmptyGrace :: duration
  TombstoneTTL :: duration
  ChallengeTTL :: duration
  BindingTTL :: duration
  PreauthSourcePacketRate :: go_float
  PreauthSourcePacketBurst :: int
  PreauthSourceByteRate :: go_float
  PreauthSourceByteBurst :: int
  PreauthGlobalPacketRate :: go_float
  PreauthGlobalPacketBurst :: int
  PreauthGlobalByteRate :: go_float
  PreauthGlobalByteBurst :: int
  SessionPacketRate :: go_float
  SessionPacketBurst :: int
  SessionByteRate :: go_float
  SessionByteBurst :: int
  RoomPacketRate :: go_float
  RoomPacketBurst :: int
  RoomByteRate :: go_float
  RoomByteBurst :: int
  AuthenticatedGlobalPacketRate :: go_float
  AuthenticatedGlobalPacketBurst :: int
  AuthenticatedGlobalByteRate :: go_float
  AuthenticatedGlobalByteBurst :: int
  RoomFanoutWriteRate :: go_float
  RoomFanoutWriteBurst :: int
  RoomFanoutByteRate :: go_float
  RoomFanoutByteBurst :: int
  GlobalFanoutWriteRate :: go_float
  GlobalFanoutWriteBurst :: int
  GlobalFanoutByteRate :: go_float
  GlobalFanoutByteBurst :: int

definition hard_limits :: limits where
  "hard_limits = \<lparr>
     MaxOpenRooms = 256, MaxRoomRecords = 4096, MaxRoomCapacity = 16, MaxActiveSessions = 4096,
     MaxRoomTTL = 2 * hour, MaxGrantTTL = 2 * hour, SweepInterval = second, EmptyGrace = 5 * second,
     TombstoneTTL = 60 * second, ChallengeTTL = 3 * second, BindingTTL = 60 * second,
     PreauthSourcePacketRate = Fin 16, PreauthSourcePacketBurst = 160,
     PreauthSourceByteRate = Fin 19200, PreauthSourceByteBurst = 192000,
     PreauthGlobalPacketRate = Fin 128, PreauthGlobalPacketBurst = 1280,
     PreauthGlobalByteRate = Fin 153600, PreauthGlobalByteBurst = 1536000,
     SessionPacketRate = Fin 40, SessionPacketBurst = 40,
     SessionByteRate = Fin 20480, SessionByteBurst = 20480,
     RoomPacketRate = Fin 160, RoomPacketBurst = 160,
     RoomByteRate = Fin 81920, RoomByteBurst = 81920,
     AuthenticatedGlobalPacketRate = Fin 1280, AuthenticatedGlobalPacketBurst = 1280,
     AuthenticatedGlobalByteRate = Fin 655360, AuthenticatedGlobalByteBurst = 655360,
     RoomFanoutWriteRate = Fin 480, RoomFanoutWriteBurst = 480,
     RoomFanoutByteRate = Fin 245760, RoomFanoutByteBurst = 245760,
     GlobalFanoutWriteRate = Fin 3840, GlobalFanoutWriteBurst = 3840,
     GlobalFanoutByteRate = Fin 1966080, GlobalFanoutByteBurst = 1966080\<rparr>"

definition HardMaxPreauthSources :: int where
  "HardMaxPreauthSources = 4096"

definition default_limits :: limits where
  "default_limits = \<lparr>
     MaxOpenRooms = MaxOpenRooms hard_limits,
     MaxRoomRecords = MaxRoomRecords hard_limits,
     MaxRoomCapacity = MaxRoomCapacity hard_limits,
     MaxActiveSessions = MaxActiveSessions hard_limits,
     MaxRoomTTL = MaxRoomTTL hard_limits,
     MaxGrantTTL = MaxGrantTTL hard_limits,
     SweepInterval = SweepInterval hard_limits,
     EmptyGrace = EmptyGrace hard_limits,
     TombstoneTTL = TombstoneTTL hard_limits,
     ChallengeTTL = ChallengeTTL hard_limits,
     BindingTTL = BindingTTL hard_limits,
     PreauthSourcePacketRate = PreauthSourcePacketRate hard_limits,
     PreauthSourcePacketBurst = PreauthSourcePacketBurst hard_limits,
     PreauthSourceByteRate = PreauthSourceByteRate hard_limits,
     PreauthSourceByteBurst = PreauthSourceByteBurst hard_limits,
     PreauthGlobalPacketRate = PreauthGlobalPacketRate hard_limits,
     PreauthGlobalPacketBurst = PreauthGlobalPacketBurst hard_limits,
     PreauthGlobalByteRate = PreauthGlobalByteRate hard_limits,
     PreauthGlobalByteBurst = PreauthGlobalByteBurst hard_limits,
     SessionPacketRate = SessionPacketRate hard_limits,
     SessionPacketBurst = SessionPacketBurst hard_limits,
     SessionByteRate = SessionByteRate hard_limits,
     SessionByteBurst = SessionByteBurst hard_limits,
     RoomPacketRate = RoomPacketRate hard_limits,
     RoomPacketBurst = RoomPacketBurst hard_limits,
     RoomByteRate = RoomByteRate hard_limits,
     RoomByteBurst = RoomByteBurst hard_limits,
     AuthenticatedGlobalPacketRate = AuthenticatedGlobalPacketRate hard_limits,
     AuthenticatedGlobalPacketBurst = AuthenticatedGlobalPacketBurst hard_limits,
     AuthenticatedGlobalByteRate = AuthenticatedGlobalByteRate hard_limits,
     AuthenticatedGlobalByteBurst = AuthenticatedGlobalByteBurst hard_limits,
     RoomFanoutWriteRate = RoomFanoutWriteRate hard_limits,
     RoomFanoutWriteBurst = RoomFanoutWriteBurst hard_limits,
     RoomFanoutByteRate = RoomFanoutByteRate hard_limits,
     RoomFanoutByteBurst = RoomFanoutByteBurst hard_limits,
     GlobalFanoutWriteRate = GlobalFanoutWriteRate hard_limits,
     GlobalFanoutWriteBurst = GlobalFanoutWriteBurst hard_limits,
     GlobalFanoutByteRate = GlobalFanoutByteRate hard_limits,
     GlobalFanoutByteBurst = GlobalFanoutByteBurst hard_limits\<rparr>"

definition valid_rate :: "go_float \<Rightarrow> go_float \<Rightarrow> bool" where
  "valid_rate v maximum \<longleftrightarrow> fl_lt (Fin 0) v \<and> fl_le v maximum"

definition valid_limits :: "limits \<Rightarrow> bool" where
  "valid_limits l \<longleftrightarrow>
     MaxOpenRooms l > 0 \<and> MaxOpenRooms l \<le> MaxOpenRooms hard_limits \<and>
     MaxRoomRecords l > 0 \<and> MaxRoomRecords l \<le> MaxRoomRecords hard_limits \<and>
     MaxRoomCapacity l > 0 \<and> MaxRoomCapacity l \<le> MaxRoomCapacity hard_limits \<and>
     MaxActiveSessions l > 0 \<and> MaxActiveSessions l \<le> MaxActiveSessions hard_limits \<and>
     MaxRoomTTL l > 0 \<and> MaxRoomTTL l \<le> MaxRoomTTL hard_limits \<and>
     MaxGrantTTL l > 0 \<and> MaxGrantTTL l \<le> MaxGrantTTL hard_limits \<and>
     SweepInterval l > 0 \<and> SweepInterval l \<le> SweepInterval hard_limits \<and>
     EmptyGrace l > 0 \<and> EmptyGrace l \<le> EmptyGrace hard_limits \<and>
     TombstoneTTL l > 0 \<and> TombstoneTTL l \<le> TombstoneTTL hard_limits \<and>
     ChallengeTTL l > 0 \<and> ChallengeTTL l \<le> ChallengeTTL hard_limits \<and>
     BindingTTL l > 0 \<and> BindingTTL l \<le> BindingTTL hard_limits \<and>
     valid_rate (PreauthSourcePacketRate l) (PreauthSourcePacketRate hard_limits) \<and>
     PreauthSourcePacketBurst l > 0 \<and> PreauthSourcePacketBurst l \<le> PreauthSourcePacketBurst hard_limits \<and>
     valid_rate (PreauthSourceByteRate l) (PreauthSourceByteRate hard_limits) \<and>
     PreauthSourceByteBurst l > 0 \<and> PreauthSourceByteBurst l \<le> PreauthSourceByteBurst hard_limits \<and>
     valid_rate (PreauthGlobalPacketRate l) (PreauthGlobalPacketRate hard_limits) \<and>
     PreauthGlobalPacketBurst l > 0 \<and> PreauthGlobalPacketBurst l \<le> PreauthGlobalPacketBurst hard_limits \<and>
     valid_rate (PreauthGlobalByteRate l) (PreauthGlobalByteRate hard_limits) \<and>
     PreauthGlobalByteBurst l > 0 \<and> PreauthGlobalByteBurst l \<le> PreauthGlobalByteBurst hard_limits \<and>
     valid_rate (SessionPacketRate l) (SessionPacketRate hard_limits) \<and>
     SessionPacketBurst l > 0 \<and> SessionPacketBurst l \<le> SessionPacketBurst hard_limits \<and>
     valid_rate (SessionByteRate l) (SessionByteRate hard_limits) \<and>
     SessionByteBurst l > 0 \<and> SessionByteBurst l \<le> SessionByteBurst hard_limits \<and>
     valid_rate (RoomPacketRate l) (RoomPacketRate hard_limits) \<and>
     RoomPacketBurst l > 0 \<and> RoomPacketBurst l \<le> RoomPacketBurst hard_limits \<and>
     valid_rate (RoomByteRate l) (RoomByteRate hard_limits) \<and>
     RoomByteBurst l > 0 \<and> RoomByteBurst l \<le> RoomByteBurst hard_limits \<and>
     valid_rate (AuthenticatedGlobalPacketRate l) (AuthenticatedGlobalPacketRate hard_limits) \<and>
     AuthenticatedGlobalPacketBurst l > 0 \<and> AuthenticatedGlobalPacketBurst l \<le> AuthenticatedGlobalPacketBurst hard_limits \<and>
     valid_rate (AuthenticatedGlobalByteRate l) (AuthenticatedGlobalByteRate hard_limits) \<and>
     AuthenticatedGlobalByteBurst l > 0 \<and> AuthenticatedGlobalByteBurst l \<le> AuthenticatedGlobalByteBurst hard_limits \<and>
     valid_rate (RoomFanoutWriteRate l) (RoomFanoutWriteRate hard_limits) \<and>
     RoomFanoutWriteBurst l > 0 \<and> RoomFanoutWriteBurst l \<le> RoomFanoutWriteBurst hard_limits \<and>
     valid_rate (RoomFanoutByteRate l) (RoomFanoutByteRate hard_limits) \<and>
     RoomFanoutByteBurst l > 0 \<and> RoomFanoutByteBurst l \<le> RoomFanoutByteBurst hard_limits \<and>
     valid_rate (GlobalFanoutWriteRate l) (GlobalFanoutWriteRate hard_limits) \<and>
     GlobalFanoutWriteBurst l > 0 \<and> GlobalFanoutWriteBurst l \<le> GlobalFanoutWriteBurst hard_limits \<and>
     valid_rate (GlobalFanoutByteRate l) (GlobalFanoutByteRate hard_limits) \<and>
     GlobalFanoutByteBurst l > 0 \<and> GlobalFanoutByteBurst l \<le> GlobalFanoutByteBurst hard_limits \<and>
     MaxOpenRooms l \<le> MaxRoomRecords l \<and>
     MaxRoomCapacity l \<le> MaxActiveSessions l \<and>
     MaxGrantTTL l \<le> MaxRoomTTL l"

section \<open>What validation establishes\<close>

lemma valid_rate_iff: "valid_rate v (Fin m) \<longleftrightarrow> (\<exists>r. v = Fin r \<and> 0 < r \<and> r \<le> m)"
  by (cases v) (auto simp: valid_rate_def)

text \<open>The durations and counts the store's operations rely on.\<close>

lemma valid_limits_bounds:
  assumes "valid_limits l"
  shows "0 < MaxOpenRooms l" "MaxOpenRooms l \<le> 256" "0 < MaxRoomRecords l" "MaxRoomRecords l \<le> 4096"
    "0 < MaxRoomCapacity l" "MaxRoomCapacity l \<le> 16" "0 < MaxActiveSessions l" "MaxActiveSessions l \<le> 4096"
    "0 < MaxRoomTTL l" "MaxRoomTTL l \<le> 7200 * second" "0 < MaxGrantTTL l" "MaxGrantTTL l \<le> 7200 * second"
    "0 < SweepInterval l" "SweepInterval l \<le> second"
    "0 < EmptyGrace l" "EmptyGrace l \<le> 5 * second" "0 < TombstoneTTL l" "TombstoneTTL l \<le> 60 * second"
    "0 < ChallengeTTL l" "ChallengeTTL l \<le> 3 * second" "0 < BindingTTL l" "BindingTTL l \<le> 60 * second"
  using assms by (simp_all add: valid_limits_def hard_limits_def)

definition all_rates :: "limits \<Rightarrow> go_float list" where
  "all_rates l = [PreauthSourcePacketRate l,
     PreauthSourceByteRate l,
     PreauthGlobalPacketRate l,
     PreauthGlobalByteRate l,
     SessionPacketRate l,
     SessionByteRate l,
     RoomPacketRate l,
     RoomByteRate l,
     AuthenticatedGlobalPacketRate l,
     AuthenticatedGlobalByteRate l,
     RoomFanoutWriteRate l,
     RoomFanoutByteRate l,
     GlobalFanoutWriteRate l,
     GlobalFanoutByteRate l]"

definition all_bursts :: "limits \<Rightarrow> int list" where
  "all_bursts l = [PreauthSourcePacketBurst l,
     PreauthSourceByteBurst l,
     PreauthGlobalPacketBurst l,
     PreauthGlobalByteBurst l,
     SessionPacketBurst l,
     SessionByteBurst l,
     RoomPacketBurst l,
     RoomByteBurst l,
     AuthenticatedGlobalPacketBurst l,
     AuthenticatedGlobalByteBurst l,
     RoomFanoutWriteBurst l,
     RoomFanoutByteBurst l,
     GlobalFanoutWriteBurst l,
     GlobalFanoutByteBurst l]"

text \<open>Accepted limits switch nothing off: every one of the fourteen rates is a positive finite
  number (never zero, negative, infinite or NaN) no larger than its compiled maximum, and so is
  every burst.\<close>

lemma valid_limits_finite:
  assumes "valid_limits l"
  shows "list_all2 (\<lambda>rate hard. \<exists>r h. rate = Fin r \<and> hard = Fin h \<and> 0 < r \<and> r \<le> h)
           (all_rates l) (all_rates hard_limits) \<and>
         list_all2 (\<lambda>burst hard. 0 < burst \<and> burst \<le> hard) (all_bursts l) (all_bursts hard_limits)"
  using assms by (simp add: valid_limits_def all_rates_def all_bursts_def hard_limits_def valid_rate_iff)

lemma valid_default_limits: "valid_limits default_limits"
  by (simp add: valid_limits_def default_limits_def hard_limits_def valid_rate_iff)

lemma valid_limits_finite_witness:
  "list_all2 (\<lambda>rate hard. \<exists>r h. rate = Fin r \<and> hard = Fin h \<and> 0 < r \<and> r \<le> h)
     (all_rates default_limits) (all_rates hard_limits) \<and>
   \<not> valid_limits (default_limits\<lparr>SessionByteRate := NaN\<rparr>) \<and>
   \<not> valid_limits (default_limits\<lparr>SessionByteRate := Pos_Inf\<rparr>)"
  using valid_limits_finite [OF valid_default_limits]
  by (simp add: valid_limits_def valid_rate_def hard_limits_def)

end
