(* ===== verification/Endpoint.thy ===== *)
theory Endpoint
  imports Prelude
begin

text \<open>
  The part of \<open>net/netip\<close> that the relay uses, with \<open>sourceKey\<close> of \<open>internal/store/relay.go\<close> and
  \<open>normalizeEndpoint\<close> of \<open>internal/relay/udp.go\<close>.
\<close>

unbundle bit_operations_syntax

section \<open>Addresses\<close>

datatype ip_addr = Addr_Zero | Addr4 "32 word" | Addr6 "128 word" string

record addr_port =
  ap_addr :: ip_addr
  ap_port :: u16

definition no_endpoint :: addr_port where
  "no_endpoint = \<lparr>ap_addr = Addr_Zero, ap_port = 0\<rparr>"

definition endpoint_is_valid :: "addr_port \<Rightarrow> bool" where
  "endpoint_is_valid e \<longleftrightarrow> ap_addr e \<noteq> Addr_Zero"

text \<open>\<open>Unmap\<close> turns an IPv4-mapped IPv6 address into the IPv4 address and drops its zone.\<close>

fun unmap :: "ip_addr \<Rightarrow> ip_addr" where
  "unmap (Addr6 a zone) = (if drop_bit 32 a = 65535 then Addr4 (ucast a) else Addr6 a zone)"
| "unmap addr = addr"

lemma unmap_idem [simp]: "unmap (unmap a) = unmap a"
  by (cases a) auto

section \<open>Source keys\<close>

text \<open>A prefix is an address without zone and a length; the invalid prefix is \<^const>\<open>None\<close>.\<close>

datatype prefix = Prefix ip_addr nat

definition source_key :: "addr_port \<Rightarrow> prefix option" where
  "source_key endpoint = (case unmap (ap_addr endpoint) of
     Addr4 a \<Rightarrow> Some (Prefix (Addr4 a) 32)
   | Addr6 a zone \<Rightarrow> Some (Prefix (Addr6 (a AND NOT (mask 64)) '''') 64)
   | Addr_Zero \<Rightarrow> None)"

definition normalize_endpoint :: "addr_port \<Rightarrow> addr_port" where
  "normalize_endpoint endpoint =
     (if \<not> endpoint_is_valid endpoint then no_endpoint
      else \<lparr>ap_addr = unmap (ap_addr endpoint), ap_port = ap_port endpoint\<rparr>)"

lemma source_key_None_iff: "source_key e = None \<longleftrightarrow> \<not> endpoint_is_valid e"
  by (cases "ap_addr e") (auto simp: source_key_def endpoint_is_valid_def)

lemma normalize_idem: "normalize_endpoint (normalize_endpoint e) = normalize_endpoint e"
  by (cases "ap_addr e") (auto simp: normalize_endpoint_def endpoint_is_valid_def no_endpoint_def)

text \<open>One pre-authentication budget per network source: two endpoints share a source key exactly
  when their unmapped addresses are the same IPv4 address or lie in the same IPv6 /64, whatever
  their ports and zones; normalising an endpoint does not change its key.\<close>

lemma source_key_eq_iff:
  "(source_key e = source_key f \<longleftrightarrow>
     (case (unmap (ap_addr e), unmap (ap_addr f)) of
        (Addr_Zero, Addr_Zero) \<Rightarrow> True
      | (Addr4 a, Addr4 b) \<Rightarrow> a = b
      | (Addr6 a za, Addr6 b zb) \<Rightarrow> drop_bit 64 a = drop_bit 64 b
      | _ \<Rightarrow> False)) \<and>
   source_key (normalize_endpoint e) = source_key e"
proof -
  have high: "a AND NOT (mask 64) = b AND NOT (mask 64) \<longleftrightarrow> drop_bit 64 a = drop_bit 64 b"
    for a b :: "128 word"
  proof
    assume eq: "a AND NOT (mask 64) = b AND NOT (mask 64)"
    show "drop_bit 64 a = drop_bit 64 b"
    proof (rule bit_word_eqI)
      fix n assume "n < LENGTH(128)"
      have "bit (a AND NOT (mask 64)) (64 + n) = bit (b AND NOT (mask 64)) (64 + n)" using eq by simp
      then show "bit (drop_bit 64 a) n = bit (drop_bit 64 b) n"
        by (auto simp: bit_simps dest: bit_imp_le_length)
    qed
  next
    assume eq: "drop_bit 64 a = drop_bit 64 b"
    show "a AND NOT (mask 64) = b AND NOT (mask 64)"
    proof (rule bit_word_eqI)
      fix n assume "n < LENGTH(128)"
      have "bit (drop_bit 64 a) (n - 64) = bit (drop_bit 64 b) (n - 64)" using eq by simp
      then show "bit (a AND NOT (mask 64)) n = bit (b AND NOT (mask 64)) n"
        by (auto simp: bit_simps)
    qed
  qed
  have "source_key (normalize_endpoint e) = source_key e"
    by (auto simp: source_key_def normalize_endpoint_def endpoint_is_valid_def no_endpoint_def)
  then show ?thesis by (auto simp: source_key_def high split: ip_addr.split)
qed

end
