(* ===== verification/Store_State.thy ===== *)
theory Store_State
  imports Codec Auth_Tags Replay Limiter Store_Limits Endpoint
begin

text \<open>
  The state of \<open>store.Store\<close> (\<open>internal/store/store.go\<close>, \<open>internal/store/relay.go\<close>) and the
  operations on one grant and one room that the public operations share.

  Grants are shared: a room lists them, and three indexes (by grant, candidate and binding
  identifier) point at the same objects. They therefore live in an explicit heap, addressed by
  \<open>gref\<close>; the indexes and the room's list hold addresses. Rooms and pre-authentication sources are
  reached through one map each, so they are values of those maps. The indexes whose length the code
  never reads are partial functions, the maps whose length or keys it reads are finite maps.
  Everything happens under the store's mutex, so an operation is one state transformation; the clock
  reading it takes under the lock is an argument.
\<close>

section \<open>Records\<close>

datatype store_error = ErrInvalid | ErrNotFound | ErrConflict | ErrCapacity | ErrFatalRandom

record clock_reading =
  wall :: time
  mono :: duration

datatype grant_state = GrantStateIssued | GrantStateBound | GrantStateExpired | GrantStateRevoked

datatype binding_state = BindingStateUnset | BindingStateUnbound | BindingStateBound
  | BindingStateRebindPending | BindingStateExpired | BindingStateRevoked

datatype reject_reason = RejectNone | RejectMalformed | RejectOversized | RejectUnsupportedVersion
  | RejectUnknownGrant | RejectAuthFailed | RejectReplay | RejectExpired | RejectRevoked
  | RejectWrongRoom | RejectWrongEndpoint | RejectNotBound | RejectRateLimited
  | RejectFanoutLimited | RejectDraining | RejectFatalRandom

record challenge_result =
  cr_candidate_id :: bytes16
  cr_server_nonce :: bytes32
  cr_expires_unix_ms :: int

record bound_result =
  br_binding_id :: bytes16
  br_expires_unix_ms :: int
  br_auth_tag :: bytes32

record challenge_record =
  c_candidate_id :: bytes16
  c_client_nonce :: bytes16
  c_server_nonce :: bytes32
  c_endpoint :: addr_port
  c_deadline :: duration
  c_result :: challenge_result

record completed_handshake =
  h_candidate_id :: bytes16
  h_nonce :: bytes16
  h_server_nonce :: bytes32
  h_endpoint :: addr_port
  h_deadline :: duration
  h_generation :: u64
  h_result :: bound_result

record binding_record =
  b_id :: bytes16
  b_key :: bytes32
  b_endpoint :: addr_port
  b_deadline :: duration
  b_generation :: u64
  b_replay :: replay_window

record 'l preauth_source =
  last_observed :: duration
  src_packets :: 'l
  src_bytes :: 'l

record 'l grant_record =
  g_room_id :: string
  g_participant_id :: string
  g_session_id :: string
  g_id :: bytes16
  g_secret :: "bytes32 option"
  g_expires_at :: time
  g_mono_deadline :: duration
  g_state :: grant_state
  g_binding_state :: binding_state
  g_generation :: u64
  g_pending :: "challenge_record option"
  g_recent :: "completed_handshake option"
  g_binding :: "binding_record option"
  g_ingress_packets :: "'l option"
  g_ingress_bytes :: "'l option"

datatype room_state = roomStateOpen | roomStateEmpty | roomStateTombstone

type_synonym gref = nat

record 'l room_record =
  r_state :: room_state
  r_capacity :: u32
  r_created_at :: time
  r_expires_at :: time
  r_mono_deadline :: duration
  r_grants :: "gref list"
  r_tombstone_deadline :: duration
  r_ingress_packets :: "'l option"
  r_ingress_bytes :: "'l option"
  r_fanout_writes :: "'l option"
  r_fanout_bytes :: "'l option"

text \<open>
  \<open>s_self\<close> is the address of the store object (compared by \<open>AdmitFanout\<close>), \<open>s_random\<close> the
  remaining bytes of the random source, \<open>s_next\<close> the first unused heap address.
\<close>

record 'l store =
  s_self :: nat
  s_limits :: limits
  s_random :: "byte list"
  s_heap :: "gref \<Rightarrow> 'l grant_record"
  s_next :: gref
  s_rooms :: "(string, 'l room_record) fmap"
  s_grants_by_id :: "bytes16 \<rightharpoonup> gref"
  s_candidates_by_id :: "bytes16 \<rightharpoonup> gref"
  s_bindings_by_id :: "bytes16 \<rightharpoonup> gref"
  s_preauth_sources :: "(prefix, 'l preauth_source) fmap"
  s_preauth_global_packets :: 'l
  s_preauth_global_bytes :: 'l
  s_auth_global_packets :: 'l
  s_auth_global_bytes :: 'l
  s_global_fanout_writes :: 'l
  s_global_fanout_bytes :: 'l
  s_open_rooms :: int
  s_active_sessions :: int

definition empty_grant :: "'l grant_record" where
  "empty_grant = \<lparr>g_room_id = '''', g_participant_id = '''', g_session_id = '''', g_id = [],
     g_secret = None, g_expires_at = zero_time, g_mono_deadline = 0, g_state = GrantStateIssued,
     g_binding_state = BindingStateUnset, g_generation = 0, g_pending = None, g_recent = None,
     g_binding = None, g_ingress_packets = None, g_ingress_bytes = None\<rparr>"

text \<open>\<open>New\<close>.\<close>

definition store_new :: "'l limiter_api \<Rightarrow> nat \<Rightarrow> limits \<Rightarrow> byte list \<Rightarrow> store_error + 'l store" where
  "store_new A self lims random =
     (if \<not> valid_limits lims then Inl ErrInvalid
      else Inr \<lparr>s_self = self, s_limits = lims, s_random = random, s_heap = (\<lambda>_. empty_grant), s_next = 0,
        s_rooms = fmempty, s_grants_by_id = Map.empty, s_candidates_by_id = Map.empty,
        s_bindings_by_id = Map.empty, s_preauth_sources = fmempty,
        s_preauth_global_packets = new_limiter A (PreauthGlobalPacketRate lims) (PreauthGlobalPacketBurst lims),
        s_preauth_global_bytes = new_limiter A (PreauthGlobalByteRate lims) (PreauthGlobalByteBurst lims),
        s_auth_global_packets = new_limiter A (AuthenticatedGlobalPacketRate lims) (AuthenticatedGlobalPacketBurst lims),
        s_auth_global_bytes = new_limiter A (AuthenticatedGlobalByteRate lims) (AuthenticatedGlobalByteBurst lims),
        s_global_fanout_writes = new_limiter A (GlobalFanoutWriteRate lims) (GlobalFanoutWriteBurst lims),
        s_global_fanout_bytes = new_limiter A (GlobalFanoutByteRate lims) (GlobalFanoutByteBurst lims),
        s_open_rooms = 0, s_active_sessions = 0\<rparr>)"

section \<open>Deadlines\<close>

definition deadline_after :: "duration \<Rightarrow> duration \<Rightarrow> duration option" where
  "deadline_after now ttl =
     (if ttl \<le> 0 \<or> now > i64 (max_int64 - ttl) then None else Some (i64 (now + ttl)))"

definition saturating_add :: "duration \<Rightarrow> duration \<Rightarrow> duration" where
  "saturating_add deadline delta =
     (if deadline > i64 (max_int64 - delta) then max_int64 else i64 (deadline + delta))"

text \<open>
  \<open>projectWireExpiryUnixMS\<close>: the wall-clock time of a monotonic deadline, in milliseconds, rounded
  up. \<open>Nanosecond()\<close> is the nanosecond within the second.
\<close>

definition project_wire_expiry_unix_ms :: "clock_reading \<Rightarrow> duration \<Rightarrow> int" where
  "project_wire_expiry_unix_ms reading deadline =
     (let expiry = wall reading + i64 (deadline - mono reading);
          milliseconds = expiry div 1000000
      in if (expiry mod 1000000000) mod 1000000 \<noteq> 0 then milliseconds + 1 else milliseconds)"

section \<open>One grant\<close>

definition update_grant :: "gref \<Rightarrow> ('l grant_record \<Rightarrow> 'l grant_record) \<Rightarrow> 'l store \<Rightarrow> 'l store" where
  "update_grant g f st = st\<lparr>s_heap := (s_heap st)(g := f (s_heap st g))\<rparr>"

definition grant_live :: "'l grant_record \<Rightarrow> bool" where
  "grant_live grant \<longleftrightarrow> g_state grant = GrantStateIssued \<or> g_state grant = GrantStateBound"

definition grant_state_at :: "'l grant_record \<Rightarrow> duration \<Rightarrow> grant_state" where
  "grant_state_at grant now =
     (if grant_live grant \<and> now \<ge> g_mono_deadline grant then GrantStateExpired
      else if g_state grant = GrantStateBound \<and> g_binding grant \<noteq> None \<and>
              now \<ge> b_deadline (the (g_binding grant)) then GrantStateIssued
      else g_state grant)"

definition clear_pending :: "gref \<Rightarrow> 'l store \<Rightarrow> 'l store" where
  "clear_pending g st = (case g_pending (s_heap st g) of
     None \<Rightarrow> st
   | Some pending \<Rightarrow>
       update_grant g (\<lambda>gr. gr\<lparr>g_pending := None,
           g_binding_state := (if g_binding gr \<noteq> None then BindingStateBound else g_binding_state gr)\<rparr>)
         (st\<lparr>s_candidates_by_id := (s_candidates_by_id st)(c_candidate_id pending := None)\<rparr>))"

definition clear_recent :: "gref \<Rightarrow> 'l store \<Rightarrow> 'l store" where
  "clear_recent g st = (case g_recent (s_heap st g) of
     None \<Rightarrow> st
   | Some recent \<Rightarrow>
       update_grant g (\<lambda>gr. gr\<lparr>g_recent := None\<rparr>)
         (st\<lparr>s_candidates_by_id := (s_candidates_by_id st)(h_candidate_id recent := None)\<rparr>))"

definition clear_binding :: "gref \<Rightarrow> 'l store \<Rightarrow> 'l store" where
  "clear_binding g st = (case g_binding (s_heap st g) of
     None \<Rightarrow> st
   | Some binding \<Rightarrow>
       (let st1 = (case g_recent (s_heap st g) of
              Some recent \<Rightarrow> if h_generation recent = b_generation binding then clear_recent g st else st
            | None \<Rightarrow> st)
        in update_grant g (\<lambda>gr. (let gr' = gr\<lparr>g_binding := None\<rparr> in
               if grant_live gr'
               then gr'\<lparr>g_state := GrantStateIssued, g_binding_state := BindingStateExpired\<rparr> else gr'))
             (st1\<lparr>s_bindings_by_id := (s_bindings_by_id st1)(b_id binding := None)\<rparr>)))"

definition clear_relay :: "gref \<Rightarrow> 'l store \<Rightarrow> 'l store" where
  "clear_relay g st =
     update_grant g (\<lambda>gr. gr\<lparr>g_generation := 0\<rparr>)
       (clear_binding g (clear_recent g (clear_pending g st)))"

definition expire_relay :: "gref \<Rightarrow> duration \<Rightarrow> 'l store \<Rightarrow> 'l store" where
  "expire_relay g now st =
     (let st1 = (case g_pending (s_heap st g) of
            Some p \<Rightarrow> if now \<ge> c_deadline p then clear_pending g st else st | None \<Rightarrow> st);
          st2 = (case g_recent (s_heap st1 g) of
            Some r \<Rightarrow> if now \<ge> h_deadline r then clear_recent g st1 else st1 | None \<Rightarrow> st1)
      in (case g_binding (s_heap st2 g) of
            Some b \<Rightarrow> if now \<ge> b_deadline b then clear_binding g st2 else st2 | None \<Rightarrow> st2))"

definition terminal_grant :: "gref \<Rightarrow> grant_state \<Rightarrow> 'l store \<Rightarrow> 'l store" where
  "terminal_grant g terminal_state st =
     (let st1 = update_grant g (\<lambda>gr. gr\<lparr>g_ingress_packets := None, g_ingress_bytes := None\<rparr>) (clear_relay g st);
          st2 = (if grant_live (s_heap st1 g)
            then update_grant g (\<lambda>gr. gr\<lparr>g_state := terminal_state,
                   g_binding_state := (if terminal_state = GrantStateRevoked then BindingStateRevoked
                                       else BindingStateExpired)\<rparr>)
                   (st1\<lparr>s_active_sessions := s_active_sessions st1 - 1\<rparr>)
            else st1);
          st3 = st2\<lparr>s_grants_by_id := (s_grants_by_id st2)(g_id (s_heap st2 g) := None)\<rparr>
      in update_grant g (\<lambda>gr. gr\<lparr>g_secret := None\<rparr>) st3)"

section \<open>One room\<close>

definition tombstone_record :: "duration \<Rightarrow> 'l room_record" where
  "tombstone_record deadline = \<lparr>r_state = roomStateTombstone, r_capacity = 0, r_created_at = zero_time,
     r_expires_at = zero_time, r_mono_deadline = 0, r_grants = [], r_tombstone_deadline = deadline,
     r_ingress_packets = None, r_ingress_bytes = None, r_fanout_writes = None, r_fanout_bytes = None\<rparr>"

text \<open>\<open>tombstoneRoom\<close>; the room is the one the map holds under its identifier.\<close>

definition tombstone_room :: "string \<Rightarrow> duration \<Rightarrow> grant_state \<Rightarrow> 'l store \<Rightarrow> 'l store" where
  "tombstone_room room_id now terminal_state st = (case fmlookup (s_rooms st) room_id of
     None \<Rightarrow> st
   | Some room \<Rightarrow>
       (if r_state room = roomStateTombstone then st
        else (let st1 = (if r_state room = roomStateOpen
                then st\<lparr>s_open_rooms := s_open_rooms st - 1\<rparr> else st);
                  st2 = fold (\<lambda>g. terminal_grant g terminal_state) (r_grants room) st1
          in st2\<lparr>s_rooms := fmupd room_id
                  (tombstone_record (saturating_add now (TombstoneTTL (s_limits st2)))) (s_rooms st2)\<rparr>)))"

definition last_grant_deadline :: "(gref \<Rightarrow> 'l grant_record) \<Rightarrow> 'l room_record \<Rightarrow> duration" where
  "last_grant_deadline heap room = (case r_grants room of
     [] \<Rightarrow> 0
   | g # gs \<Rightarrow> fold (\<lambda>g' d. if g_mono_deadline (heap g') > d then g_mono_deadline (heap g') else d)
                gs (g_mono_deadline (heap g)))"

definition room_access_terminal :: "(gref \<Rightarrow> 'l grant_record) \<Rightarrow> 'l room_record \<Rightarrow> duration \<Rightarrow> bool" where
  "room_access_terminal heap room now \<longleftrightarrow>
     r_state room \<noteq> roomStateOpen \<or> now \<ge> r_mono_deadline room \<or> now \<ge> last_grant_deadline heap room"

text \<open>\<open>liveAuthority\<close>: the room of a grant that still has authority, or the reason it has none.\<close>

definition live_authority :: "gref \<Rightarrow> duration \<Rightarrow> 'l store \<Rightarrow> 'l store \<times> (reject_reason + 'l room_record)" where
  "live_authority g now st =
     (let grant = s_heap st g in
      if g_state grant = GrantStateRevoked then (st, Inl RejectRevoked)
      else if g_state grant = GrantStateExpired then (st, Inl RejectExpired)
      else (case fmlookup (s_rooms st) (g_room_id grant) of
          None \<Rightarrow> (st, Inl RejectRevoked)
        | Some room \<Rightarrow>
            if r_state room = roomStateTombstone then (st, Inl RejectRevoked)
            else if now \<ge> r_mono_deadline room
            then (tombstone_room (g_room_id grant) now GrantStateExpired st, Inl RejectExpired)
            else if now \<ge> g_mono_deadline grant
            then (terminal_grant g GrantStateExpired st, Inl RejectExpired)
            else (st, Inr room)))"

section \<open>Drawing unused identifiers\<close>

text \<open>
  \<open>uniqueGrantID\<close>, \<open>uniqueCandidateID\<close> and \<open>uniqueBindingID\<close> are the same loop over different
  indexes: at most nine draws of 16 bytes, the first one not in use.
\<close>

fun unique_id :: "nat \<Rightarrow> (bytes16 \<Rightarrow> bool) \<Rightarrow> byte list \<Rightarrow> bytes16 option \<times> byte list" where
  "unique_id 0 taken src = (None, src)"
| "unique_id (Suc n) taken src = (case read_full 16 src of
     (None, src') \<Rightarrow> (None, src')
   | (Some b, src') \<Rightarrow> if taken b then unique_id n taken src' else (Some b, src'))"

definition unique_grant_id :: "'l store \<Rightarrow> bytes16 list \<Rightarrow> byte list \<Rightarrow> bytes16 option \<times> byte list" where
  "unique_grant_id st staged = unique_id 9 (\<lambda>b. s_grants_by_id st b \<noteq> None \<or> b \<in> set staged)"

definition unique_candidate_id :: "'l store \<Rightarrow> byte list \<Rightarrow> bytes16 option \<times> byte list" where
  "unique_candidate_id st = unique_id 9 (\<lambda>b. s_candidates_by_id st b \<noteq> None)"

definition unique_binding_id :: "'l store \<Rightarrow> byte list \<Rightarrow> bytes16 option \<times> byte list" where
  "unique_binding_id st = unique_id 9 (\<lambda>b. s_bindings_by_id st b \<noteq> None)"

section \<open>Arithmetic of deadlines\<close>

lemma deadline_after_Some_iff [go_arith]:
  assumes "in_i64 now" and "in_i64 ttl"
  shows "deadline_after now ttl = Some d \<longleftrightarrow> 0 < ttl \<and> now + ttl \<le> max_int64 \<and> d = now + ttl"
proof (cases "0 < ttl")
  case True
  then have "i64 (max_int64 - ttl) = max_int64 - ttl"
    using assms(2) by (intro i64_id) (simp add: in_i64_def)
  moreover have "i64 (now + ttl) = now + ttl" if "now + ttl \<le> max_int64"
    using that True assms(1) by (intro i64_id) (simp add: in_i64_def)
  ultimately show ?thesis using True by (auto simp: deadline_after_def)
qed (simp add: deadline_after_def)

lemma saturating_add_eq [go_arith]:
  assumes "in_i64 deadline" and "0 \<le> delta" and "in_i64 delta"
  shows "saturating_add deadline delta = min max_int64 (deadline + delta)"
proof -
  have "i64 (max_int64 - delta) = max_int64 - delta"
    using assms by (intro i64_id) (simp add: in_i64_def)
  moreover have "i64 (deadline + delta) = deadline + delta" if "deadline \<le> max_int64 - delta"
    using that assms by (intro i64_id) (simp add: in_i64_def)
  ultimately show ?thesis by (simp add: saturating_add_def min_def)
qed

text \<open>Deadline arithmetic never wraps: for 64-bit durations, \<open>deadlineAfter\<close> yields exactly
  \<open>now + ttl\<close> when the ttl is positive and the sum fits, and nothing otherwise; \<open>saturatingAdd\<close> of
  a non-negative delta is the exact sum capped at the largest duration. Both stay in range, and
  neither yields a deadline before \<open>now\<close>.\<close>

lemma deadlines_never_wrap:
  assumes "in_i64 now" and "in_i64 ttl" and "0 \<le> ttl"
  shows "deadline_after now ttl = (if 0 < ttl \<and> now + ttl \<le> max_int64 then Some (now + ttl) else None) \<and>
    saturating_add now ttl = min max_int64 (now + ttl) \<and>
    in_i64 (saturating_add now ttl) \<and> now \<le> saturating_add now ttl"
proof (intro conjI)
  show "deadline_after now ttl = (if 0 < ttl \<and> now + ttl \<le> max_int64 then Some (now + ttl) else None)"
    using deadline_after_Some_iff [OF assms(1,2)]
    by (cases "deadline_after now ttl") (auto split: if_splits)
  show sum: "saturating_add now ttl = min max_int64 (now + ttl)"
    by (rule saturating_add_eq [OF assms(1,3,2)])
  show "in_i64 (saturating_add now ttl)"
    unfolding sum using assms(1,3) by (simp add: in_i64_def min_def)
  show "now \<le> saturating_add now ttl"
    unfolding sum using assms(1,3) by (simp add: in_i64_def)
qed

lemma deadlines_never_wrap_witness:
  "saturating_add (max_int64 - 1) second = max_int64 \<and> deadline_after (max_int64 - 1) second = None"
  using deadlines_never_wrap [of "max_int64 - 1" second] by (simp add: in_i64_def)

lemma div_round_up:
  fixes e k :: int
  assumes "0 < k"
  shows "e \<le> (if e mod k \<noteq> 0 then e div k + 1 else e div k) * k"
    and "(if e mod k \<noteq> 0 then e div k + 1 else e div k) * k < e + k"
proof -
  define q r where "q = e div k" and "r = e mod k"
  have e: "e = q * k + r" and r: "0 \<le> r" "r < k" using assms by (simp_all add: q_def r_def)
  have up: "(q + 1) * k = q * k + k" by (simp add: distrib_right)
  show "e \<le> (if e mod k \<noteq> 0 then e div k + 1 else e div k) * k"
    using e r up unfolding q_def [symmetric] r_def [symmetric] by (cases "r = 0") auto
  show "(if e mod k \<noteq> 0 then e div k + 1 else e div k) * k < e + k"
    using e r up assms unfolding q_def [symmetric] r_def [symmetric] by (cases "r = 0") auto
qed

text \<open>The expiry sent to a client is the true wall-clock deadline rounded up to the next
  millisecond: never before the deadline the server enforces, and less than one millisecond after
  it.\<close>

lemma wire_expiry_rounds_up:
  assumes "in_i64 (deadline - mono reading)"
  shows "let expiry = wall reading + (deadline - mono reading);
             ms = project_wire_expiry_unix_ms reading deadline
         in expiry \<le> ms * 1000000 \<and> ms * 1000000 < expiry + 1000000"
proof -
  define expiry where "expiry = wall reading + (deadline - mono reading)"
  have "i64 (deadline - mono reading) = deadline - mono reading" using assms by (rule i64_id)
  moreover have "(expiry mod 1000000000) mod 1000000 = expiry mod 1000000"
    by (simp add: mod_mod_cancel)
  ultimately have "project_wire_expiry_unix_ms reading deadline =
      (if expiry mod 1000000 \<noteq> 0 then expiry div 1000000 + 1 else expiry div 1000000)"
    by (simp add: project_wire_expiry_unix_ms_def expiry_def Let_def)
  then show ?thesis
    using div_round_up [of 1000000 expiry] unfolding Let_def expiry_def [symmetric] by simp
qed

lemma wire_expiry_rounds_up_witness:
  "project_wire_expiry_unix_ms \<lparr>wall = 5000000, mono = 100\<rparr> 101 = 6"
  using wire_expiry_rounds_up [of 101 "\<lparr>wall = 5000000, mono = 100\<rparr>"]
  by (simp add: in_i64_def Let_def)

end
