(* ===== verification/Store_Inv.thy ===== *)
theory Store_Inv
  imports Store_State
begin

text \<open>
  The invariant of the store, and its preservation by the operations on one grant and one room.

  \<^item> Each grant: a live grant has its secret and its limiters, a dead one has lost its secret, its
    challenge, its handshake and its binding; it is bound exactly when it has a binding; a completed
    handshake never outlives the binding it produced; no deadline exceeds the grant's own.
  \<^item> The indexes: a candidate or binding identifier is indexed exactly for the grant of a resident
    room that holds it, an indexed grant identifier belongs to a live grant of a resident room.
  \<^item> The rooms: a tombstone holds nothing; any other room holds its grants, which belong to it
    alone, and in a room in its empty grace no grant is live.
  \<^item> The counters are the number of live grants and of open rooms.
\<close>

section \<open>The invariant\<close>

definition owned :: "'l store \<Rightarrow> gref set" where
  "owned st = {g. \<exists>rid R. fmlookup (s_rooms st) rid = Some R \<and> g \<in> set (r_grants R)}"

definition cands_of :: "'l grant_record \<Rightarrow> bytes16 set" where
  "cands_of gr = c_candidate_id ` set_option (g_pending gr) \<union> h_candidate_id ` set_option (g_recent gr)"

definition binds_of :: "'l grant_record \<Rightarrow> bytes16 set" where
  "binds_of gr = b_id ` set_option (g_binding gr)"

fun binding_state_ok :: "'l grant_record \<Rightarrow> bool" where
  "binding_state_ok gr = (case g_state gr of
     GrantStateIssued \<Rightarrow> g_binding_state gr \<in> {BindingStateUnbound, BindingStateExpired}
   | GrantStateBound \<Rightarrow> g_binding_state gr =
       (if g_pending gr = None then BindingStateBound else BindingStateRebindPending)
   | GrantStateExpired \<Rightarrow> g_binding_state gr = BindingStateExpired
   | GrantStateRevoked \<Rightarrow> g_binding_state gr = BindingStateRevoked)"

definition pending_ok :: "'l grant_record \<Rightarrow> challenge_record \<Rightarrow> bool" where
  "pending_ok gr p \<longleftrightarrow> c_deadline p \<le> g_mono_deadline gr \<and> length (c_candidate_id p) = 16 \<and>
     length (c_server_nonce p) = 32 \<and> cr_candidate_id (c_result p) = c_candidate_id p \<and>
     cr_server_nonce (c_result p) = c_server_nonce p"

definition recent_ok :: "'l grant_record \<Rightarrow> completed_handshake \<Rightarrow> bool" where
  "recent_ok gr h \<longleftrightarrow> (\<exists>b. g_binding gr = Some b \<and> h_generation h = b_generation b \<and>
     br_binding_id (h_result h) = b_id b \<and> h_deadline h \<le> b_deadline b \<and>
     h_endpoint h = b_endpoint b \<and> h_candidate_id h \<notin> c_candidate_id ` set_option (g_pending gr))"

definition binding_ok :: "'l grant_record \<Rightarrow> binding_record \<Rightarrow> bool" where
  "binding_ok gr b \<longleftrightarrow> b_deadline b \<le> g_mono_deadline gr \<and> b_generation b = g_generation gr \<and>
     length (b_id b) = 16"

definition grant_ok :: "'l grant_record \<Rightarrow> bool" where
  "grant_ok gr \<longleftrightarrow>
     (if grant_live gr
      then g_secret gr \<noteq> None \<and> g_ingress_packets gr \<noteq> None \<and> g_ingress_bytes gr \<noteq> None
      else g_secret gr = None \<and> g_pending gr = None \<and> g_recent gr = None \<and> g_binding gr = None) \<and>
     (g_state gr = GrantStateBound \<longleftrightarrow> g_binding gr \<noteq> None) \<and> binding_state_ok gr \<and>
     (\<forall>p. g_pending gr = Some p \<longrightarrow> pending_ok gr p) \<and>
     (\<forall>h. g_recent gr = Some h \<longrightarrow> recent_ok gr h) \<and>
     (\<forall>b. g_binding gr = Some b \<longrightarrow> binding_ok gr b)"

definition room_ok :: "'l room_record \<Rightarrow> bool" where
  "room_ok R \<longleftrightarrow>
     (if r_state R = roomStateTombstone then r_grants R = []
      else r_grants R \<noteq> [] \<and> distinct (r_grants R) \<and> length (r_grants R) = unat (r_capacity R) \<and>
        r_ingress_packets R \<noteq> None \<and> r_ingress_bytes R \<noteq> None \<and>
        r_fanout_writes R \<noteq> None \<and> r_fanout_bytes R \<noteq> None)"

definition room_grant_ok :: "'l store \<Rightarrow> string \<Rightarrow> 'l room_record \<Rightarrow> gref \<Rightarrow> bool" where
  "room_grant_ok st rid R g \<longleftrightarrow> g < s_next st \<and> g_room_id (s_heap st g) = rid \<and>
     g_mono_deadline (s_heap st g) \<le> r_mono_deadline R \<and>
     (r_state R = roomStateEmpty \<longrightarrow> \<not> grant_live (s_heap st g))"

definition rooms_inv :: "'l store \<Rightarrow> bool" where
  "rooms_inv st \<longleftrightarrow> (\<forall>rid R. fmlookup (s_rooms st) rid = Some R \<longrightarrow>
     room_ok R \<and> (\<forall>g \<in> set (r_grants R). room_grant_ok st rid R g))"

definition index_inv :: "'l store \<Rightarrow> bool" where
  "index_inv st \<longleftrightarrow>
     (\<forall>c g. s_candidates_by_id st c = Some g \<longleftrightarrow> g \<in> owned st \<and> c \<in> cands_of (s_heap st g)) \<and>
     (\<forall>b g. s_bindings_by_id st b = Some g \<longleftrightarrow> g \<in> owned st \<and> b \<in> binds_of (s_heap st g)) \<and>
     (\<forall>i g. s_grants_by_id st i = Some g \<longrightarrow>
        g \<in> owned st \<and> grant_live (s_heap st g) \<and> g_id (s_heap st g) = i)"

definition live_grants :: "'l store \<Rightarrow> gref set" where
  "live_grants st = {g \<in> owned st. grant_live (s_heap st g)}"

definition open_room_ids :: "'l store \<Rightarrow> string set" where
  "open_room_ids st = {rid. \<exists>R. fmlookup (s_rooms st) rid = Some R \<and> r_state R = roomStateOpen}"

definition core_inv :: "'l store \<Rightarrow> bool" where
  "core_inv st \<longleftrightarrow> rooms_inv st \<and> (\<forall>g \<in> owned st. grant_ok (s_heap st g)) \<and> index_inv st \<and>
     s_active_sessions st = int (card (live_grants st))"

definition store_inv :: "'l store \<Rightarrow> bool" where
  "store_inv st \<longleftrightarrow> core_inv st \<and> valid_limits (s_limits st) \<and>
     s_open_rooms st = int (card (open_room_ids st)) \<and>
     s_open_rooms st \<le> MaxOpenRooms (s_limits st) \<and>
     len_map (s_rooms st) \<le> MaxRoomRecords (s_limits st) \<and>
     s_active_sessions st \<le> MaxActiveSessions (s_limits st) \<and>
     len_map (s_preauth_sources st) \<le> HardMaxPreauthSources"

section \<open>Finiteness\<close>

lemma finite_owned [simp]: "finite (owned st)"
proof -
  have "owned st = (\<Union>rid \<in> fmdom' (s_rooms st). set (r_grants (the (fmlookup (s_rooms st) rid))))"
    by (force simp: owned_def fmlookup_dom'_iff)
  then show ?thesis by simp
qed

lemma finite_live [simp]: "finite (live_grants st)"
  by (simp add: live_grants_def)

lemma finite_open [simp]: "finite (open_room_ids st)"
  by (rule finite_subset [of _ "fmdom' (s_rooms st)"]) (auto simp: open_room_ids_def fmlookup_dom'_iff)

lemma ownedI: "fmlookup (s_rooms st) rid = Some R \<Longrightarrow> g \<in> set (r_grants R) \<Longrightarrow> g \<in> owned st"
  by (auto simp: owned_def)

lemma owned_same_grants:
  assumes R: "fmlookup (s_rooms st) rid = Some R" and R': "s_rooms st' = fmupd rid R' (s_rooms st)"
    and same: "r_grants R' = r_grants R"
  shows "owned st' = owned st"
proof (intro set_eqI iffI)
  fix g assume "g \<in> owned st'"
  then obtain r Q where Q: "fmlookup (s_rooms st') r = Some Q" "g \<in> set (r_grants Q)" by (auto simp: owned_def)
  show "g \<in> owned st"
  proof (cases "r = rid")
    case True
    with Q R' same show ?thesis by (intro ownedI [OF R]) simp
  next
    case False
    with Q R' show ?thesis by (intro ownedI [of st r Q]) simp_all
  qed
next
  fix g assume "g \<in> owned st"
  then obtain r Q where Q: "fmlookup (s_rooms st) r = Some Q" "g \<in> set (r_grants Q)" by (auto simp: owned_def)
  show "g \<in> owned st'"
  proof (cases "r = rid")
    case True
    with Q R R' same show ?thesis by (intro ownedI [of st' rid R']) simp_all
  next
    case False
    with Q R' show ?thesis by (intro ownedI [of st' r Q]) simp_all
  qed
qed

text \<open>The room of an owned grant is the one under the grant's room identifier.\<close>

lemma owned_room:
  assumes "rooms_inv st" and "g \<in> owned st"
  obtains R where "fmlookup (s_rooms st) (g_room_id (s_heap st g)) = Some R" "g \<in> set (r_grants R)"
    "room_ok R" "room_grant_ok st (g_room_id (s_heap st g)) R g" "r_state R \<noteq> roomStateTombstone"
proof -
  from assms(2) obtain rid R where R: "fmlookup (s_rooms st) rid = Some R" "g \<in> set (r_grants R)"
    by (auto simp: owned_def)
  with assms(1) have ok: "room_ok R" "room_grant_ok st rid R g" by (auto simp: rooms_inv_def)
  then have "g_room_id (s_heap st g) = rid" by (simp add: room_grant_ok_def)
  moreover have "r_state R \<noteq> roomStateTombstone" using ok(1) R(2) by (auto simp: room_ok_def)
  ultimately show ?thesis using that [of R] R ok by simp
qed

text \<open>The three readings of the index invariant.\<close>

lemma index_invD:
  assumes "index_inv st"
  shows "s_candidates_by_id st c = Some g \<longleftrightarrow> g \<in> owned st \<and> c \<in> cands_of (s_heap st g)"
    and "s_bindings_by_id st b = Some g \<longleftrightarrow> g \<in> owned st \<and> b \<in> binds_of (s_heap st g)"
    and "s_grants_by_id st i = Some g \<Longrightarrow> g \<in> owned st \<and> grant_live (s_heap st g) \<and> g_id (s_heap st g) = i"
  using assms by (simp_all add: index_inv_def)

section \<open>A change local to one grant\<close>

definition same_identity :: "'l grant_record \<Rightarrow> 'l grant_record \<Rightarrow> bool" where
  "same_identity a b \<longleftrightarrow> g_room_id a = g_room_id b \<and> g_participant_id a = g_participant_id b \<and>
     g_session_id a = g_session_id b \<and> g_id a = g_id b \<and> g_expires_at a = g_expires_at b \<and>
     g_mono_deadline a = g_mono_deadline b"

lemma same_identity_refl [simp]: "same_identity a a"
  by (simp add: same_identity_def)

lemma same_identity_trans: "same_identity a b \<Longrightarrow> same_identity b c \<Longrightarrow> same_identity a c"
  by (simp add: same_identity_def)

text \<open>
  \<open>grant_local g st st'\<close>: \<open>st'\<close> differs from \<open>st\<close> only in the grant \<open>g\<close> (whose identity is kept
  and which is not revived), in the indexes and in the session counter.
\<close>

definition grant_local :: "gref \<Rightarrow> 'l store \<Rightarrow> 'l store \<Rightarrow> bool" where
  "grant_local g st st' \<longleftrightarrow> (\<exists>gr gi ci bi n.
     st' = st\<lparr>s_heap := (s_heap st)(g := gr), s_grants_by_id := gi, s_candidates_by_id := ci,
       s_bindings_by_id := bi, s_active_sessions := n\<rparr> \<and>
     same_identity (s_heap st g) gr \<and> (grant_live gr \<longrightarrow> grant_live (s_heap st g)))"

lemma grant_local_refl [simp]: "grant_local g st st"
  unfolding grant_local_def
  by (rule exI [of _ "s_heap st g"], rule exI [of _ "s_grants_by_id st"],
      rule exI [of _ "s_candidates_by_id st"], rule exI [of _ "s_bindings_by_id st"],
      rule exI [of _ "s_active_sessions st"]) simp

lemma grant_local_trans [trans]:
  assumes "grant_local g st st1" and "grant_local g st1 st2"
  shows "grant_local g st st2"
  using assms same_identity_trans unfolding grant_local_def by (clarsimp, blast)

lemma grant_local_fields:
  assumes "grant_local g st st'"
  shows "s_rooms st' = s_rooms st" "s_next st' = s_next st" "s_limits st' = s_limits st"
    "s_open_rooms st' = s_open_rooms st" "s_preauth_sources st' = s_preauth_sources st"
    "s_self st' = s_self st" "s_random st' = s_random st"
    "x \<noteq> g \<Longrightarrow> s_heap st' x = s_heap st x"
    "same_identity (s_heap st g) (s_heap st' g)"
    "grant_live (s_heap st' g) \<Longrightarrow> grant_live (s_heap st g)"
  using assms by (auto simp: grant_local_def)

lemma grant_local_owned: "grant_local g st st' \<Longrightarrow> owned st' = owned st"
  by (simp add: owned_def grant_local_fields)

lemma grant_local_identity: "grant_local g st st' \<Longrightarrow> same_identity (s_heap st x) (s_heap st' x)"
  by (cases "x = g") (auto simp: grant_local_fields)

lemma grant_local_live: "grant_local g st st' \<Longrightarrow> grant_live (s_heap st' x) \<Longrightarrow> grant_live (s_heap st x)"
  by (cases "x = g") (auto simp: grant_local_fields)

lemma grant_local_rooms_inv:
  assumes "grant_local g st st'" and "rooms_inv st"
  shows "rooms_inv st'"
  unfolding rooms_inv_def
proof (intro allI impI)
  fix rid R assume "fmlookup (s_rooms st') rid = Some R"
  then have "room_ok R" and ok: "\<forall>x \<in> set (r_grants R). room_grant_ok st rid R x"
    using assms by (auto simp: rooms_inv_def grant_local_fields)
  moreover have "room_grant_ok st' rid R x" if "room_grant_ok st rid R x" for x
    using that grant_local_identity [OF assms(1), of x] grant_local_live [OF assms(1), of x]
    by (auto simp: room_grant_ok_def same_identity_def grant_local_fields [OF assms(1)])
  ultimately show "room_ok R \<and> (\<forall>g \<in> set (r_grants R). room_grant_ok st' rid R g)" by blast
qed

text \<open>
  The lemma that carries every operation on one grant: the new grant is well formed, the indexes
  changed exactly by its identifiers, and the counter by its life.
\<close>

lemma grant_local_core_inv:
  assumes loc: "grant_local g st st'" and inv: "core_inv st" and own: "g \<in> owned st"
    and ok: "grant_ok (s_heap st' g)"
    and cands: "\<And>c x. s_candidates_by_id st' c = Some x \<longleftrightarrow>
        (if x = g then c \<in> cands_of (s_heap st' g) else s_candidates_by_id st c = Some x)"
    and binds: "\<And>b x. s_bindings_by_id st' b = Some x \<longleftrightarrow>
        (if x = g then b \<in> binds_of (s_heap st' g) else s_bindings_by_id st b = Some x)"
    and grants: "\<And>i x. s_grants_by_id st' i = Some x \<Longrightarrow>
        s_grants_by_id st i = Some x \<and> (x = g \<longrightarrow> grant_live (s_heap st' g))"
    and active: "s_active_sessions st' = s_active_sessions st -
        (if grant_live (s_heap st g) \<and> \<not> grant_live (s_heap st' g) then 1 else 0)"
  shows "core_inv st'"
proof -
  note f = grant_local_fields [OF loc] grant_local_owned [OF loc]
  have idx: "index_inv st" and rooms: "rooms_inv st"
    and oks: "\<forall>x \<in> owned st. grant_ok (s_heap st x)"
    and cnt: "s_active_sessions st = int (card (live_grants st))"
    using inv by (simp_all add: core_inv_def)
  note old = index_invD [OF idx]
  have "rooms_inv st'" using loc rooms by (rule grant_local_rooms_inv)
  moreover have "grant_ok (s_heap st' x)" if "x \<in> owned st'" for x
    using oks ok that f by (cases "x = g") simp_all
  moreover have "index_inv st'"
    unfolding index_inv_def
  proof (intro conjI allI impI)
    fix c x
    show "s_candidates_by_id st' c = Some x \<longleftrightarrow> x \<in> owned st' \<and> c \<in> cands_of (s_heap st' x)"
      using own by (cases "x = g") (simp_all add: cands f old)
    show "s_bindings_by_id st' c = Some x \<longleftrightarrow> x \<in> owned st' \<and> c \<in> binds_of (s_heap st' x)"
      using own by (cases "x = g") (simp_all add: binds f old)
  next
    fix i x assume ix: "s_grants_by_id st' i = Some x"
    note was = old(3) [of i x] grants [OF ix]
    show "x \<in> owned st'" using was by (simp add: f)
    show "grant_live (s_heap st' x)" using was f(8) by (cases "x = g") simp_all
    show "g_id (s_heap st' x) = i"
      using grant_local_identity [OF loc, of x] was by (simp add: same_identity_def)
  qed
  moreover have "s_active_sessions st' = int (card (live_grants st'))"
  proof -
    have live: "live_grants st' = (if grant_live (s_heap st' g) then live_grants st else live_grants st - {g})"
      using own f(8) f(10) by (auto simp: live_grants_def f(11)) (metis f(8))+
    have "g \<in> live_grants st \<longleftrightarrow> grant_live (s_heap st g)" using own by (simp add: live_grants_def)
    moreover have "int (card (live_grants st - {g})) = int (card (live_grants st)) - 1"
      if "g \<in> live_grants st"
      using that card_Suc_Diff1 [of "live_grants st" g] by simp
    ultimately show ?thesis using active cnt f(10) by (auto simp: live)
  qed
  ultimately show ?thesis by (simp add: core_inv_def)
qed

section \<open>The operations on one grant\<close>

lemma grant_localI:
  assumes "s_self st' = s_self st" "s_limits st' = s_limits st" "s_random st' = s_random st"
    "s_next st' = s_next st" "s_rooms st' = s_rooms st" "s_preauth_sources st' = s_preauth_sources st"
    "s_preauth_global_packets st' = s_preauth_global_packets st"
    "s_preauth_global_bytes st' = s_preauth_global_bytes st"
    "s_auth_global_packets st' = s_auth_global_packets st"
    "s_auth_global_bytes st' = s_auth_global_bytes st"
    "s_global_fanout_writes st' = s_global_fanout_writes st"
    "s_global_fanout_bytes st' = s_global_fanout_bytes st"
    "s_open_rooms st' = s_open_rooms st"
    and heap: "\<And>x. x \<noteq> g \<Longrightarrow> s_heap st' x = s_heap st x"
    and "same_identity (s_heap st g) (s_heap st' g)"
    and "grant_live (s_heap st' g) \<Longrightarrow> grant_live (s_heap st g)"
  shows "grant_local g st st'"
proof -
  have "s_heap st' = (s_heap st)(g := s_heap st' g)" using heap by (auto simp: fun_eq_iff)
  then have "st' = st\<lparr>s_heap := (s_heap st)(g := s_heap st' g), s_grants_by_id := s_grants_by_id st',
      s_candidates_by_id := s_candidates_by_id st', s_bindings_by_id := s_bindings_by_id st',
      s_active_sessions := s_active_sessions st'\<rparr>"
    using assms(1-13) by (cases st; cases st') simp
  with assms(15,16) show ?thesis unfolding grant_local_def by blast
qed

lemmas grant_op_defs = update_grant_def same_identity_def grant_live_def

lemmas grant_ok_defs = grant_ok_def pending_ok_def recent_ok_def binding_ok_def

lemma owned_grant_ok: "core_inv st \<Longrightarrow> g \<in> owned st \<Longrightarrow> grant_ok (s_heap st g)"
  by (simp add: core_inv_def)

lemma core_index: "core_inv st \<Longrightarrow> index_inv st"
  by (simp add: core_inv_def)

lemma cands_of_simps:
  "c \<in> cands_of gr \<longleftrightarrow> (\<exists>p. g_pending gr = Some p \<and> c = c_candidate_id p) \<or>
     (\<exists>h. g_recent gr = Some h \<and> c = h_candidate_id h)"
  "b \<in> binds_of gr \<longleftrightarrow> (\<exists>br. g_binding gr = Some br \<and> b = b_id br)"
  by (auto simp: cands_of_def binds_of_def)

lemma clear_pending_local: "grant_local g st (clear_pending g st)"
  by (rule grant_localI) (auto simp: clear_pending_def grant_op_defs split: option.splits)

lemma clear_recent_local: "grant_local g st (clear_recent g st)"
  by (rule grant_localI) (auto simp: clear_recent_def grant_op_defs split: option.splits)

lemma update_grant_local:
  assumes "same_identity (s_heap st g) (f (s_heap st g))"
    and "grant_live (f (s_heap st g)) \<Longrightarrow> grant_live (s_heap st g)"
  shows "grant_local g st (update_grant g f st)"
  using assms by (intro grant_localI) (simp_all add: update_grant_def)

lemma clear_binding_local: "grant_local g st (clear_binding g st)"
proof (cases "g_binding (s_heap st g)")
  case (Some b)
  define st1 where "st1 = (case g_recent (s_heap st g) of
      Some recent \<Rightarrow> if h_generation recent = b_generation b then clear_recent g st else st | None \<Rightarrow> st)"
  have "grant_local g st st1"
    by (auto simp: st1_def clear_recent_local split: option.split)
  also have "grant_local g st1 (clear_binding g st)"
    by (rule grant_localI)
      (auto simp: clear_binding_def Some st1_def [symmetric] Let_def grant_op_defs split: if_splits)
  finally show ?thesis .
qed (simp add: clear_binding_def)

lemma clear_relay_local: "grant_local g st (clear_relay g st)"
proof -
  have "grant_local g st (clear_binding g (clear_recent g (clear_pending g st)))"
    by (rule grant_local_trans [OF grant_local_trans [OF clear_pending_local clear_recent_local] clear_binding_local])
  also have "grant_local g (clear_binding g (clear_recent g (clear_pending g st))) (clear_relay g st)"
    unfolding clear_relay_def by (rule update_grant_local) (simp_all add: grant_op_defs)
  finally show ?thesis .
qed

lemma terminal_grant_local:
  assumes "ts \<noteq> GrantStateIssued" and "ts \<noteq> GrantStateBound"
  shows "grant_local g st (terminal_grant g ts st)"
proof -
  have "grant_local g (clear_relay g st) (terminal_grant g ts st)"
    by (rule grant_localI) (use assms in \<open>auto simp: terminal_grant_def Let_def grant_op_defs split: if_splits\<close>)
  then show ?thesis using clear_relay_local grant_local_trans by blast
qed

lemma expire_relay_local: "grant_local g st (expire_relay g now st)"
proof -
  define st1 where "st1 = (case g_pending (s_heap st g) of
      Some p \<Rightarrow> if now \<ge> c_deadline p then clear_pending g st else st | None \<Rightarrow> st)"
  define st2 where "st2 = (case g_recent (s_heap st1 g) of
      Some r \<Rightarrow> if now \<ge> h_deadline r then clear_recent g st1 else st1 | None \<Rightarrow> st1)"
  have "grant_local g st st1" by (auto simp: st1_def clear_pending_local split: option.split)
  also have "grant_local g st1 st2" by (auto simp: st2_def clear_recent_local split: option.split)
  also have "grant_local g st2 (expire_relay g now st)"
    by (auto simp: expire_relay_def st1_def [symmetric] st2_def [symmetric] Let_def clear_binding_local
        split: option.split)
  finally show ?thesis .
qed

section \<open>They keep the invariant\<close>

text \<open>Removing one identifier from an index, and adding one.\<close>

lemma index_remove:
  assumes "m k = Some g" and "\<And>c. m c = Some g \<longleftrightarrow> c \<in> S"
  shows "(m(k := None)) c = Some x \<longleftrightarrow> (if x = g then c \<in> S - {k} else m c = Some x)"
  using assms(1) assms(2) [of c] by (cases "c = k") auto

lemma index_insert:
  assumes "m k = None" and "\<And>c. m c = Some g \<longleftrightarrow> c \<in> S"
  shows "(m(k \<mapsto> g)) c = Some x \<longleftrightarrow> (if x = g then c \<in> insert k S else m c = Some x)"
  using assms(1) assms(2) [of c] by (cases "c = k") auto

lemma cands_of_remove:
  assumes "grant_ok gr"
  shows "g_pending gr = Some p \<Longrightarrow> cands_of (gr\<lparr>g_pending := None, g_binding_state := x\<rparr>) = cands_of gr - {c_candidate_id p}"
    and "g_recent gr = Some h \<Longrightarrow> cands_of (gr\<lparr>g_recent := None\<rparr>) = cands_of gr - {h_candidate_id h}"
  using assms by (auto simp: cands_of_def grant_ok_def recent_ok_def)

text \<open>A grant without its challenge, or without its completed handshake, is still well formed.\<close>

lemma grant_ok_without_pending:
  assumes "grant_ok gr"
  shows "grant_ok (gr\<lparr>g_pending := None,
    g_binding_state := (if g_binding gr \<noteq> None then BindingStateBound else g_binding_state gr)\<rparr>)"
proof (cases "g_binding gr")
  case None
  with assms have "g_state gr \<noteq> GrantStateBound" "g_recent gr = None"
    by (auto simp: grant_ok_def recent_ok_def)
  with assms None show ?thesis
    by (cases "g_state gr") (simp_all add: grant_ok_def grant_live_def)
next
  case (Some b)
  with assms have "g_state gr = GrantStateBound" by (simp add: grant_ok_def)
  with assms Some show ?thesis
    by (cases "g_recent gr") (simp_all add: grant_ok_def grant_live_def recent_ok_def binding_ok_def)
qed

lemma grant_ok_without_recent:
  assumes "grant_ok gr"
  shows "grant_ok (gr\<lparr>g_recent := None\<rparr>)"
  using assms by (cases "g_state gr") (simp_all add: grant_ok_def grant_live_def pending_ok_def binding_ok_def)

lemma clear_pending_core_inv:
  assumes inv: "core_inv st" and own: "g \<in> owned st"
  shows "core_inv (clear_pending g st)"
proof (cases "g_pending (s_heap st g)")
  case None
  with inv show ?thesis by (simp add: clear_pending_def)
next
  case (Some p)
  note gr = owned_grant_ok [OF inv own] and idx = index_invD [OF core_index [OF inv]]
  have here: "s_candidates_by_id st (c_candidate_id p) = Some g"
    using own Some by (simp add: idx cands_of_simps)
  show ?thesis
  proof (rule grant_local_core_inv [OF clear_pending_local inv own])
    show "grant_ok (s_heap (clear_pending g st) g)"
      using grant_ok_without_pending [OF gr]
      by (cases "g_binding (s_heap st g)") (simp_all add: clear_pending_def update_grant_def Some)
    fix c x
    show "s_candidates_by_id (clear_pending g st) c = Some x \<longleftrightarrow>
        (if x = g then c \<in> cands_of (s_heap (clear_pending g st) g) else s_candidates_by_id st c = Some x)"
      using index_remove [of "s_candidates_by_id st" "c_candidate_id p" g "cands_of (s_heap st g)" c x, OF here] own
      by (simp add: clear_pending_def Some update_grant_def cands_of_remove [OF gr] idx)
    show "s_bindings_by_id (clear_pending g st) c = Some x \<longleftrightarrow>
        (if x = g then c \<in> binds_of (s_heap (clear_pending g st) g) else s_bindings_by_id st c = Some x)"
      using own idx(2) [of c g] Some by (auto simp: clear_pending_def update_grant_def cands_of_simps)
  next
    fix i x assume "s_grants_by_id (clear_pending g st) i = Some x"
    then show "s_grants_by_id st i = Some x \<and> (x = g \<longrightarrow> grant_live (s_heap (clear_pending g st) g))"
      using idx(3) [of i x] Some by (auto simp: clear_pending_def update_grant_def grant_live_def)
  qed (auto simp: clear_pending_def update_grant_def grant_live_def Some)
qed

lemma clear_recent_core_inv:
  assumes inv: "core_inv st" and own: "g \<in> owned st"
  shows "core_inv (clear_recent g st)"
proof (cases "g_recent (s_heap st g)")
  case None
  with inv show ?thesis by (simp add: clear_recent_def)
next
  case (Some h)
  note gr = owned_grant_ok [OF inv own] and idx = index_invD [OF core_index [OF inv]]
  have here: "s_candidates_by_id st (h_candidate_id h) = Some g"
    using own Some by (simp add: idx cands_of_simps)
  show ?thesis
  proof (rule grant_local_core_inv [OF clear_recent_local inv own])
    show "grant_ok (s_heap (clear_recent g st) g)"
      using grant_ok_without_recent [OF gr] by (simp add: clear_recent_def update_grant_def Some)
    fix c x
    show "s_candidates_by_id (clear_recent g st) c = Some x \<longleftrightarrow>
        (if x = g then c \<in> cands_of (s_heap (clear_recent g st) g) else s_candidates_by_id st c = Some x)"
      using index_remove [of "s_candidates_by_id st" "h_candidate_id h" g "cands_of (s_heap st g)" c x, OF here] own
      by (simp add: clear_recent_def Some update_grant_def cands_of_remove [OF gr] idx)
    show "s_bindings_by_id (clear_recent g st) c = Some x \<longleftrightarrow>
        (if x = g then c \<in> binds_of (s_heap (clear_recent g st) g) else s_bindings_by_id st c = Some x)"
      using own idx(2) [of c g] Some by (auto simp: clear_recent_def update_grant_def cands_of_simps)
  next
    fix i x assume "s_grants_by_id (clear_recent g st) i = Some x"
    then show "s_grants_by_id st i = Some x \<and> (x = g \<longrightarrow> grant_live (s_heap (clear_recent g st) g))"
      using idx(3) [of i x] Some by (auto simp: clear_recent_def update_grant_def grant_live_def)
  qed (auto simp: clear_recent_def update_grant_def grant_live_def Some)
qed

lemma clear_recent_fields [simp]:
  "g_recent (s_heap (clear_recent g st) g) = None"
  "g_binding (s_heap (clear_recent g st) g) = g_binding (s_heap st g)"
  "g_pending (s_heap (clear_recent g st) g) = g_pending (s_heap st g)"
  "g_state (s_heap (clear_recent g st) g) = g_state (s_heap st g)"
  by (auto simp: clear_recent_def update_grant_def split: option.split)

lemma clear_pending_fields [simp]:
  "g_pending (s_heap (clear_pending g st) g) = None"
  "g_binding (s_heap (clear_pending g st) g) = g_binding (s_heap st g)"
  "g_recent (s_heap (clear_pending g st) g) = g_recent (s_heap st g)"
  "g_state (s_heap (clear_pending g st) g) = g_state (s_heap st g)"
  by (auto simp: clear_pending_def update_grant_def split: option.split)

text \<open>Under the invariant a binding is cleared together with its completed handshake.\<close>

definition unbind :: "binding_record \<Rightarrow> gref \<Rightarrow> 'l store \<Rightarrow> 'l store" where
  "unbind b g st = st\<lparr>s_bindings_by_id := (s_bindings_by_id st)(b_id b := None),
     s_heap := (s_heap st)(g := (s_heap st g)\<lparr>g_binding := None, g_state := GrantStateIssued,
       g_binding_state := BindingStateExpired\<rparr>)\<rparr>"

lemma clear_binding_eq:
  assumes "grant_ok (s_heap st g)"
  shows "clear_binding g st = (case g_binding (s_heap st g) of
     None \<Rightarrow> st | Some b \<Rightarrow> unbind b g (clear_recent g st))"
proof (cases "g_binding (s_heap st g)")
  case (Some b)
  have "(case g_recent (s_heap st g) of
      Some recent \<Rightarrow> if h_generation recent = b_generation b then clear_recent g st else st
    | None \<Rightarrow> st) = clear_recent g st"
    using assms Some by (auto simp: grant_ok_defs clear_recent_def split: option.split)
  moreover have "grant_live (s_heap st g)" using assms Some by (auto simp: grant_ok_def split: if_splits)
  ultimately show ?thesis
    by (simp add: clear_binding_def Some Let_def update_grant_def unbind_def grant_live_def)
qed (simp add: clear_binding_def)

lemma unbind_core_inv:
  assumes inv: "core_inv st" and own: "g \<in> owned st"
    and b: "g_binding (s_heap st g) = Some b" and none: "g_recent (s_heap st g) = None"
  shows "core_inv (unbind b g st)"
proof -
  note gr = owned_grant_ok [OF inv own] and idx = index_invD [OF core_index [OF inv]]
  have here: "s_bindings_by_id st (b_id b) = Some g"
    using own b by (simp add: idx cands_of_simps)
  have live: "grant_live (s_heap st g)" using gr b by (auto simp: grant_ok_def split: if_splits)
  have loc: "grant_local g st (unbind b g st)"
    using live by (intro grant_localI) (auto simp: unbind_def grant_op_defs)
  show ?thesis
  proof (rule grant_local_core_inv [OF loc inv own])
    show "grant_ok (s_heap (unbind b g st) g)"
      using gr b none live by (auto simp: unbind_def grant_ok_defs grant_live_def)
    fix c x
    show "s_candidates_by_id (unbind b g st) c = Some x \<longleftrightarrow>
        (if x = g then c \<in> cands_of (s_heap (unbind b g st) g) else s_candidates_by_id st c = Some x)"
      using own idx(1) [of c g] by (auto simp: unbind_def cands_of_simps)
    show "s_bindings_by_id (unbind b g st) c = Some x \<longleftrightarrow>
        (if x = g then c \<in> binds_of (s_heap (unbind b g st) g) else s_bindings_by_id st c = Some x)"
      using own idx(2) [of c g] b here by (auto simp: unbind_def cands_of_simps)
  next
    fix i x assume "s_grants_by_id (unbind b g st) i = Some x"
    then show "s_grants_by_id st i = Some x \<and> (x = g \<longrightarrow> grant_live (s_heap (unbind b g st) g))"
      by (auto simp: unbind_def grant_live_def)
  qed (auto simp: unbind_def grant_live_def)
qed

lemma clear_binding_core_inv:
  assumes inv: "core_inv st" and own: "g \<in> owned st"
  shows "core_inv (clear_binding g st)"
proof (cases "g_binding (s_heap st g)")
  case None
  with inv show ?thesis by (simp add: clear_binding_def)
next
  case (Some b)
  have "g \<in> owned (clear_recent g st)"
    using own by (simp add: grant_local_owned [OF clear_recent_local])
  then have "core_inv (unbind b g (clear_recent g st))"
    using clear_recent_core_inv [OF inv own] Some by (intro unbind_core_inv) simp_all
  with Some show ?thesis by (simp add: clear_binding_eq [OF owned_grant_ok [OF inv own]])
qed

lemma clear_binding_fields:
  assumes "grant_ok (s_heap st g)"
  shows "g_binding (s_heap (clear_binding g st) g) = None"
    "g_recent (s_heap (clear_binding g st) g) = None"
    "g_pending (s_heap (clear_binding g st) g) = g_pending (s_heap st g)"
  using assms
  by (auto simp: clear_binding_eq unbind_def grant_ok_defs split: option.split)

lemma update_generation_core_inv:
  assumes inv: "core_inv st" and own: "g \<in> owned st" and none: "g_binding (s_heap st g) = None"
  shows "core_inv (update_grant g (\<lambda>gr. gr\<lparr>g_generation := n\<rparr>) st)"
proof -
  note gr = owned_grant_ok [OF inv own] and idx = index_invD [OF core_index [OF inv]]
  have loc: "grant_local g st (update_grant g (\<lambda>gr. gr\<lparr>g_generation := n\<rparr>) st)"
    by (rule update_grant_local) (simp_all add: grant_op_defs)
  show ?thesis
  proof (rule grant_local_core_inv [OF loc inv own])
    show "grant_ok (s_heap (update_grant g (\<lambda>gr. gr\<lparr>g_generation := n\<rparr>) st) g)"
      using gr none by (auto simp: update_grant_def grant_ok_defs grant_live_def split: grant_state.splits)
    fix c x
    show "s_candidates_by_id (update_grant g (\<lambda>gr. gr\<lparr>g_generation := n\<rparr>) st) c = Some x \<longleftrightarrow>
        (if x = g then c \<in> cands_of (s_heap (update_grant g (\<lambda>gr. gr\<lparr>g_generation := n\<rparr>) st) g)
         else s_candidates_by_id st c = Some x)"
      using own idx(1) [of c g] by (simp add: update_grant_def cands_of_def)
    show "s_bindings_by_id (update_grant g (\<lambda>gr. gr\<lparr>g_generation := n\<rparr>) st) c = Some x \<longleftrightarrow>
        (if x = g then c \<in> binds_of (s_heap (update_grant g (\<lambda>gr. gr\<lparr>g_generation := n\<rparr>) st) g)
         else s_bindings_by_id st c = Some x)"
      using own idx(2) [of c g] by (simp add: update_grant_def binds_of_def)
  next
    fix i x assume "s_grants_by_id (update_grant g (\<lambda>gr. gr\<lparr>g_generation := n\<rparr>) st) i = Some x"
    then show "s_grants_by_id st i = Some x \<and>
        (x = g \<longrightarrow> grant_live (s_heap (update_grant g (\<lambda>gr. gr\<lparr>g_generation := n\<rparr>) st) g))"
      using idx(3) [of i x] by (auto simp: update_grant_def grant_live_def)
  qed (auto simp: update_grant_def grant_live_def)
qed

lemma clear_relay_core_inv:
  assumes inv: "core_inv st" and own: "g \<in> owned st"
  shows "core_inv (clear_relay g st)"
proof -
  have 1: "core_inv (clear_pending g st)" "g \<in> owned (clear_pending g st)"
    using clear_pending_core_inv [OF inv own] own by (simp_all add: grant_local_owned [OF clear_pending_local])
  have 2: "core_inv (clear_recent g (clear_pending g st))" "g \<in> owned (clear_recent g (clear_pending g st))"
    using clear_recent_core_inv [OF 1] 1 by (simp_all add: grant_local_owned [OF clear_recent_local])
  have 3: "core_inv (clear_binding g (clear_recent g (clear_pending g st)))"
    "g \<in> owned (clear_binding g (clear_recent g (clear_pending g st)))"
    using clear_binding_core_inv [OF 2] 2 by (simp_all add: grant_local_owned [OF clear_binding_local])
  show ?thesis
    unfolding clear_relay_def
    using 3 clear_binding_fields(1) [OF owned_grant_ok [OF 2]] by (rule update_generation_core_inv)
qed

lemma clear_relay_fields:
  assumes inv: "core_inv st" and own: "g \<in> owned st"
  shows "g_binding (s_heap (clear_relay g st) g) = None" "g_recent (s_heap (clear_relay g st) g) = None"
    "g_pending (s_heap (clear_relay g st) g) = None"
proof -
  have 1: "core_inv (clear_pending g st)" "g \<in> owned (clear_pending g st)"
    using clear_pending_core_inv [OF inv own] own by (simp_all add: grant_local_owned [OF clear_pending_local])
  have "grant_ok (s_heap (clear_recent g (clear_pending g st)) g)"
    using clear_recent_core_inv [OF 1] 1 by (simp add: owned_grant_ok grant_local_owned [OF clear_recent_local])
  from clear_binding_fields [OF this]
  show "g_binding (s_heap (clear_relay g st) g) = None" "g_recent (s_heap (clear_relay g st) g) = None"
    "g_pending (s_heap (clear_relay g st) g) = None"
    by (simp_all add: clear_relay_def update_grant_def)
qed

text \<open>Clearing the relay state does not end a live grant.\<close>

lemma clear_binding_state:
  assumes "grant_ok (s_heap st g)"
  shows "g_state (s_heap (clear_binding g st) g) = g_state (s_heap st g) \<or>
    (grant_live (s_heap (clear_binding g st) g) \<and> grant_live (s_heap st g))"
proof (cases "g_binding (s_heap st g)")
  case (Some b)
  then have "grant_live (s_heap st g)" using assms by (simp add: grant_ok_def grant_live_def)
  then show ?thesis by (simp add: clear_binding_eq [OF assms] Some unbind_def grant_live_def)
qed (simp add: clear_binding_def)

lemma clear_relay_state:
  assumes inv: "core_inv st" and own: "g \<in> owned st"
  shows "g_state (s_heap (clear_relay g st) g) = g_state (s_heap st g) \<or>
    (grant_live (s_heap (clear_relay g st) g) \<and> grant_live (s_heap st g))"
proof -
  have 1: "core_inv (clear_pending g st)" "g \<in> owned (clear_pending g st)"
    using clear_pending_core_inv [OF inv own] own by (simp_all add: grant_local_owned [OF clear_pending_local])
  have "grant_ok (s_heap (clear_recent g (clear_pending g st)) g)"
    using clear_recent_core_inv [OF 1] 1 by (simp add: owned_grant_ok grant_local_owned [OF clear_recent_local])
  from clear_binding_state [OF this] show ?thesis
    by (auto simp: clear_relay_def update_grant_def grant_live_def)
qed

lemma terminal_grant_ok:
  assumes "grant_ok gr" and "g_pending gr = None" "g_recent gr = None" "g_binding gr = None"
    and "ts \<in> {GrantStateExpired, GrantStateRevoked}"
  shows "grant_ok ((if grant_live gr then gr\<lparr>g_ingress_packets := None, g_ingress_bytes := None, g_state := ts,
      g_binding_state := (if ts = GrantStateRevoked then BindingStateRevoked else BindingStateExpired)\<rparr>
    else gr\<lparr>g_ingress_packets := None, g_ingress_bytes := None\<rparr>)\<lparr>g_secret := None\<rparr>)"
proof -
  have "g_state gr \<noteq> GrantStateBound" using assms(1,4) by (simp add: grant_ok_def)
  then show ?thesis
    using assms by (cases "g_state gr") (elim insertE emptyE; simp add: grant_ok_def grant_live_def)+
qed

text \<open>What \<open>terminalGrant\<close> leaves of the store, once the relay state of the grant is cleared.\<close>

lemma terminal_grant_eq:
  fixes ts st g
  defines "st1 \<equiv> clear_relay g st" and "bs \<equiv> (if ts = GrantStateRevoked then BindingStateRevoked else BindingStateExpired)"
  defines "gr \<equiv> s_heap st1 g"
  shows "s_heap (terminal_grant g ts st) g = (if grant_live gr
      then gr\<lparr>g_ingress_packets := None, g_ingress_bytes := None, g_state := ts, g_binding_state := bs\<rparr>
      else gr\<lparr>g_ingress_packets := None, g_ingress_bytes := None\<rparr>)\<lparr>g_secret := None\<rparr>"
    and "s_candidates_by_id (terminal_grant g ts st) = s_candidates_by_id st1"
    and "s_bindings_by_id (terminal_grant g ts st) = s_bindings_by_id st1"
    and "s_grants_by_id (terminal_grant g ts st) = (s_grants_by_id st1)(g_id gr := None)"
    and "s_active_sessions (terminal_grant g ts st) = s_active_sessions st1 - (if grant_live gr then 1 else 0)"
  by (simp_all add: terminal_grant_def Let_def update_grant_def st1_def bs_def gr_def grant_live_def)

lemma terminal_grant_core_inv:
  assumes inv: "core_inv st" and own: "g \<in> owned st" and ts: "ts \<in> {GrantStateExpired, GrantStateRevoked}"
  shows "core_inv (terminal_grant g ts st)"
    and "\<not> grant_live (s_heap (terminal_grant g ts st) g)"
    and "g_state (s_heap (terminal_grant g ts st) g) =
      (if grant_live (s_heap st g) then ts else g_state (s_heap st g))"
proof -
  define st1 where "st1 = clear_relay g st"
  have inv1: "core_inv st1" and own1: "g \<in> owned st1"
    using clear_relay_core_inv [OF inv own] own
    by (simp_all add: st1_def grant_local_owned [OF clear_relay_local])
  note gr = owned_grant_ok [OF inv1 own1] and idx = index_invD [OF core_index [OF inv1]]
  note none = clear_relay_fields [OF inv own, folded st1_def]
  note eq = terminal_grant_eq [of g ts st, folded st1_def]
  have dead: "\<not> grant_live (s_heap (terminal_grant g ts st) g)"
    using ts by (auto simp: eq grant_live_def)
  have loc: "grant_local g st1 (terminal_grant g ts st)"
    unfolding st1_def
    by (rule grant_localI) (use ts in \<open>auto simp: terminal_grant_def Let_def grant_op_defs split: if_splits\<close>)
  have empty: "cands_of (s_heap (terminal_grant g ts st) g) = {}" "binds_of (s_heap (terminal_grant g ts st) g) = {}"
    "cands_of (s_heap st1 g) = {}" "binds_of (s_heap st1 g) = {}"
    using none by (simp_all add: eq cands_of_def binds_of_def)
  show "core_inv (terminal_grant g ts st)"
  proof (rule grant_local_core_inv [OF loc inv1 own1])
    show "grant_ok (s_heap (terminal_grant g ts st) g)"
      unfolding eq using gr none(3,2,1) ts by (rule terminal_grant_ok)
    fix c x
    show "s_candidates_by_id (terminal_grant g ts st) c = Some x \<longleftrightarrow>
        (if x = g then c \<in> cands_of (s_heap (terminal_grant g ts st) g) else s_candidates_by_id st1 c = Some x)"
      using idx(1) [of c g] by (simp add: empty eq(2))
    show "s_bindings_by_id (terminal_grant g ts st) c = Some x \<longleftrightarrow>
        (if x = g then c \<in> binds_of (s_heap (terminal_grant g ts st) g) else s_bindings_by_id st1 c = Some x)"
      using idx(2) [of c g] by (simp add: empty eq(3))
  next
    fix i x assume "s_grants_by_id (terminal_grant g ts st) i = Some x"
    then show "s_grants_by_id st1 i = Some x \<and> (x = g \<longrightarrow> grant_live (s_heap (terminal_grant g ts st) g))"
      using idx(3) [of i x] by (auto simp: eq(4) split: if_splits)
  qed (use dead in \<open>simp add: eq(5)\<close>)
  show "\<not> grant_live (s_heap (terminal_grant g ts st) g)" by (rule dead)
  have live: "g_state (s_heap st1 g) = g_state (s_heap st g) \<or>
      (grant_live (s_heap st1 g) \<and> grant_live (s_heap st g))"
    using clear_relay_state [OF inv own] by (simp add: st1_def)
  then show "g_state (s_heap (terminal_grant g ts st) g) =
      (if grant_live (s_heap st g) then ts else g_state (s_heap st g))"
    by (auto simp: eq grant_live_def)
qed

lemma expire_relay_core_inv:
  assumes "core_inv st" and "g \<in> owned st"
  shows "core_inv (expire_relay g now st)"
proof -
  define st1 where "st1 = (case g_pending (s_heap st g) of
      Some p \<Rightarrow> if now \<ge> c_deadline p then clear_pending g st else st | None \<Rightarrow> st)"
  define st2 where "st2 = (case g_recent (s_heap st1 g) of
      Some r \<Rightarrow> if now \<ge> h_deadline r then clear_recent g st1 else st1 | None \<Rightarrow> st1)"
  have 1: "core_inv st1 \<and> g \<in> owned st1"
    using assms by (auto simp: st1_def clear_pending_core_inv grant_local_owned [OF clear_pending_local] split: option.split)
  then have 2: "core_inv st2 \<and> g \<in> owned st2"
    by (auto simp: st2_def clear_recent_core_inv grant_local_owned [OF clear_recent_local] split: option.split)
  then show ?thesis
    by (auto simp: expire_relay_def st1_def [symmetric] st2_def [symmetric] Let_def clear_binding_core_inv
        split: option.split)
qed

section \<open>Changes to several grants\<close>

text \<open>
  \<open>grants_local G st st'\<close>: the rooms, the limits, the open-room count and the sources are those
  of \<open>st\<close>; only grants of \<open>G\<close> changed, and none of them changed identity or was revived.
\<close>

definition grants_local :: "gref set \<Rightarrow> 'l store \<Rightarrow> 'l store \<Rightarrow> bool" where
  "grants_local G st st' \<longleftrightarrow>
     s_rooms st' = s_rooms st \<and> s_next st' = s_next st \<and> s_limits st' = s_limits st \<and>
     s_open_rooms st' = s_open_rooms st \<and> s_preauth_sources st' = s_preauth_sources st \<and>
     s_self st' = s_self st \<and> s_random st' = s_random st \<and>
     (\<forall>x. x \<notin> G \<longrightarrow> s_heap st' x = s_heap st x) \<and>
     (\<forall>x. same_identity (s_heap st x) (s_heap st' x)) \<and>
     (\<forall>x. grant_live (s_heap st' x) \<longrightarrow> grant_live (s_heap st x))"

lemma grants_local_refl [simp]: "grants_local G st st"
  by (simp add: grants_local_def)

lemma grant_local_grants_local: "grant_local g st st' \<Longrightarrow> g \<in> G \<Longrightarrow> grants_local G st st'"
  using grant_local_fields [of g st st'] grant_local_identity [of g st st'] grant_local_live [of g st st']
  by (simp add: grants_local_def) metis

lemma grants_local_trans [trans]:
  assumes "grants_local G st st1" and "grants_local G st1 st2"
  shows "grants_local G st st2"
  using assms same_identity_trans unfolding grants_local_def by (clarsimp, blast)

lemma grants_local_fields:
  assumes "grants_local G st st'"
  shows "s_rooms st' = s_rooms st" "s_next st' = s_next st" "s_limits st' = s_limits st"
    "s_open_rooms st' = s_open_rooms st" "s_preauth_sources st' = s_preauth_sources st"
    "s_self st' = s_self st" "s_random st' = s_random st"
    "x \<notin> G \<Longrightarrow> s_heap st' x = s_heap st x"
    "same_identity (s_heap st y) (s_heap st' y)"
    "grant_live (s_heap st' y) \<Longrightarrow> grant_live (s_heap st y)"
    "owned st' = owned st" "open_room_ids st' = open_room_ids st"
  using assms by (auto simp: grants_local_def owned_def open_room_ids_def)

text \<open>Fewer live grants: the counter can only have gone down.\<close>

lemma grants_local_store_inv:
  assumes "grants_local G st st'" and "core_inv st'" and "store_inv st"
  shows "store_inv st'"
proof -
  note f = grants_local_fields [OF assms(1)]
  have "live_grants st' \<subseteq> live_grants st" using f(10) by (auto simp: live_grants_def f(11))
  then have "card (live_grants st') \<le> card (live_grants st)" by (intro card_mono) simp_all
  then have "s_active_sessions st' \<le> s_active_sessions st"
    using assms(2,3) by (simp add: store_inv_def core_inv_def)
  then show ?thesis using assms(2,3) by (auto simp: store_inv_def f)
qed

lemma store_inv_core [dest]: "store_inv st \<Longrightarrow> core_inv st"
  by (simp add: store_inv_def)

lemma core_inv_rooms [dest]: "core_inv st \<Longrightarrow> rooms_inv st"
  by (simp add: core_inv_def)

definition terminal_state :: "grant_state \<Rightarrow> bool" where
  "terminal_state ts \<longleftrightarrow> ts \<in> {GrantStateExpired, GrantStateRevoked}"

lemma terminal_state_simps [simp]: "terminal_state GrantStateExpired" "terminal_state GrantStateRevoked"
  by (simp_all add: terminal_state_def)

text \<open>
  A sweep runs one operation over the grants of a room. The contract of the operation: it changes
  its own grant only, keeps the invariant, and relates the grant before to the grant after by
  \<open>post\<close>. Then the sweep changes exactly these grants, each by \<open>post\<close>.
\<close>

locale grant_sweep =
  fixes step :: "gref \<Rightarrow> 'l store \<Rightarrow> 'l store"
    and post :: "'l grant_record \<Rightarrow> 'l grant_record \<Rightarrow> bool"
  assumes step_inv: "core_inv st \<Longrightarrow> g \<in> owned st \<Longrightarrow> core_inv (step g st)"
    and step_local: "core_inv st \<Longrightarrow> g \<in> owned st \<Longrightarrow> grants_local {g} st (step g st)"
    and step_post: "core_inv st \<Longrightarrow> g \<in> owned st \<Longrightarrow> post (s_heap st g) (s_heap (step g st) g)"
begin

lemma sweep:
  assumes "core_inv st" and "set gs \<subseteq> owned st" and "distinct gs"
  shows "core_inv (fold step gs st) \<and> grants_local (set gs) st (fold step gs st) \<and>
    (\<forall>g \<in> set gs. post (s_heap st g) (s_heap (fold step gs st) g))"
  using assms
proof (induction gs arbitrary: st)
  case (Cons g gs)
  define st1 where "st1 = step g st"
  have own: "g \<in> owned st" "g \<notin> set gs" using Cons.prems by auto
  note one = step_inv [OF Cons.prems(1) own(1), folded st1_def] step_local [OF Cons.prems(1) own(1), folded st1_def]
    step_post [OF Cons.prems(1) own(1), folded st1_def]
  have "set gs \<subseteq> owned st1" using Cons.prems(2) grants_local_fields(11) [OF one(2)] by simp
  note IH = Cons.IH [OF one(1) this]
  have rest: "core_inv (fold step gs st1)" "grants_local (set gs) st1 (fold step gs st1)"
    "\<forall>g \<in> set gs. post (s_heap st1 g) (s_heap (fold step gs st1) g)"
    using IH Cons.prems(3) by auto
  have "grants_local (set (g # gs)) st st1" "grants_local (set (g # gs)) st1 (fold step gs st1)"
    using one(2) rest(2) by (auto simp: grants_local_def)
  then have "grants_local (set (g # gs)) st (fold step gs st1)" by (rule grants_local_trans)
  moreover have "s_heap st1 x = s_heap st x" if "x \<in> set gs" for x
    using that own(2) grants_local_fields(8) [OF one(2), of x] by blast
  moreover have "s_heap (fold step gs st1) g = s_heap st1 g"
    using own(2) grants_local_fields(8) [OF rest(2)] by blast
  ultimately show ?case using rest one(3) by (simp add: st1_def [symmetric])
qed simp

end

definition ended_as :: "grant_state \<Rightarrow> 'l grant_record \<Rightarrow> 'l grant_record \<Rightarrow> bool" where
  "ended_as ts gr gr' \<longleftrightarrow> \<not> grant_live gr' \<and> g_state gr' = (if grant_live gr then ts else g_state gr)"

lemma terminal_grant_step:
  assumes "core_inv st" and "g \<in> owned st" and "terminal_state ts"
  shows "core_inv (terminal_grant g ts st) \<and> grants_local {g} st (terminal_grant g ts st) \<and>
    ended_as ts (s_heap st g) (s_heap (terminal_grant g ts st) g)"
proof -
  have ts: "ts \<in> {GrantStateExpired, GrantStateRevoked}" using assms(3) by (simp add: terminal_state_def)
  have "grant_local g st (terminal_grant g ts st)" by (rule terminal_grant_local) (use ts in auto)
  then show ?thesis
    using terminal_grant_core_inv [OF assms(1,2) ts] by (simp add: ended_as_def grant_local_grants_local)
qed

interpretation expiring: grant_sweep "\<lambda>g. terminal_grant g GrantStateExpired" "ended_as GrantStateExpired"
  by unfold_locales (simp_all add: terminal_grant_step)

interpretation revoking: grant_sweep "\<lambda>g. terminal_grant g GrantStateRevoked" "ended_as GrantStateRevoked"
  by unfold_locales (simp_all add: terminal_grant_step)

lemma fold_terminal_grant:
  assumes "core_inv st" and "set gs \<subseteq> owned st" and "terminal_state ts" and "distinct gs"
  defines "st' \<equiv> fold (\<lambda>g. terminal_grant g ts) gs st"
  shows "core_inv st' \<and> grants_local (set gs) st st' \<and> (\<forall>g \<in> set gs. ended_as ts (s_heap st g) (s_heap st' g))"
  using assms expiring.sweep [OF assms(1,2,4)] revoking.sweep [OF assms(1,2,4)]
  by (auto simp: terminal_state_def)

section \<open>Rooms leave the map\<close>

text \<open>A room whose grants are all dead can be replaced by a tombstone, and a tombstone dropped.\<close>

lemma retire_room_core_inv:
  assumes inv: "core_inv st" and R: "fmlookup (s_rooms st) rid = Some R"
    and dead: "\<And>g. g \<in> set (r_grants R) \<Longrightarrow> \<not> grant_live (s_heap st g)"
    and look: "\<And>r. fmlookup rooms' r = (if rid = r then new else fmlookup (s_rooms st) r)"
    and new: "new = None \<or> (\<exists>d. new = Some (tombstone_record d))"
  shows "core_inv (st\<lparr>s_rooms := rooms'\<rparr>)"
    and "owned (st\<lparr>s_rooms := rooms'\<rparr>) = owned st - set (r_grants R)"
proof -
  let ?st = "st\<lparr>s_rooms := rooms'\<rparr>"
  have rooms: "rooms_inv st" and idx: "index_inv st" using inv by (simp_all add: core_inv_def)
  have ids: "g_room_id (s_heap st g) = rid \<longleftrightarrow> g \<in> set (r_grants R)" if "g \<in> owned st" for g
    using owned_room [OF rooms that] R rooms
    by (metis option.inject room_grant_ok_def rooms_inv_def)
  have own: "owned ?st = owned st - set (r_grants R)"
  proof (intro set_eqI iffI)
    fix g assume "g \<in> owned ?st"
    then obtain r R' where r: "fmlookup rooms' r = Some R'" "g \<in> set (r_grants R')" by (auto simp: owned_def)
    with new have "r \<noteq> rid" by (auto simp: look tombstone_record_def)
    with r have old: "fmlookup (s_rooms st) r = Some R'" by (simp add: look)
    with rooms r \<open>r \<noteq> rid\<close> have "g_room_id (s_heap st g) \<noteq> rid" by (auto simp: rooms_inv_def room_grant_ok_def)
    with old r ids show "g \<in> owned st - set (r_grants R)" by (auto simp: owned_def)
  next
    fix g assume g: "g \<in> owned st - set (r_grants R)"
    then obtain r R' where r: "fmlookup (s_rooms st) r = Some R'" "g \<in> set (r_grants R')" by (auto simp: owned_def)
    with g R have "r \<noteq> rid" by auto
    with r show "g \<in> owned ?st" by (auto simp: owned_def look)
  qed
  then show "owned (st\<lparr>s_rooms := rooms'\<rparr>) = owned st - set (r_grants R)" .
  have gone: "cands_of (s_heap st g) = {} \<and> binds_of (s_heap st g) = {}" if "g \<in> set (r_grants R)" for g
    using owned_grant_ok [OF inv ownedI [OF R that]] dead [OF that]
    by (simp add: grant_ok_def cands_of_def binds_of_def)
  have "rooms_inv ?st"
    unfolding rooms_inv_def
  proof (intro allI impI)
    fix r R' assume "fmlookup (s_rooms ?st) r = Some R'"
    then show "room_ok R' \<and> (\<forall>g \<in> set (r_grants R'). room_grant_ok ?st r R' g)"
      using rooms new by (cases "r = rid") (auto simp: look rooms_inv_def room_grant_ok_def room_ok_def tombstone_record_def)
  qed
  moreover have "\<forall>g \<in> owned ?st. grant_ok (s_heap ?st g)"
    using inv by (simp add: own core_inv_def)
  moreover have "index_inv ?st"
    unfolding index_inv_def own using index_invD [OF idx] gone dead by (simp; blast)
  moreover have "live_grants ?st = live_grants st"
    unfolding live_grants_def own using dead by auto
  ultimately show "core_inv (st\<lparr>s_rooms := rooms'\<rparr>)" using inv by (simp add: core_inv_def)
qed

lemma core_inv_counter: "core_inv (st\<lparr>s_open_rooms := n\<rparr>) = core_inv st"
  by (simp add: core_inv_def rooms_inv_def room_grant_ok_def index_inv_def owned_def live_grants_def)

lemma owned_counter [simp]: "owned (st\<lparr>s_open_rooms := n\<rparr>) = owned st"
  by (simp add: owned_def)

text \<open>\<open>tombstoneRoom\<close> on a room that is not yet a tombstone.\<close>

lemma tombstone_room_spec:
  fixes now
  assumes inv: "store_inv st" and R: "fmlookup (s_rooms st) rid = Some R"
    and alive: "r_state R \<noteq> roomStateTombstone" and ts: "terminal_state ts"
  defines "st' \<equiv> tombstone_room rid now ts st"
  shows "store_inv st'"
    and "s_rooms st' = fmupd rid (tombstone_record (saturating_add now (TombstoneTTL (s_limits st)))) (s_rooms st)"
    and "owned st' = owned st - set (r_grants R)"
    and "g \<in> set (r_grants R) \<Longrightarrow> \<not> grant_live (s_heap st' g)"
    and "g \<in> set (r_grants R) \<Longrightarrow> g_state (s_heap st' g) = (if grant_live (s_heap st g) then ts else g_state (s_heap st g))"
    and "g \<notin> set (r_grants R) \<Longrightarrow> s_heap st' g = s_heap st g"
    and "same_identity (s_heap st x) (s_heap st' x)"
    and "grant_live (s_heap st' x) \<Longrightarrow> grant_live (s_heap st x)"
    and "s_limits st' = s_limits st" "s_self st' = s_self st" "s_random st' = s_random st"
      "s_next st' = s_next st" "s_preauth_sources st' = s_preauth_sources st"
proof -
  define st1 where "st1 = (if r_state R = roomStateOpen then st\<lparr>s_open_rooms := s_open_rooms st - 1\<rparr> else st)"
  define st2 where "st2 = fold (\<lambda>g. terminal_grant g ts) (r_grants R) st1"
  define rooms' where "rooms' = fmupd rid (tombstone_record (saturating_add now (TombstoneTTL (s_limits st2)))) (s_rooms st2)"
  have st': "st' = st2\<lparr>s_rooms := rooms'\<rparr>"
    using R alive by (simp add: st'_def tombstone_room_def Let_def st1_def st2_def rooms'_def)
  have rooms: "rooms_inv st" using inv by blast
  have ok: "room_ok R" "set (r_grants R) \<subseteq> owned st" "distinct (r_grants R)"
    using rooms R alive by (auto simp: rooms_inv_def room_ok_def owned_def)
  have one: "core_inv st1" "owned st1 = owned st" "s_heap st1 = s_heap st" "s_rooms st1 = s_rooms st"
    "s_limits st1 = s_limits st" "s_next st1 = s_next st" "s_self st1 = s_self st" "s_random st1 = s_random st"
    "s_preauth_sources st1 = s_preauth_sources st"
    using inv by (auto simp: st1_def core_inv_counter)
  have two: "core_inv st2" "grants_local (set (r_grants R)) st1 st2"
    "\<forall>g \<in> set (r_grants R). \<not> grant_live (s_heap st2 g) \<and>
      g_state (s_heap st2 g) = (if grant_live (s_heap st g) then ts else g_state (s_heap st g))"
    using fold_terminal_grant [OF one(1) _ ts ok(3)] ok(2) one(2,3) by (simp_all add: st2_def ended_as_def)
  note f = grants_local_fields [OF two(2), unfolded one]
  have R2: "fmlookup (s_rooms st2) rid = Some R" by (simp add: f R)
  have look: "fmlookup rooms' r = (if rid = r
      then Some (tombstone_record (saturating_add now (TombstoneTTL (s_limits st2)))) else fmlookup (s_rooms st2) r)" for r
    by (simp add: rooms'_def)
  have dead: "\<not> grant_live (s_heap st2 g)" if "g \<in> set (r_grants R)" for g using two(3) that by blast
  have core: "core_inv st'" and own: "owned st' = owned st2 - set (r_grants R)"
    unfolding st' by (rule retire_room_core_inv [OF two(1) R2 dead look]; blast)+
  show "s_rooms st' = fmupd rid (tombstone_record (saturating_add now (TombstoneTTL (s_limits st)))) (s_rooms st)"
    by (simp add: st' rooms'_def f)
  show "owned st' = owned st - set (r_grants R)" by (simp add: own f)
  show "g \<in> set (r_grants R) \<Longrightarrow> \<not> grant_live (s_heap st' g)"
    "g \<in> set (r_grants R) \<Longrightarrow> g_state (s_heap st' g) = (if grant_live (s_heap st g) then ts else g_state (s_heap st g))"
    using two(3) by (simp_all add: st')
  show "g \<notin> set (r_grants R) \<Longrightarrow> s_heap st' g = s_heap st g" "same_identity (s_heap st x) (s_heap st' x)"
    "grant_live (s_heap st' x) \<Longrightarrow> grant_live (s_heap st x)"
    using f(8) [of g] f(9,10) [of x] by (simp_all add: st')
  show lims: "s_limits st' = s_limits st" and "s_self st' = s_self st" "s_random st' = s_random st"
      "s_next st' = s_next st" "s_preauth_sources st' = s_preauth_sources st"
    by (simp_all add: st' f)
  have "live_grants st' \<subseteq> live_grants st" using f(10) by (auto simp: live_grants_def own f(11)) (simp_all add: st')
  then have "card (live_grants st') \<le> card (live_grants st)" by (intro card_mono) simp_all
  then have active: "s_active_sessions st' \<le> s_active_sessions st"
    using core inv by (simp add: store_inv_def core_inv_def)
  have ids: "open_room_ids st' = open_room_ids st - {rid}"
    by (auto simp: open_room_ids_def st' rooms'_def f tombstone_record_def split: if_splits)
  have "s_open_rooms st' = s_open_rooms st - (if r_state R = roomStateOpen then 1 else 0)"
    using f(4) by (simp add: st' st1_def)
  moreover have "rid \<in> open_room_ids st \<longleftrightarrow> r_state R = roomStateOpen" using R by (simp add: open_room_ids_def)
  ultimately have "s_open_rooms st' = int (card (open_room_ids st')) \<and> s_open_rooms st' \<le> s_open_rooms st"
    using inv card_Suc_Diff1 [of "open_room_ids st" rid] unfolding ids store_inv_def by auto
  moreover have "len_map (s_rooms st') = len_map (s_rooms st)"
    using R by (simp add: st' rooms'_def f len_map_fmupd)
  ultimately show "store_inv st'"
    using core inv active by (auto simp: store_inv_def lims \<open>s_preauth_sources st' = s_preauth_sources st\<close>)
qed

section \<open>The whole invariant\<close>

lemma grant_ops_store_inv:
  assumes "store_inv st" and "g \<in> owned st"
  shows "store_inv (clear_pending g st)" "store_inv (clear_recent g st)" "store_inv (clear_binding g st)"
    "store_inv (expire_relay g now st)" "terminal_state ts \<Longrightarrow> store_inv (terminal_grant g ts st)"
proof -
  have core: "core_inv st" using assms(1) by blast
  note lift = grants_local_store_inv [OF grant_local_grants_local [where G = "{g}"] _ assms(1)]
  show "store_inv (clear_pending g st)"
    using clear_pending_core_inv [OF core assms(2)] clear_pending_local by (intro lift) auto
  show "store_inv (clear_recent g st)"
    using clear_recent_core_inv [OF core assms(2)] clear_recent_local by (intro lift) auto
  show "store_inv (clear_binding g st)"
    using clear_binding_core_inv [OF core assms(2)] clear_binding_local by (intro lift) auto
  show "store_inv (expire_relay g now st)"
    using expire_relay_core_inv [OF core assms(2)] expire_relay_local by (intro lift) auto
  show "store_inv (terminal_grant g ts st)" if "terminal_state ts"
    using terminal_grant_core_inv(1) [OF core assms(2), of ts] terminal_grant_local [of ts g st] that
    by (intro lift) (auto simp: terminal_state_def)
qed

lemma drop_tombstone_store_inv:
  assumes inv: "store_inv st" and R: "fmlookup (s_rooms st) rid = Some R" and "r_state R = roomStateTombstone"
  shows "store_inv (st\<lparr>s_rooms := fmdrop rid (s_rooms st)\<rparr>)"
    and "owned (st\<lparr>s_rooms := fmdrop rid (s_rooms st)\<rparr>) = owned st"
proof -
  let ?st = "st\<lparr>s_rooms := fmdrop rid (s_rooms st)\<rparr>"
  have empty: "r_grants R = []" using inv R assms(3) by (auto simp: store_inv_def core_inv_def rooms_inv_def room_ok_def)
  have core: "core_inv ?st" and own: "owned ?st = owned st - set (r_grants R)"
    by (rule retire_room_core_inv [where new = None, OF store_inv_core [OF inv] R]; simp add: empty)+
  then show "owned ?st = owned st" by (simp add: empty)
  have "open_room_ids ?st = open_room_ids st" using R assms(3) by (auto simp: open_room_ids_def split: if_splits)
  then show "store_inv ?st"
    using inv core len_map_fmdrop_le [of rid "s_rooms st"] by (auto simp: store_inv_def)
qed

lemma live_authority_ok:
  assumes inv: "store_inv st" and own: "g \<in> owned st" and la: "live_authority g now st = (st', Inr room)"
  shows "st' = st" "fmlookup (s_rooms st) (g_room_id (s_heap st g)) = Some room" "g \<in> set (r_grants room)"
    "r_state room = roomStateOpen" "grant_live (s_heap st g)" "now < g_mono_deadline (s_heap st g)"
    "now < r_mono_deadline room" "room_ok room"
proof -
  obtain R where R: "fmlookup (s_rooms st) (g_room_id (s_heap st g)) = Some R" "g \<in> set (r_grants R)"
    "room_ok R" "room_grant_ok st (g_room_id (s_heap st g)) R g" "r_state R \<noteq> roomStateTombstone"
    using owned_room [OF core_inv_rooms [OF store_inv_core [OF inv]] own] by blast
  then show same: "st' = st" and "fmlookup (s_rooms st) (g_room_id (s_heap st g)) = Some room"
    "g \<in> set (r_grants room)" "now < g_mono_deadline (s_heap st g)"
    "now < r_mono_deadline room" "room_ok room" and live: "grant_live (s_heap st g)"
    using la by (cases "g_state (s_heap st g)";
      auto simp: live_authority_def Let_def grant_live_def split: if_splits)+
  have "R = room" using la R by (auto simp: live_authority_def Let_def split: if_splits)
  with R live show "r_state room = roomStateOpen"
    by (cases "r_state room") (auto simp: room_grant_ok_def)
qed

text \<open>When it denies authority it may retire the grant or its room, and keeps the invariant.\<close>

lemma live_authority_store_inv:
  assumes inv: "store_inv st" and own: "g \<in> owned st" and la: "live_authority g now st = (st', res)"
  shows "store_inv st'"
proof -
  obtain R where R: "fmlookup (s_rooms st) (g_room_id (s_heap st g)) = Some R" "r_state R \<noteq> roomStateTombstone"
    using owned_room [OF core_inv_rooms [OF store_inv_core [OF inv]] own] by blast
  have "st' \<in> {st, tombstone_room (g_room_id (s_heap st g)) now GrantStateExpired st, terminal_grant g GrantStateExpired st}"
    using la by (auto simp: live_authority_def Let_def split: if_splits option.splits)
  moreover have "store_inv (tombstone_room (g_room_id (s_heap st g)) now GrantStateExpired st)"
    using tombstone_room_spec(1) [OF inv R] by simp
  moreover have "store_inv (terminal_grant g GrantStateExpired st)"
    using grant_ops_store_inv(5) [OF inv own] by simp
  ultimately show ?thesis using inv by auto
qed

text \<open>The last grant deadline bounds every grant of the room.\<close>

lemma fold_max_ge: "(d :: int) \<le> fold (\<lambda>g d. if f g > d then f g else d) gs d"
  by (induction gs arbitrary: d) (auto intro: order_trans [OF less_imp_le])

lemma fold_max_upper: "g \<in> set gs \<Longrightarrow> (f g :: int) \<le> fold (\<lambda>g d. if f g > d then f g else d) gs d"
proof (induction gs arbitrary: d)
  case (Cons a gs)
  then show ?case using fold_max_ge [of "f g" f gs] fold_max_ge [of d f gs] by (cases "a = g") fastforce+
qed simp

lemma fold_max_in: "fold (\<lambda>g d. if f g > d then f g else d) gs d \<in> insert (d :: int) (f ` set gs)"
  by (induction gs arbitrary: d) (simp_all, blast+)

lemma last_grant_deadline_Max:
  assumes "r_grants R \<noteq> []"
  shows "last_grant_deadline heap R = Max ((\<lambda>g. g_mono_deadline (heap g)) ` set (r_grants R))"
proof -
  obtain g gs where gs: "r_grants R = g # gs" using assms by (cases "r_grants R") auto
  let ?f = "\<lambda>g. g_mono_deadline (heap g)"
  have "Max (?f ` set (g # gs)) = fold (\<lambda>g d. if ?f g > d then ?f g else d) gs (?f g)"
    using fold_max_in [of ?f gs "?f g"] fold_max_upper [of _ gs ?f "?f g"] fold_max_ge [of "?f g" ?f gs]
    by (intro Max_eqI) auto
  then show ?thesis by (simp add: last_grant_deadline_def gs)
qed

lemma last_grant_deadline_le_iff:
  assumes "r_grants R \<noteq> []"
  shows "last_grant_deadline heap R \<le> now \<longleftrightarrow> (\<forall>g \<in> set (r_grants R). g_mono_deadline (heap g) \<le> now)"
  using assms by (simp add: last_grant_deadline_Max)

section \<open>What the invariant does not depend on\<close>

text \<open>Drawing random bytes and charging limiters of the store or of the sources.\<close>

definition same_core :: "'l store \<Rightarrow> 'l store \<Rightarrow> bool" where
  "same_core st st' \<longleftrightarrow> s_self st' = s_self st \<and> s_limits st' = s_limits st \<and> s_heap st' = s_heap st \<and> s_next st' = s_next st \<and>
     s_rooms st' = s_rooms st \<and> s_grants_by_id st' = s_grants_by_id st \<and>
     s_candidates_by_id st' = s_candidates_by_id st \<and> s_bindings_by_id st' = s_bindings_by_id st \<and>
     s_open_rooms st' = s_open_rooms st \<and> s_active_sessions st' = s_active_sessions st"

lemma same_core_owned: "same_core st st' \<Longrightarrow> owned st' = owned st"
  by (simp add: same_core_def owned_def)

lemma same_core_core_inv: "same_core st st' \<Longrightarrow> core_inv st' = core_inv st"
  by (simp add: same_core_def core_inv_def rooms_inv_def room_grant_ok_def index_inv_def owned_def live_grants_def)

lemma same_core_store_inv:
  assumes "same_core st st'" and "store_inv st" and "len_map (s_preauth_sources st') \<le> HardMaxPreauthSources"
  shows "store_inv st'"
proof -
  have "open_room_ids st' = open_room_ids st" using assms(1) by (simp add: same_core_def open_room_ids_def)
  then show ?thesis
    using assms same_core_core_inv [OF assms(1)] by (simp add: store_inv_def same_core_def)
qed

lemma store_inv_random [simp]: "store_inv (st\<lparr>s_random := src\<rparr>) \<longleftrightarrow> store_inv st"
proof -
  have "len_map (s_preauth_sources st) \<le> HardMaxPreauthSources" if "store_inv st \<or> store_inv (st\<lparr>s_random := src\<rparr>)"
    using that unfolding store_inv_def by (elim disjE conjE) simp_all
  moreover have "same_core st (st\<lparr>s_random := src\<rparr>)" "same_core (st\<lparr>s_random := src\<rparr>) st"
    by (simp_all add: same_core_def)
  ultimately show ?thesis using same_core_store_inv [of st "st\<lparr>s_random := src\<rparr>"]
      same_core_store_inv [of "st\<lparr>s_random := src\<rparr>" st] by fastforce
qed

section \<open>What expireRelay leaves of a grant\<close>

definition unexpired :: "('a \<Rightarrow> duration) \<Rightarrow> duration \<Rightarrow> 'a option \<Rightarrow> 'a option" where
  "unexpired deadline now x = (case x of None \<Rightarrow> None | Some a \<Rightarrow> if now \<ge> deadline a then None else Some a)"

lemma unexpired_simps [simp]:
  "unexpired f now None = None" "unexpired f now (Some a) = (if now \<ge> f a then None else Some a)"
  by (simp_all add: unexpired_def)

lemma unexpired_Some_iff: "unexpired f now x = Some a \<longleftrightarrow> x = Some a \<and> now < f a"
  by (cases x) auto

lemma expire_relay_fields:
  assumes inv: "core_inv st" and own: "g \<in> owned st"
  shows "g_binding (s_heap (expire_relay g now st) g) = unexpired b_deadline now (g_binding (s_heap st g))"
    and "g_pending (s_heap (expire_relay g now st) g) = unexpired c_deadline now (g_pending (s_heap st g))"
    and "grant_live (s_heap (expire_relay g now st) g) = grant_live (s_heap st g)"
    and "\<not> grant_live (s_heap st g) \<Longrightarrow> g_state (s_heap (expire_relay g now st) g) = g_state (s_heap st g)"
proof -
  define st1 where "st1 = (case g_pending (s_heap st g) of
      Some p \<Rightarrow> if now \<ge> c_deadline p then clear_pending g st else st | None \<Rightarrow> st)"
  define st2 where "st2 = (case g_recent (s_heap st1 g) of
      Some r \<Rightarrow> if now \<ge> h_deadline r then clear_recent g st1 else st1 | None \<Rightarrow> st1)"
  have er: "expire_relay g now st = (case g_binding (s_heap st2 g) of
            Some b \<Rightarrow> if now \<ge> b_deadline b then clear_binding g st2 else st2 | None \<Rightarrow> st2)"
    by (simp only: expire_relay_def st1_def [symmetric] st2_def [symmetric] Let_def)
  have 1: "core_inv st1 \<and> g \<in> owned st1"
    using assms by (auto simp: st1_def clear_pending_core_inv grant_local_owned [OF clear_pending_local] split: option.split)
  then have 2: "core_inv st2 \<and> g \<in> owned st2"
    by (auto simp: st2_def clear_recent_core_inv grant_local_owned [OF clear_recent_local] split: option.split)
  then have ok: "grant_ok (s_heap st2 g)" by (simp add: owned_grant_ok)
  have f: "g_binding (s_heap st2 g) = g_binding (s_heap st g)" "g_state (s_heap st2 g) = g_state (s_heap st g)"
    "g_pending (s_heap st2 g) = unexpired c_deadline now (g_pending (s_heap st g))"
    by (auto simp: st2_def st1_def unexpired_def split: option.split)
  show "g_binding (s_heap (expire_relay g now st) g) = unexpired b_deadline now (g_binding (s_heap st g))"
    using clear_binding_fields(1) [OF ok] f(1) by (simp add: er split: option.split)
  show "g_pending (s_heap (expire_relay g now st) g) = unexpired c_deadline now (g_pending (s_heap st g))"
    using clear_binding_fields(3) [OF ok] f(3) by (simp add: er split: option.split)
  have "grant_live (s_heap (clear_binding g st2) g) = grant_live (s_heap st2 g)"
    using clear_binding_state [OF ok] by (auto simp: grant_live_def)
  then show "grant_live (s_heap (expire_relay g now st) g) = grant_live (s_heap st g)"
    using f(2) by (simp add: er grant_live_def split: option.split)
  show "g_state (s_heap (expire_relay g now st) g) = g_state (s_heap st g)" if "\<not> grant_live (s_heap st g)"
    using clear_binding_state [OF ok] f(2) that by (auto simp: er grant_live_def split: option.split)
qed

end
