(* ===== verification/Store_Rooms.thy ===== *)
theory Store_Rooms
  imports Store_Inv "HOL-Library.Multiset" "HOL-Library.List_Lexorder" "HOL-Library.Product_Lexorder" "HOL-Library.Char_ord"
begin

text \<open>
  The room operations of \<open>store.Store\<close> (\<open>internal/store/store.go\<close>): \<open>CreateRoom\<close>, \<open>GetRoom\<close>,
  \<open>EndRoom\<close> and \<open>Expire\<close>, what each returns and what it does to the store. Each takes the reading
  of the clock that the code takes under the lock. \<open>Expire\<close> also takes the orders in which Go
  happens to iterate over its two maps, so that its results are proved for every order.
\<close>

section \<open>Requests and results\<close>

record participant_definition =
  pd_participant_id :: string
  pd_session_id :: string
  pd_grant_expires_at :: time

record room_definition =
  rd_capacity :: u32
  rd_expires_at :: time
  rd_participants :: "participant_definition list"

record grant_allocation =
  ga_participant_id :: string
  ga_session_id :: string
  ga_grant_id :: bytes16
  ga_grant_secret :: "bytes32 option"
  ga_grant_expires_at :: time
  ga_state :: grant_state

record allocation =
  al_room_id :: string
  al_created_at :: time
  al_expires_at :: time
  al_capacity :: u32
  al_grants :: "grant_allocation list"

record participant_snapshot =
  ps_participant_id :: string
  ps_session_id :: string
  ps_grant_expires_at :: time
  ps_grant_state :: grant_state
  ps_binding_state :: binding_state

record room_snapshot =
  rs_room_id :: string
  rs_created_at :: time
  rs_expires_at :: time
  rs_capacity :: u32
  rs_participants :: "participant_snapshot list"

section \<open>canonicalDefinition\<close>

text \<open>The loop over the participants, with the identifiers seen so far.\<close>

fun participants_valid :: "time \<Rightarrow> string list \<Rightarrow> string list \<Rightarrow> participant_definition list \<Rightarrow> bool" where
  "participants_valid expires participant_ids session_ids [] = True"
| "participants_valid expires participant_ids session_ids (p # ps) =
     (if \<not> valid_id (pd_participant_id p) \<or> \<not> valid_id (pd_session_id p) \<or> pd_grant_expires_at p = zero_time then False
      else if pd_participant_id p \<in> set participant_ids then False
      else if pd_session_id p \<in> set session_ids then False
      else if pd_grant_expires_at p > expires then False
      else participants_valid expires (pd_participant_id p # participant_ids) (pd_session_id p # session_ids) ps)"

definition participant_key :: "participant_definition \<Rightarrow> string \<times> string" where
  "participant_key p = (pd_participant_id p, pd_session_id p)"

text \<open>\<open>uint64(limits.MaxRoomCapacity)\<close> is the wrapped value of the limit.\<close>

definition canonical_definition :: "string \<Rightarrow> room_definition \<Rightarrow> limits \<Rightarrow> store_error + room_definition" where
  "canonical_definition room_id d lims =
     (if \<not> valid_id room_id \<or> rd_capacity d = 0 \<or> rd_participants d = [] \<or>
         unat (rd_capacity d) \<noteq> length (rd_participants d) then Inl ErrInvalid
      else if uint (rd_capacity d) > uint (word_of_int (MaxRoomCapacity lims) :: u64) \<or>
         int (length (rd_participants d)) > MaxRoomCapacity lims then Inl ErrCapacity
      else if rd_expires_at d = zero_time then Inl ErrInvalid
      else if \<not> participants_valid (rd_expires_at d) [] [] (rd_participants d) then Inl ErrInvalid
      else Inr (d\<lparr>rd_participants := sort_key participant_key (rd_participants d)\<rparr>))"

definition same_definition :: "(gref \<Rightarrow> 'l grant_record) \<Rightarrow> 'l room_record \<Rightarrow> room_definition \<Rightarrow> bool" where
  "same_definition heap room d \<longleftrightarrow>
     r_capacity room = rd_capacity d \<and> r_expires_at room = rd_expires_at d \<and>
     list_all2 (\<lambda>g p. g_participant_id (heap g) = pd_participant_id p \<and>
                      g_session_id (heap g) = pd_session_id p \<and>
                      g_expires_at (heap g) = pd_grant_expires_at p)
       (r_grants room) (rd_participants d)"

section \<open>Views of a room\<close>

definition grant_allocation_at :: "'l grant_record \<Rightarrow> duration \<Rightarrow> grant_allocation" where
  "grant_allocation_at grant now =
     (let state = grant_state_at grant now in
      \<lparr>ga_participant_id = g_participant_id grant, ga_session_id = g_session_id grant,
       ga_grant_id = g_id grant,
       ga_grant_secret = (if state = GrantStateIssued \<or> state = GrantStateBound then g_secret grant else None),
       ga_grant_expires_at = g_expires_at grant, ga_state = state\<rparr>)"

definition allocation_at :: "(gref \<Rightarrow> 'l grant_record) \<Rightarrow> string \<Rightarrow> 'l room_record \<Rightarrow> duration \<Rightarrow> allocation" where
  "allocation_at heap room_id room now =
     \<lparr>al_room_id = room_id, al_created_at = r_created_at room, al_expires_at = r_expires_at room,
      al_capacity = r_capacity room,
      al_grants = map (\<lambda>g. grant_allocation_at (heap g) now) (r_grants room)\<rparr>"

definition participant_snapshot_at :: "'l grant_record \<Rightarrow> duration \<Rightarrow> participant_snapshot" where
  "participant_snapshot_at grant now =
     (let state = grant_state_at grant now;
          unset = (if g_binding_state grant = BindingStateUnset then BindingStateUnbound
                   else g_binding_state grant);
          (state', bs) = (case state of
              GrantStateExpired \<Rightarrow> (state, BindingStateExpired)
            | GrantStateRevoked \<Rightarrow> (state, BindingStateRevoked)
            | _ \<Rightarrow> (case g_binding grant of
                 None \<Rightarrow> (state, unset)
               | Some b \<Rightarrow>
                   if now \<ge> b_deadline b then (GrantStateIssued, BindingStateExpired)
                   else (state, case g_pending grant of
                           Some p \<Rightarrow> if now < c_deadline p then BindingStateRebindPending else BindingStateBound
                         | None \<Rightarrow> BindingStateBound)))
      in \<lparr>ps_participant_id = g_participant_id grant, ps_session_id = g_session_id grant,
          ps_grant_expires_at = g_expires_at grant, ps_grant_state = state', ps_binding_state = bs\<rparr>)"

definition snapshot_at :: "(gref \<Rightarrow> 'l grant_record) \<Rightarrow> string \<Rightarrow> 'l room_record \<Rightarrow> duration \<Rightarrow> room_snapshot" where
  "snapshot_at heap room_id room now =
     \<lparr>rs_room_id = room_id, rs_created_at = r_created_at room, rs_expires_at = r_expires_at room,
      rs_capacity = r_capacity room,
      rs_participants = map (\<lambda>g. participant_snapshot_at (heap g) now) (r_grants room)\<rparr>"

section \<open>CreateRoom\<close>

text \<open>The deadlines of the grants, or nothing when one of them is not acceptable.\<close>

fun grant_deadlines :: "limits \<Rightarrow> clock_reading \<Rightarrow> participant_definition list \<Rightarrow> duration list option" where
  "grant_deadlines lims reading [] = Some []"
| "grant_deadlines lims reading (p # ps) =
     (let ttl = time_sub (pd_grant_expires_at p) (wall reading) in
      case deadline_after (mono reading) ttl of
        None \<Rightarrow> None
      | Some d \<Rightarrow>
          if ttl > MaxGrantTTL lims then None
          else (case grant_deadlines lims reading ps of None \<Rightarrow> None | Some ds \<Rightarrow> Some (d # ds)))"

definition new_grant ::
    "'l limiter_api \<Rightarrow> limits \<Rightarrow> string \<Rightarrow> participant_definition \<Rightarrow> duration \<Rightarrow> bytes16 \<Rightarrow> bytes32 \<Rightarrow> 'l grant_record" where
  "new_grant A lims room_id p deadline grant_id secret =
     \<lparr>g_room_id = room_id, g_participant_id = pd_participant_id p, g_session_id = pd_session_id p,
      g_id = grant_id, g_secret = Some secret, g_expires_at = pd_grant_expires_at p,
      g_mono_deadline = deadline, g_state = GrantStateIssued, g_binding_state = BindingStateUnbound,
      g_generation = 0, g_pending = None, g_recent = None, g_binding = None,
      g_ingress_packets = Some (new_limiter A (SessionPacketRate lims) (SessionPacketBurst lims)),
      g_ingress_bytes = Some (new_limiter A (SessionByteRate lims) (SessionByteBurst lims))\<rparr>"

text \<open>The loop that draws an identifier and a secret for each participant.\<close>

fun stage_grants ::
    "'l limiter_api \<Rightarrow> 'l store \<Rightarrow> string \<Rightarrow> bytes16 list \<Rightarrow> (participant_definition \<times> duration) list \<Rightarrow>
     byte list \<Rightarrow> 'l grant_record list option \<times> byte list" where
  "stage_grants A st room_id staged [] src = (Some [], src)"
| "stage_grants A st room_id staged ((p, d) # ps) src =
     (case unique_grant_id st staged src of
        (None, src1) \<Rightarrow> (None, src1)
      | (Some grant_id, src1) \<Rightarrow> (case read_full 32 src1 of
            (None, src2) \<Rightarrow> (None, src2)
          | (Some secret, src2) \<Rightarrow> (case stage_grants A st room_id (grant_id # staged) ps src2 of
                (None, src3) \<Rightarrow> (None, src3)
              | (Some grants, src3) \<Rightarrow>
                  (Some (new_grant A (s_limits st) room_id p d grant_id secret # grants), src3))))"

definition new_room :: "'l limiter_api \<Rightarrow> limits \<Rightarrow> room_definition \<Rightarrow> time \<Rightarrow> duration \<Rightarrow> gref list \<Rightarrow> 'l room_record" where
  "new_room A lims d created deadline grants =
     \<lparr>r_state = roomStateOpen, r_capacity = rd_capacity d, r_created_at = created,
      r_expires_at = rd_expires_at d, r_mono_deadline = deadline, r_grants = grants,
      r_tombstone_deadline = 0,
      r_ingress_packets = Some (new_limiter A (RoomPacketRate lims) (RoomPacketBurst lims)),
      r_ingress_bytes = Some (new_limiter A (RoomByteRate lims) (RoomByteBurst lims)),
      r_fanout_writes = Some (new_limiter A (RoomFanoutWriteRate lims) (RoomFanoutWriteBurst lims)),
      r_fanout_bytes = Some (new_limiter A (RoomFanoutByteRate lims) (RoomFanoutByteBurst lims))\<rparr>"

text \<open>The staged grants get the next free addresses.\<close>

definition alloc_heap :: "gref \<Rightarrow> 'l grant_record list \<Rightarrow> (gref \<Rightarrow> 'l grant_record) \<Rightarrow> gref \<Rightarrow> 'l grant_record" where
  "alloc_heap n grants heap g = (if n \<le> g \<and> g < n + length grants then grants ! (g - n) else heap g)"

definition commit_room :: "string \<Rightarrow> (gref list \<Rightarrow> 'l room_record) \<Rightarrow> 'l grant_record list \<Rightarrow> 'l store \<Rightarrow> 'l store" where
  "commit_room room_id room grants st =
     (let refs = [s_next st ..< s_next st + length grants];
          heap = alloc_heap (s_next st) grants (s_heap st)
      in st\<lparr>s_heap := heap, s_next := s_next st + length grants,
            s_rooms := fmupd room_id (room refs) (s_rooms st),
            s_grants_by_id := fold (\<lambda>g m. m(g_id (heap g) \<mapsto> g)) refs (s_grants_by_id st),
            s_open_rooms := s_open_rooms st + 1,
            s_active_sessions := s_active_sessions st + int (length grants)\<rparr>)"

text \<open>\<open>CreateRoom\<close> once no live record stands under the identifier.\<close>

definition create_fresh ::
    "'l limiter_api \<Rightarrow> string \<Rightarrow> room_definition \<Rightarrow> clock_reading \<Rightarrow> 'l store \<Rightarrow> 'l store \<times> (store_error + allocation \<times> bool)" where
  "create_fresh A room_id canonical reading st =
     (let ttl = time_sub (rd_expires_at canonical) (wall reading) in
      case deadline_after (mono reading) ttl of
        None \<Rightarrow> (st, Inl ErrInvalid)
      | Some room_deadline \<Rightarrow>
          if ttl > MaxRoomTTL (s_limits st) then (st, Inl ErrInvalid)
          else (case grant_deadlines (s_limits st) reading (rd_participants canonical) of
              None \<Rightarrow> (st, Inl ErrInvalid)
            | Some deadlines \<Rightarrow>
                if s_open_rooms st \<ge> MaxOpenRooms (s_limits st) \<or>
                   len_map (s_rooms st) \<ge> MaxRoomRecords (s_limits st) \<or>
                   s_active_sessions st > MaxActiveSessions (s_limits st) - int (length (rd_participants canonical))
                then (st, Inl ErrCapacity)
                else (case stage_grants A st room_id [] (zip (rd_participants canonical) deadlines) (s_random st) of
                    (None, src) \<Rightarrow> (st\<lparr>s_random := src\<rparr>, Inl ErrFatalRandom)
                  | (Some grants, src) \<Rightarrow>
                      (let room = new_room A (s_limits st) canonical (wall reading) room_deadline;
                           st' = commit_room room_id room grants (st\<lparr>s_random := src\<rparr>)
                       in (st', Inr (allocation_at (s_heap st') room_id
                                      (room [s_next st ..< s_next st + length grants]) (mono reading), True))))))"

definition create_room ::
    "'l limiter_api \<Rightarrow> string \<Rightarrow> room_definition \<Rightarrow> clock_reading \<Rightarrow> 'l store \<Rightarrow> 'l store \<times> (store_error + allocation \<times> bool)" where
  "create_room A room_id d reading st =
     (case canonical_definition room_id d (s_limits st) of
        Inl e \<Rightarrow> (st, Inl e)
      | Inr canonical \<Rightarrow> (case fmlookup (s_rooms st) room_id of
            None \<Rightarrow> create_fresh A room_id canonical reading st
          | Some existing \<Rightarrow> (case r_state existing of
                roomStateTombstone \<Rightarrow>
                  if mono reading < r_tombstone_deadline existing then (st, Inl ErrConflict)
                  else create_fresh A room_id canonical reading (st\<lparr>s_rooms := fmdrop room_id (s_rooms st)\<rparr>)
              | roomStateEmpty \<Rightarrow> (st, Inl ErrConflict)
              | roomStateOpen \<Rightarrow>
                  if room_access_terminal (s_heap st) existing (mono reading) \<or>
                     \<not> same_definition (s_heap st) existing canonical
                  then (st, Inl ErrConflict)
                  else (st, Inr (allocation_at (s_heap st) room_id existing (mono reading), False)))))"

section \<open>GetRoom and EndRoom\<close>

definition get_room :: "string \<Rightarrow> clock_reading \<Rightarrow> 'l store \<Rightarrow> store_error + room_snapshot" where
  "get_room room_id reading st =
     (if \<not> valid_id room_id then Inl ErrInvalid
      else (case fmlookup (s_rooms st) room_id of
          None \<Rightarrow> Inl ErrNotFound
        | Some room \<Rightarrow>
            if r_state room \<noteq> roomStateOpen \<or> room_access_terminal (s_heap st) room (mono reading)
            then Inl ErrNotFound
            else Inr (snapshot_at (s_heap st) room_id room (mono reading))))"

definition end_room :: "string \<Rightarrow> clock_reading \<Rightarrow> 'l store \<Rightarrow> 'l store \<times> store_error option" where
  "end_room room_id reading st =
     (if \<not> valid_id room_id then (st, Some ErrInvalid)
      else (case fmlookup (s_rooms st) room_id of
          None \<Rightarrow> (st, None)
        | Some room \<Rightarrow>
            if r_state room = roomStateTombstone
            then (if mono reading \<ge> r_tombstone_deadline room
                  then st\<lparr>s_rooms := fmdrop room_id (s_rooms st)\<rparr> else st, None)
            else (tombstone_room room_id (mono reading) GrantStateRevoked st, None)))"

section \<open>Expire\<close>

definition preauthSourceIdleTTL :: duration where
  "preauthSourceIdleTTL = 60 * second"

definition expire_grant :: "duration \<Rightarrow> gref \<Rightarrow> 'l store \<Rightarrow> 'l store" where
  "expire_grant now g st =
     (let st1 = expire_relay g now st in
      if grant_live (s_heap st1 g) \<and> now \<ge> g_mono_deadline (s_heap st1 g)
      then terminal_grant g GrantStateExpired st1 else st1)"

definition expire_room :: "duration \<Rightarrow> string \<Rightarrow> 'l store \<Rightarrow> 'l store" where
  "expire_room now room_id st = (case fmlookup (s_rooms st) room_id of
     None \<Rightarrow> st
   | Some room \<Rightarrow>
       if r_state room = roomStateTombstone
       then (if now \<ge> r_tombstone_deadline room then st\<lparr>s_rooms := fmdrop room_id (s_rooms st)\<rparr> else st)
       else (let st1 = fold (expire_grant now) (r_grants room) st in
         if now \<ge> r_mono_deadline room then tombstone_room room_id now GrantStateExpired st1
         else (let final_deadline = last_grant_deadline (s_heap st1) room in
           if now < final_deadline then st1
           else (let st2 = (if r_state room = roomStateOpen
                   then st1\<lparr>s_rooms := fmupd room_id (room\<lparr>r_state := roomStateEmpty\<rparr>) (s_rooms st1),
                            s_open_rooms := s_open_rooms st1 - 1\<rparr>
                   else st1)
             in if now \<ge> saturating_add final_deadline (EmptyGrace (s_limits st2))
                then tombstone_room room_id now GrantStateExpired st2 else st2))))"

definition expire_source :: "duration \<Rightarrow> prefix \<Rightarrow> 'l store \<Rightarrow> 'l store" where
  "expire_source now key st = (case fmlookup (s_preauth_sources st) key of
     None \<Rightarrow> st
   | Some source \<Rightarrow>
       if now \<ge> saturating_add (last_observed source) preauthSourceIdleTTL
       then st\<lparr>s_preauth_sources := fmdrop key (s_preauth_sources st)\<rparr> else st)"

definition expire :: "string list \<Rightarrow> prefix list \<Rightarrow> duration \<Rightarrow> 'l store \<Rightarrow> 'l store" where
  "expire room_ids keys now st = fold (expire_source now) keys (fold (expire_room now) room_ids st)"

section \<open>What canonicalDefinition accepts\<close>

lemma participants_valid_iff:
  "participants_valid expires pids sids ps \<longleftrightarrow>
     (\<forall>p \<in> set ps. valid_id (pd_participant_id p) \<and> valid_id (pd_session_id p) \<and>
        pd_grant_expires_at p \<noteq> zero_time \<and> pd_grant_expires_at p \<le> expires) \<and>
     distinct (map pd_participant_id ps) \<and> distinct (map pd_session_id ps) \<and>
     pd_participant_id ` set ps \<inter> set pids = {} \<and> pd_session_id ` set ps \<inter> set sids = {}"
  by (induction expires pids sids ps rule: participants_valid.induct) auto

text \<open>An acceptable definition, for limits that passed \<open>validLimits\<close>.\<close>

definition definition_ok :: "string \<Rightarrow> room_definition \<Rightarrow> bool" where
  "definition_ok room_id d \<longleftrightarrow> valid_id room_id \<and> rd_participants d \<noteq> [] \<and>
     unat (rd_capacity d) = length (rd_participants d) \<and> rd_expires_at d \<noteq> zero_time \<and>
     distinct (map pd_participant_id (rd_participants d)) \<and>
     distinct (map pd_session_id (rd_participants d)) \<and>
     (\<forall>p \<in> set (rd_participants d). valid_id (pd_participant_id p) \<and> valid_id (pd_session_id p) \<and>
        pd_grant_expires_at p \<noteq> zero_time \<and> pd_grant_expires_at p \<le> rd_expires_at d)"

lemma u64_of_capacity:
  assumes "0 < n" and "n \<le> 16"
  shows "uint (word_of_int n :: u64) = n"
  using assms by (simp add: uint_word_of_int)

lemma canonical_definition_Inr_iff:
  assumes "valid_limits lims"
  shows "canonical_definition room_id d lims = Inr c \<longleftrightarrow>
    definition_ok room_id d \<and> int (length (rd_participants d)) \<le> MaxRoomCapacity lims \<and>
    c = d\<lparr>rd_participants := sort_key participant_key (rd_participants d)\<rparr>"
proof -
  have cap: "uint (word_of_int (MaxRoomCapacity lims) :: u64) = MaxRoomCapacity lims"
    using valid_limits_bounds [OF assms] by (intro u64_of_capacity) (simp_all add: hard_limits_def)
  have "uint (rd_capacity d) = int (length (rd_participants d))" if "unat (rd_capacity d) = length (rd_participants d)"
    by (simp flip: that)
  moreover have "rd_capacity d = 0 \<longleftrightarrow> unat (rd_capacity d) = 0" by (simp add: unat_eq_0)
  ultimately show ?thesis
    by (auto simp: canonical_definition_def definition_ok_def participants_valid_iff cap)
qed

lemma sort_key_Nil_iff [simp]: "sort_key f xs = [] \<longleftrightarrow> xs = []"
  by (metis length_0_conv length_sort)

lemma definition_ok_sorted:
  "definition_ok room_id (d\<lparr>rd_participants := sort_key f (rd_participants d)\<rparr>) = definition_ok room_id d"
proof -
  have eq: "distinct (map h (sort_key f xs)) = distinct (map h xs)" for h :: "participant_definition \<Rightarrow> string" and xs
    by (simp add: distinct_map)
  show ?thesis by (simp add: definition_ok_def eq)
qed

section \<open>Staging and committing a room\<close>

lemma unique_id_Some:
  "unique_id n taken src = (Some b, src') \<Longrightarrow> length b = 16 \<and> \<not> taken b"
  by (induction n taken src rule: unique_id.induct)
    (auto split: prod.splits option.splits if_splits dest: read_full_length)

definition staged_ok ::
    "'l limiter_api \<Rightarrow> 'l store \<Rightarrow> string \<Rightarrow> bytes16 list \<Rightarrow> participant_definition \<times> duration \<Rightarrow> 'l grant_record \<Rightarrow> bool" where
  "staged_ok A st room_id staged pd gr \<longleftrightarrow>
     (\<exists>secret. gr = new_grant A (s_limits st) room_id (fst pd) (snd pd) (g_id gr) secret \<and> length secret = 32) \<and>
     length (g_id gr) = 16 \<and> s_grants_by_id st (g_id gr) = None \<and> g_id gr \<notin> set staged"

lemma stage_grants_Some:
  "stage_grants A st room_id staged ps src = (Some grants, src') \<Longrightarrow>
     list_all2 (staged_ok A st room_id staged) ps grants \<and> distinct (map g_id grants)"
proof (induction A st room_id staged ps src arbitrary: grants src' rule: stage_grants.induct)
  case (2 A st room_id staged p d ps src)
  from 2(2) obtain grant_id src1 secret src2 rest where
    i: "unique_grant_id st staged src = (Some grant_id, src1)" and s: "read_full 32 src1 = (Some secret, src2)" and
    r: "stage_grants A st room_id (grant_id # staged) ps src2 = (Some rest, src')" and
    g: "grants = new_grant A (s_limits st) room_id p d grant_id secret # rest"
    by (auto split: prod.splits option.splits)
  have new: "length grant_id = 16" "s_grants_by_id st grant_id = None" "grant_id \<notin> set staged"
    using unique_id_Some [OF i [unfolded unique_grant_id_def]] by auto
  have IH: "list_all2 (staged_ok A st room_id (grant_id # staged)) ps rest \<and> distinct (map g_id rest)"
    using 2(1) [OF i [symmetric] refl s [symmetric] refl r] by simp
  then have "grant_id \<notin> g_id ` set rest"
    by (auto simp: list_all2_conv_all_nth staged_ok_def in_set_conv_nth)
  moreover have "list_all2 (staged_ok A st room_id staged) ps rest"
    using IH by (auto elim: list_all2_mono simp: staged_ok_def)
  moreover have "staged_ok A st room_id staged (p, d) (new_grant A (s_limits st) room_id p d grant_id secret)"
    using new read_full_length [OF s] by (auto simp: staged_ok_def new_grant_def)
  ultimately show ?case
    using IH by (simp add: g new_grant_def)
qed simp

lemma grant_deadlines_Some:
  assumes "grant_deadlines lims reading ps = Some ds" and "in_i64 (mono reading)"
  shows "ds = map (\<lambda>p. mono reading + time_sub (pd_grant_expires_at p) (wall reading)) ps \<and>
    (\<forall>p \<in> set ps. wall reading < pd_grant_expires_at p \<and>
       time_sub (pd_grant_expires_at p) (wall reading) \<le> MaxGrantTTL lims)"
  using assms
proof (induction lims reading ps arbitrary: ds rule: grant_deadlines.induct)
  case (2 lims reading p ps)
  then show ?case
    by (auto simp: Let_def deadline_after_Some_iff [OF 2(3) time_sub_in_range] time_sub_positive_iff
        split: option.splits if_splits)
qed simp

lemma index_fold_upd:
  assumes "distinct (map f xs)"
  shows "fold (\<lambda>g m. m(f g \<mapsto> g)) xs m i = Some g \<longleftrightarrow>
    (g \<in> set xs \<and> f g = i) \<or> (i \<notin> f ` set xs \<and> m i = Some g)"
  using assms by (induction xs arbitrary: m) auto

lemma new_grant_ok:
  shows "grant_ok (new_grant A lims room_id p d i s)" "grant_live (new_grant A lims room_id p d i s)"
    "cands_of (new_grant A lims room_id p d i s) = {}" "binds_of (new_grant A lims room_id p d i s) = {}"
    "g_room_id (new_grant A lims room_id p d i s) = room_id" "g_mono_deadline (new_grant A lims room_id p d i s) = d"
  by (simp_all add: new_grant_def grant_ok_def grant_live_def cands_of_def binds_of_def)

text \<open>Committing staged grants under an identifier that no room has.\<close>

lemma commit_room_inv:
  fixes grants :: "'l grant_record list" and room rid and st :: "'l store"
  defines "st' \<equiv> commit_room rid room grants st" and "refs \<equiv> [s_next st ..< s_next st + length grants]"
  assumes inv: "store_inv st" and free: "fmlookup (s_rooms st) rid = None"
    and R: "room refs = R" "r_grants R = refs" "r_state R = roomStateOpen" "room_ok R"
    and ok: "\<And>gr. gr \<in> set grants \<Longrightarrow> grant_ok gr \<and> grant_live gr \<and> cands_of gr = {} \<and> binds_of gr = {} \<and>
        g_room_id gr = rid \<and> g_mono_deadline gr \<le> r_mono_deadline R \<and> s_grants_by_id st (g_id gr) = None"
    and ids: "distinct (map g_id grants)"
    and caps: "s_open_rooms st < MaxOpenRooms (s_limits st)" "len_map (s_rooms st) < MaxRoomRecords (s_limits st)"
      "s_active_sessions st \<le> MaxActiveSessions (s_limits st) - int (length grants)"
  shows "store_inv st'" "owned st' = owned st \<union> set refs" "\<And>g. g \<notin> set refs \<Longrightarrow> s_heap st' g = s_heap st g"
    "\<And>i. i < length grants \<Longrightarrow> s_heap st' (s_next st + i) = grants ! i"
    "s_rooms st' = fmupd rid R (s_rooms st)"
proof -
  note e = st'_def commit_room_def Let_def refs_def [symmetric] R(1)
  show rooms': "s_rooms st' = fmupd rid R (s_rooms st)" by (simp add: e)
  have heap: "s_heap st' = alloc_heap (s_next st) grants (s_heap st)" by (simp add: e)
  have new: "s_heap st' (s_next st + i) = grants ! i" if "i < length grants" for i
    using that by (simp add: heap alloc_heap_def)
  have old: "s_heap st' g = s_heap st g" if "g \<notin> set refs" for g
    using that by (auto simp: heap alloc_heap_def refs_def)
  show "\<And>g. g \<notin> set refs \<Longrightarrow> s_heap st' g = s_heap st g"
    "\<And>i. i < length grants \<Longrightarrow> s_heap st' (s_next st + i) = grants ! i" using old new by auto
  have fresh: "s_heap st' g \<in> set grants" if "g \<in> set refs" for g
    using that new [of "g - s_next st"] by (auto simp: refs_def)
  have "s_next st' = s_next st + length grants" by (simp add: e)
  then have nxt: "g < s_next st'" if "g \<in> set refs" for g using that by (simp add: refs_def)
  have core: "core_inv st" and rooms: "rooms_inv st" and idx: "index_inv st" using inv by (auto simp: core_inv_def)
  have below: "g < s_next st" if "g \<in> owned st" for g
    using that rooms by (auto simp: owned_def rooms_inv_def room_grant_ok_def)
  have apart: "g \<notin> set refs" if "g \<in> owned st" for g using below [OF that] by (simp add: refs_def)
  show own: "owned st' = owned st \<union> set refs"
  proof (intro set_eqI iffI)
    fix g assume "g \<in> owned st'"
    then obtain r R' where "fmlookup (s_rooms st') r = Some R'" "g \<in> set (r_grants R')" by (auto simp: owned_def)
    then show "g \<in> owned st \<union> set refs" using R(2) by (cases "r = rid") (auto simp: rooms' owned_def)
  next
    fix g assume "g \<in> owned st \<union> set refs"
    then show "g \<in> owned st'"
    proof
      assume "g \<in> owned st"
      then obtain r R' where "fmlookup (s_rooms st) r = Some R'" "g \<in> set (r_grants R')" by (auto simp: owned_def)
      moreover from this free have "r \<noteq> rid" by auto
      ultimately show ?thesis by (intro ownedI [of st' r R']) (simp_all add: rooms')
    qed (use R(2) in \<open>auto intro: ownedI [of st' rid R] simp: rooms'\<close>)
  qed
  have map_ids: "map (\<lambda>g. g_id (s_heap st' g)) refs = map g_id grants"
    by (rule nth_equalityI) (simp_all add: refs_def new)
  have byid: "s_grants_by_id st' = fold (\<lambda>g m. m(g_id (s_heap st' g) \<mapsto> g)) refs (s_grants_by_id st)"
    by (simp add: e alloc_heap_def cong: fold_cong)
  have "rooms_inv st'"
    unfolding rooms_inv_def
  proof (intro allI impI)
    fix r R' assume look: "fmlookup (s_rooms st') r = Some R'"
    show "room_ok R' \<and> (\<forall>g \<in> set (r_grants R'). room_grant_ok st' r R' g)"
    proof (cases "r = rid")
      case True
      with look have "R' = R" by (simp add: rooms')
      then show ?thesis
        using R(2-4) ok [OF fresh] nxt True by (simp add: room_grant_ok_def)
    next
      case False
      with look have l: "fmlookup (s_rooms st) r = Some R'" by (simp add: rooms')
      have "s_heap st' g = s_heap st g" if "g \<in> set (r_grants R')" for g
        using old apart ownedI [OF l that] by blast
      moreover have "s_next st \<le> s_next st'" by (simp add: e)
      ultimately show ?thesis using rooms l by (fastforce simp: rooms_inv_def room_grant_ok_def)
    qed
  qed
  moreover have "\<forall>g \<in> owned st'. grant_ok (s_heap st' g)"
    using core ok fresh old apart by (auto simp: own core_inv_def)
  moreover have "index_inv st'"
    unfolding index_inv_def
  proof (intro conjI allI impI)
    have same: "s_candidates_by_id st' = s_candidates_by_id st" "s_bindings_by_id st' = s_bindings_by_id st"
      by (simp_all add: e)
    fix c g
    show "s_candidates_by_id st' c = Some g \<longleftrightarrow> g \<in> owned st' \<and> c \<in> cands_of (s_heap st' g)"
      "s_bindings_by_id st' c = Some g \<longleftrightarrow> g \<in> owned st' \<and> c \<in> binds_of (s_heap st' g)"
      using index_invD(1,2) [OF idx] ok fresh [of g] old [of g] apart [of g]
      by (cases "g \<in> set refs"; force simp: own same)+
  next
    fix i g assume "s_grants_by_id st' i = Some g"
    then have "(g \<in> set refs \<and> g_id (s_heap st' g) = i) \<or> s_grants_by_id st i = Some g"
      unfolding byid using index_fold_upd [of "\<lambda>g. g_id (s_heap st' g)" refs] ids map_ids by auto
    then show "g \<in> owned st'" "grant_live (s_heap st' g)" "g_id (s_heap st' g) = i"
      using ok fresh [of g] index_invD(3) [OF idx, of i g] old [of g] apart [of g] by (auto simp: own)
  qed
  moreover have live: "live_grants st' = live_grants st \<union> set refs"
    using ok fresh old apart by (auto simp: live_grants_def own)
  then have "card (live_grants st') = card (live_grants st) + length grants"
    using apart card_Un_disjoint [of "live_grants st" "set refs"]
    by (auto simp: live_grants_def refs_def disjoint_iff)
  then have "s_active_sessions st' = int (card (live_grants st'))"
    using core by (simp add: core_inv_def e)
  ultimately have core': "core_inv st'" by (simp add: core_inv_def)
  have "open_room_ids st' = insert rid (open_room_ids st)" "rid \<notin> open_room_ids st"
    using free R(3) by (auto simp: open_room_ids_def rooms')
  then have "s_open_rooms st' = int (card (open_room_ids st'))"
    using inv by (simp add: store_inv_def e)
  moreover have "s_limits st' = s_limits st" "s_preauth_sources st' = s_preauth_sources st"
    "s_open_rooms st' = s_open_rooms st + 1" "s_active_sessions st' = s_active_sessions st + int (length grants)"
    by (simp_all add: e)
  ultimately show "store_inv st'"
    using core' inv caps free by (simp add: store_inv_def rooms' len_map_fmupd)
qed

section \<open>CreateRoom keeps the invariant\<close>

definition reading_ok :: "clock_reading \<Rightarrow> bool" where
  "reading_ok reading \<longleftrightarrow> in_i64 (mono reading)"

lemma list_all2_in_set2: "list_all2 P xs ys \<Longrightarrow> y \<in> set ys \<Longrightarrow> \<exists>x \<in> set xs. P x y"
  by (induction rule: list_all2_induct) auto

text \<open>The staged grants and the deadline a successful \<open>CreateRoom\<close> commits.\<close>

definition commits ::
    "'l limiter_api \<Rightarrow> string \<Rightarrow> room_definition \<Rightarrow> clock_reading \<Rightarrow> 'l store \<Rightarrow> duration \<Rightarrow> 'l grant_record list \<Rightarrow> bool" where
  "commits A rid c reading st rd grants \<longleftrightarrow>
     rd = mono reading + time_sub (rd_expires_at c) (wall reading) \<and> wall reading < rd_expires_at c \<and>
     time_sub (rd_expires_at c) (wall reading) \<le> MaxRoomTTL (s_limits st) \<and>
     (\<forall>p \<in> set (rd_participants c). wall reading < pd_grant_expires_at p \<and>
        time_sub (pd_grant_expires_at p) (wall reading) \<le> MaxGrantTTL (s_limits st)) \<and>
     list_all2 (staged_ok A st rid [])
       (map (\<lambda>p. (p, mono reading + time_sub (pd_grant_expires_at p) (wall reading))) (rd_participants c)) grants \<and>
     distinct (map g_id grants) \<and>
     s_open_rooms st < MaxOpenRooms (s_limits st) \<and> len_map (s_rooms st) < MaxRoomRecords (s_limits st) \<and>
     s_active_sessions st \<le> MaxActiveSessions (s_limits st) - int (length grants)"

lemma create_fresh_success:
  assumes "create_fresh A rid c reading st = (st', Inr (al, new))" and "reading_ok reading"
  shows "\<exists>rd grants src. commits A rid c reading st rd grants \<and>
    st' = commit_room rid (new_room A (s_limits st) c (wall reading) rd) grants (st\<lparr>s_random := src\<rparr>) \<and>
    al = allocation_at (s_heap st') rid (new_room A (s_limits st) c (wall reading) rd
       [s_next st ..< s_next st + length grants]) (mono reading) \<and> new"
proof -
  note da = deadline_after_Some_iff [OF assms(2) [unfolded reading_ok_def] time_sub_in_range]
  obtain rd ds grants src where rd: "deadline_after (mono reading) (time_sub (rd_expires_at c) (wall reading)) = Some rd"
    and ttl: "time_sub (rd_expires_at c) (wall reading) \<le> MaxRoomTTL (s_limits st)"
    and ds: "grant_deadlines (s_limits st) reading (rd_participants c) = Some ds"
    and caps: "s_open_rooms st < MaxOpenRooms (s_limits st)" "len_map (s_rooms st) < MaxRoomRecords (s_limits st)"
      "s_active_sessions st \<le> MaxActiveSessions (s_limits st) - int (length (rd_participants c))"
    and stage: "stage_grants A st rid [] (zip (rd_participants c) ds) (s_random st) = (Some grants, src)"
    and res: "st' = commit_room rid (new_room A (s_limits st) c (wall reading) rd) grants (st\<lparr>s_random := src\<rparr>)"
      "al = allocation_at (s_heap st') rid (new_room A (s_limits st) c (wall reading) rd
         [s_next st ..< s_next st + length grants]) (mono reading)" "new"
    using assms(1)
    by (auto simp: create_fresh_def Let_def not_le split: option.splits if_splits prod.splits)
  note gd = grant_deadlines_Some [OF ds assms(2) [unfolded reading_ok_def]]
  have zip: "zip (rd_participants c) ds =
      map (\<lambda>p. (p, mono reading + time_sub (pd_grant_expires_at p) (wall reading))) (rd_participants c)"
    using gd by (simp add: zip_map2 zip_same_conv_map)
  note st = stage_grants_Some [OF stage, unfolded zip]
  then have "length grants = length (rd_participants c)" by (auto dest: list_all2_lengthD)
  with rd ttl gd caps st have "commits A rid c reading st rd grants"
    unfolding da commits_def by (simp add: time_sub_positive_iff)
  with res show ?thesis by blast
qed

text \<open>The room that a successful \<open>CreateRoom\<close> commits.\<close>

lemma create_fresh_failure:
  "create_fresh A rid c reading st = (st', Inl e) \<Longrightarrow> \<exists>src. st' = st\<lparr>s_random := src\<rparr>"
  by (auto simp: create_fresh_def Let_def split: option.splits if_splits prod.splits)
    (metis store.surjective store.update_convs(3))+

lemma create_fresh_inv:
  assumes inv: "store_inv st" and free: "fmlookup (s_rooms st) rid = None"
    and ok: "definition_ok rid c" and r: "reading_ok reading"
    and cf: "create_fresh A rid c reading st = (st', res)"
  shows "store_inv st'"
proof (cases res)
  case (Inl e)
  with cf have "\<exists>src. st' = st\<lparr>s_random := src\<rparr>" by (simp add: create_fresh_failure)
  with inv show ?thesis by auto
next
  case (Inr b)
  then obtain al new where b: "res = Inr (al, new)" by (cases b) auto
  from create_fresh_success [OF cf [unfolded b] r] obtain rd grants src where
    com: "commits A rid c reading st rd grants"
    and st': "st' = commit_room rid (new_room A (s_limits st) c (wall reading) rd) grants (st\<lparr>s_random := src\<rparr>)"
    by blast
  note stg = com [unfolded commits_def, THEN conjunct2, THEN conjunct2, THEN conjunct2, THEN conjunct2, THEN conjunct1]
  from com have rd: "rd = mono reading + time_sub (rd_expires_at c) (wall reading)" and ids: "distinct (map g_id grants)"
    and caps: "s_open_rooms st < MaxOpenRooms (s_limits st)" "len_map (s_rooms st) < MaxRoomRecords (s_limits st)"
    "s_active_sessions st \<le> MaxActiveSessions (s_limits st) - int (length grants)"
    by (simp_all only: commits_def)
  let ?st = "st\<lparr>s_random := src\<rparr>"
  let ?room = "new_room A (s_limits st) c (wall reading) rd"
  have inv': "store_inv ?st" using inv by simp
  have len: "length grants = length (rd_participants c)" using list_all2_lengthD [OF stg] by simp
  have each: "grant_ok gr \<and> grant_live gr \<and> cands_of gr = {} \<and> binds_of gr = {} \<and>
      g_room_id gr = rid \<and> g_mono_deadline gr \<le> r_mono_deadline (?room refs) \<and> s_grants_by_id ?st (g_id gr) = None"
    if gr: "gr \<in> set grants" for gr and refs :: "gref list"
  proof -
    from gr stg obtain p where p: "p \<in> set (rd_participants c)"
      "staged_ok A st rid [] (p, mono reading + time_sub (pd_grant_expires_at p) (wall reading)) gr"
      using list_all2_in_set2 [OF stg gr] by auto
    have "pd_grant_expires_at p \<le> rd_expires_at c" using ok p(1) by (simp add: definition_ok_def)
    then have "time_sub (pd_grant_expires_at p) (wall reading) \<le> time_sub (rd_expires_at c) (wall reading)"
      by (auto simp: time_sub_def)
    moreover from p(2) obtain i secret where gr': "gr = new_grant A (s_limits st) rid p
        (mono reading + time_sub (pd_grant_expires_at p) (wall reading)) i secret" and "s_grants_by_id st (g_id gr) = None"
      by (auto simp: staged_ok_def)
    ultimately show ?thesis
      by (simp add: new_grant_ok [folded gr'] new_room_def rd)
  qed
  have "room_ok (?room [s_next ?st ..< s_next ?st + length grants])"
    using ok len by (auto simp: room_ok_def new_room_def definition_ok_def)
  then show ?thesis
    unfolding st' using caps free
    by (intro commit_room_inv(1) [OF inv' _ refl _ _ _ each ids]) (simp_all add: new_room_def)
qed

lemma create_room_inv:
  assumes inv: "store_inv st" and r: "reading_ok reading" and cr: "create_room A rid d reading st = (st', res)"
  shows "store_inv st'"
proof (cases "canonical_definition rid d (s_limits st)")
  case (Inl e)
  with cr inv show ?thesis by (simp add: create_room_def)
next
  case (Inr c)
  have ok: "definition_ok rid c"
    using Inr inv by (auto simp: canonical_definition_Inr_iff store_inv_def definition_ok_sorted)
  show ?thesis
  proof (cases "fmlookup (s_rooms st) rid")
    case None
    then show ?thesis using cr create_fresh_inv [OF inv None ok r] by (simp add: create_room_def Inr)
  next
    case (Some R)
    consider "st' = st" | "r_state R = roomStateTombstone"
        "create_fresh A rid c reading (st\<lparr>s_rooms := fmdrop rid (s_rooms st)\<rparr>) = (st', res)"
      using cr by (auto simp: create_room_def Inr Some split: room_state.splits if_splits)
    then show ?thesis
    proof cases
      case 2
      then show ?thesis
        using create_fresh_inv [OF drop_tombstone_store_inv(1) [OF inv Some 2(1)] _ ok r] by simp
    qed (simp add: inv)
  qed
qed

section \<open>Expire keeps the invariant\<close>

text \<open>What the sweep does to one grant.\<close>

definition expired_by :: "duration \<Rightarrow> 'l grant_record \<Rightarrow> 'l grant_record \<Rightarrow> bool" where
  "expired_by now gr gr' \<longleftrightarrow>
     (grant_live gr' \<longleftrightarrow> grant_live gr \<and> now < g_mono_deadline gr) \<and>
     (\<not> grant_live gr' \<longrightarrow> g_state gr' = (if grant_live gr then GrantStateExpired else g_state gr))"

lemma expire_grant_step:
  assumes inv: "core_inv st" and own: "g \<in> owned st"
  shows "core_inv (expire_grant now g st) \<and> grants_local {g} st (expire_grant now g st) \<and>
    expired_by now (s_heap st g) (s_heap (expire_grant now g st) g)"
proof -
  define st1 where "st1 = expire_relay g now st"
  have loc: "grants_local {g} st st1"
    unfolding st1_def by (rule grant_local_grants_local [OF expire_relay_local]) simp
  have 1: "core_inv st1" "g \<in> owned st1"
    using expire_relay_core_inv [OF inv own] own grants_local_fields(11) [OF loc] by (simp_all add: st1_def)
  note f = expire_relay_fields(3,4) [OF inv own, of now, folded st1_def]
  have dl: "g_mono_deadline (s_heap st1 g) = g_mono_deadline (s_heap st g)"
    using grants_local_fields(9) [OF loc, of g] by (simp add: same_identity_def)
  show ?thesis
  proof (cases "grant_live (s_heap st g) \<and> now \<ge> g_mono_deadline (s_heap st g)")
    case True
    then have "expire_grant now g st = terminal_grant g GrantStateExpired st1"
      by (simp add: expire_grant_def st1_def [symmetric] f dl)
    then show ?thesis
      using terminal_grant_step [OF 1, of GrantStateExpired] loc True f
      by (auto simp: expired_by_def ended_as_def intro: grants_local_trans)
  next
    case False
    then have "expire_grant now g st = st1" by (auto simp: expire_grant_def st1_def [symmetric] f dl)
    then show ?thesis using 1 loc False f by (auto simp: expired_by_def)
  qed
qed

interpretation sweeping: grant_sweep "expire_grant now" "expired_by now" for now
  by unfold_locales (simp_all add: expire_grant_step)

lemma empty_room_store_inv:
  assumes inv: "store_inv st" and R: "fmlookup (s_rooms st) rid = Some R" "r_state R = roomStateOpen"
    and dead: "\<And>g. g \<in> set (r_grants R) \<Longrightarrow> \<not> grant_live (s_heap st g)"
  defines "st' \<equiv> st\<lparr>s_rooms := fmupd rid (R\<lparr>r_state := roomStateEmpty\<rparr>) (s_rooms st), s_open_rooms := s_open_rooms st - 1\<rparr>"
  shows "store_inv st'"
proof -
  have core: "core_inv st" and rooms: "rooms_inv st" and idx: "index_inv st" using inv by (auto simp: core_inv_def)
  have own: "owned st' = owned st"
    by (rule owned_same_grants [OF R(1), of st' "R\<lparr>r_state := roomStateEmpty\<rparr>"]) (simp_all add: st'_def)
  have "room_ok R" using rooms R(1) by (simp add: rooms_inv_def)
  then have "room_ok (R\<lparr>r_state := roomStateEmpty\<rparr>)" using R(2) by (simp add: room_ok_def)
  moreover have "room_grant_ok st' rid (R\<lparr>r_state := roomStateEmpty\<rparr>) g" if "g \<in> set (r_grants R)" for g
    using rooms R(1) that dead [OF that] by (auto simp: rooms_inv_def room_grant_ok_def st'_def)
  moreover have "room_grant_ok st' r R' g" if "room_grant_ok st r R' g" for r R' g
    using that by (simp add: room_grant_ok_def st'_def)
  ultimately have "rooms_inv st'" using rooms by (simp add: rooms_inv_def st'_def split: if_splits)
  moreover have "s_heap st' = s_heap st" "s_grants_by_id st' = s_grants_by_id st"
    "s_candidates_by_id st' = s_candidates_by_id st" "s_bindings_by_id st' = s_bindings_by_id st"
    "s_active_sessions st' = s_active_sessions st" by (simp_all add: st'_def)
  ultimately have core': "core_inv st'"
    using core by (simp add: core_inv_def index_inv_def live_grants_def own)
  have "open_room_ids st' = open_room_ids st - {rid}" "rid \<in> open_room_ids st"
    using R by (auto simp: open_room_ids_def st'_def split: if_splits)
  then have "int (card (open_room_ids st')) = int (card (open_room_ids st)) - 1"
    using card_Suc_Diff1 [of "open_room_ids st" rid] by simp
  with core' inv R show ?thesis by (simp add: store_inv_def st'_def len_map_fmupd)
qed

section \<open>What the sweep does to one room\<close>

text \<open>The record a sweep at \<open>now\<close> leaves for a room.\<close>

definition swept_room :: "limits \<Rightarrow> (gref \<Rightarrow> 'l grant_record) \<Rightarrow> duration \<Rightarrow> 'l room_record \<Rightarrow> 'l room_record option" where
  "swept_room lims heap now R =
     (let last = last_grant_deadline heap R in
      if r_state R = roomStateTombstone then (if now \<ge> r_tombstone_deadline R then None else Some R)
      else if now \<ge> r_mono_deadline R \<or> (now \<ge> last \<and> now \<ge> saturating_add last (EmptyGrace lims))
      then Some (tombstone_record (saturating_add now (TombstoneTTL lims)))
      else if now \<ge> last then Some (R\<lparr>r_state := roomStateEmpty\<rparr>) else Some R)"

lemma last_grant_deadline_cong:
  assumes "\<And>g. g \<in> set (r_grants R) \<Longrightarrow> g_mono_deadline (h g) = g_mono_deadline (h' g)"
  shows "last_grant_deadline h R = last_grant_deadline h' R"
proof (cases "r_grants R = []")
  case False
  then show ?thesis using assms by (simp add: last_grant_deadline_Max cong: image_cong)
qed (simp add: last_grant_deadline_def)

lemma swept_room_cong:
  assumes "\<And>g. same_identity (h g) (h' g)"
  shows "swept_room lims h now R = swept_room lims h' now R"
proof -
  have "last_grant_deadline h R = last_grant_deadline h' R"
    using assms by (intro last_grant_deadline_cong) (simp add: same_identity_def)
  then show ?thesis by (simp add: swept_room_def)
qed

text \<open>The frame of a sweep over one room: other rooms and their grants keep as they are.\<close>

definition room_step :: "string \<Rightarrow> 'l store \<Rightarrow> 'l store \<Rightarrow> bool" where
  "room_step rid st st' \<longleftrightarrow> store_inv st' \<and> s_limits st' = s_limits st \<and> s_preauth_sources st' = s_preauth_sources st \<and>
     s_self st' = s_self st \<and>
     (\<forall>r. r \<noteq> rid \<longrightarrow> fmlookup (s_rooms st') r = fmlookup (s_rooms st) r) \<and>
     (\<forall>g. g_room_id (s_heap st g) \<noteq> rid \<longrightarrow> s_heap st' g = s_heap st g) \<and>
     (\<forall>g. same_identity (s_heap st g) (s_heap st' g))"

lemma expire_room_spec:
  assumes inv: "store_inv st"
  shows "room_step rid st (expire_room now rid st) \<and>
    fmlookup (s_rooms (expire_room now rid st)) rid =
      Option.bind (fmlookup (s_rooms st) rid) (swept_room (s_limits st) (s_heap st) now) \<and>
    (\<forall>R. fmlookup (s_rooms st) rid = Some R \<longrightarrow> (\<forall>g \<in> set (r_grants R).
       grant_live (s_heap (expire_room now rid st) g) \<longleftrightarrow>
         grant_live (s_heap st g) \<and> now < g_mono_deadline (s_heap st g) \<and> now < r_mono_deadline R))"
proof (cases "fmlookup (s_rooms st) rid")
  case None
  then show ?thesis using inv by (simp add: expire_room_def room_step_def)
next
  case (Some R)
  note rooms = core_inv_rooms [OF store_inv_core [OF inv]]
  have ok: "room_ok R" "\<And>g. g \<in> set (r_grants R) \<Longrightarrow> room_grant_ok st rid R g"
    using rooms Some by (auto simp: rooms_inv_def)
  show ?thesis
  proof (cases "r_state R = roomStateTombstone")
    case True
    then have "r_grants R = []" using ok(1) by (simp add: room_ok_def)
    then show ?thesis
      using True inv Some drop_tombstone_store_inv(1) [OF inv Some True]
      by (simp add: expire_room_def room_step_def swept_room_def)
  next
    case False
    let ?last = "last_grant_deadline (s_heap st) R"
    define st1 where "st1 = fold (expire_grant now) (r_grants R) st"
    have dist: "distinct (r_grants R)" "set (r_grants R) \<subseteq> owned st" "r_grants R \<noteq> []"
      using ok(1) False Some by (auto simp: room_ok_def owned_def)
    have one: "core_inv st1" "grants_local (set (r_grants R)) st st1"
      "\<forall>g \<in> set (r_grants R). expired_by now (s_heap st g) (s_heap st1 g)"
      using sweeping.sweep [OF store_inv_core [OF inv] dist(2,1), of now] by (simp_all add: st1_def)
    note f = grants_local_fields [OF one(2)]
    have inv1: "store_inv st1" using grants_local_store_inv [OF one(2,1) inv] .
    have R1: "fmlookup (s_rooms st1) rid = Some R" by (simp add: f Some)
    have last1: "last_grant_deadline (s_heap st1) R = ?last"
      using f(9) by (intro last_grant_deadline_cong) (simp add: same_identity_def)
    have own: "g \<notin> set (r_grants R)" if "g_room_id (s_heap st g) \<noteq> rid" for g
      using that ok(2) by (auto simp: room_grant_ok_def)
    have step1: "room_step rid st st1"
      using inv1 f own by (simp add: room_step_def)
    have dl: "g_mono_deadline (s_heap st g) \<le> r_mono_deadline R" if "g \<in> set (r_grants R)" for g
      using ok(2) [OF that] by (simp add: room_grant_ok_def)
    have live1: "grant_live (s_heap st1 g) \<longleftrightarrow> grant_live (s_heap st g) \<and> now < g_mono_deadline (s_heap st g)"
      if "g \<in> set (r_grants R)" for g
      using one(3) that by (simp add: expired_by_def)
    have retire: "room_step rid st (tombstone_room rid now GrantStateExpired st2) \<and>
        fmlookup (s_rooms (tombstone_room rid now GrantStateExpired st2)) rid =
          Some (tombstone_record (saturating_add now (TombstoneTTL (s_limits st)))) \<and>
        (\<forall>g \<in> set (r_grants R). \<not> grant_live (s_heap (tombstone_room rid now GrantStateExpired st2) g))"
      if st2: "room_step rid st st2" "fmlookup (s_rooms st2) rid = Some R2" "r_grants R2 = r_grants R"
        "r_state R2 \<noteq> roomStateTombstone" for st2 R2
    proof -
      have "store_inv st2" using st2(1) by (simp add: room_step_def)
      note t = tombstone_room_spec [where now = now, OF this st2(2,4) terminal_state_simps(1), unfolded st2(3)]
      have "same_identity (s_heap st g) (s_heap (tombstone_room rid now GrantStateExpired st2) g)" for g
        using st2(1) t(7) [of g] same_identity_trans [of "s_heap st g" "s_heap st2 g"] by (simp add: room_step_def)
      then show ?thesis using st2(1) t own by (simp add: room_step_def)
    qed
    show ?thesis
    proof (cases "now \<ge> r_mono_deadline R")
      case True
      then have "expire_room now rid st = tombstone_room rid now GrantStateExpired st1"
        using Some False by (simp add: expire_room_def st1_def [symmetric] Let_def)
      then show ?thesis
        using retire [OF step1 R1 refl False] True False Some by (simp add: swept_room_def)
    next
      case early: False
      have live': "now < r_mono_deadline R" using early by simp
      show ?thesis
      proof (cases "now < ?last")
        case True
        then have "expire_room now rid st = st1"
          using Some False early by (simp add: expire_room_def st1_def [symmetric] Let_def last1)
        then show ?thesis
          using step1 R1 True False early Some live1 by (simp add: swept_room_def)
      next
        case late: False
        then have over: "g_mono_deadline (s_heap st g) \<le> now" if "g \<in> set (r_grants R)" for g
          using last_grant_deadline_le_iff [OF dist(3), of "s_heap st" now] that by simp
        define st2 where "st2 = (if r_state R = roomStateOpen
            then st1\<lparr>s_rooms := fmupd rid (R\<lparr>r_state := roomStateEmpty\<rparr>) (s_rooms st1), s_open_rooms := s_open_rooms st1 - 1\<rparr>
            else st1)"
        have R2: "fmlookup (s_rooms st2) rid = Some (R\<lparr>r_state := roomStateEmpty\<rparr>)"
          using False R1 by (cases "r_state R") (simp_all add: st2_def)
        have dead1: "\<not> grant_live (s_heap st1 g)" if "g \<in> set (r_grants R)" for g
          using live1 [OF that] over [OF that] by simp
        have "store_inv st2"
          using inv1 empty_room_store_inv [OF inv1 R1 _ dead1] by (simp add: st2_def)
        then have step2: "room_step rid st st2"
          using step1 by (simp add: room_step_def st2_def)
        have heap2: "s_heap st2 = s_heap st1" "s_limits st2 = s_limits st" by (simp_all add: st2_def f)
        have "expire_room now rid st = (if now \<ge> saturating_add ?last (EmptyGrace (s_limits st))
            then tombstone_room rid now GrantStateExpired st2 else st2)"
          using Some False early late
          by (simp add: expire_room_def st1_def [symmetric] Let_def last1 st2_def [symmetric] heap2)
        then show ?thesis
          using retire [OF step2 R2] step2 R2 False early late Some live1
          by (auto simp: swept_room_def heap2 dest: over)
      qed
    qed
  qed
qed

end
