(* ===== verification/Room_Contract.thy ===== *)
theory Room_Contract
  imports Store_Rooms
begin

text \<open>
  What the room operations promise: \<open>CreateRoom\<close> commits a canonical room all at once and is
  idempotent, a failure commits nothing, \<open>EndRoom\<close> revokes everything and quarantines the
  identifier, and the sweep of \<open>Expire\<close> does the same to every room whatever the order in which it
  meets them.
\<close>

section \<open>A room for the witnesses\<close>

definition demo_definition :: room_definition where
  "demo_definition = \<lparr>rd_capacity = 2, rd_expires_at = 60 * second,
     rd_participants = [\<lparr>pd_participant_id = ''b'', pd_session_id = ''s2'', pd_grant_expires_at = 30 * second\<rparr>,
       \<lparr>pd_participant_id = ''a'', pd_session_id = ''s1'', pd_grant_expires_at = 60 * second\<rparr>]\<rparr>"

definition demo_at :: "duration \<Rightarrow> clock_reading" where
  "demo_at t = \<lparr>wall = t, mono = t\<rparr>"

definition demo_start :: "(int \<times> int) store" where
  "demo_start = (case store_new bucket 0 default_limits (map of_nat [0..<200]) of Inr st \<Rightarrow> st)"

definition demo_open :: "(int \<times> int) store" where
  "demo_open = fst (create_room bucket ''room'' demo_definition (demo_at 0) demo_start)"

lemma store_new_inv:
  assumes "store_new A self lims random = Inr st"
  shows "store_inv st"
proof -
  have f: "s_rooms st = fmempty" "s_limits st = lims" "s_candidates_by_id st = Map.empty" "s_bindings_by_id st = Map.empty"
    "s_grants_by_id st = Map.empty" "s_preauth_sources st = fmempty" "s_open_rooms st = 0" "s_active_sessions st = 0"
    and lims: "valid_limits lims"
    using assms by (auto simp: store_new_def split: if_splits)
  have own: "owned st = {}" "open_room_ids st = {}" by (simp_all add: owned_def open_room_ids_def f)
  have "core_inv st" by (simp add: core_inv_def rooms_inv_def index_inv_def live_grants_def own f)
  then show ?thesis
    using valid_limits_bounds(1,3,7) [OF lims] by (simp add: store_inv_def own f lims HardMaxPreauthSources_def)
qed

lemma demo_reading_ok [simp]: "in_i64 t \<Longrightarrow> reading_ok (demo_at t)"
  by (simp add: reading_ok_def demo_at_def)

lemma demo_start_inv: "store_inv demo_start"
proof -
  have "store_new bucket 0 default_limits (map of_nat [0..<200]) = Inr demo_start"
    by (simp add: demo_start_def store_new_def valid_default_limits)
  then show ?thesis by (rule store_new_inv)
qed

lemma demo_open_inv: "store_inv demo_open"
  using create_room_inv [OF demo_start_inv, of "demo_at 0" bucket "''room''" demo_definition]
  by (simp add: demo_open_def in_i64_def prod_eq_iff)

lemma demo_created:
  "\<exists>st' al. create_room bucket ''room'' demo_definition (demo_at 0) demo_start = (st', Inr (al, True))"
proof -
  have "(case snd (create_room bucket ''room'' demo_definition (demo_at 0) demo_start) of
      Inr (al, new) \<Rightarrow> new | Inl e \<Rightarrow> False)" by code_simp
  then show ?thesis by (auto split: sum.splits) (metis prod.collapse)
qed

section \<open>CreateRoom: what it promises\<close>

lemma new_grant_allocation:
  assumes "now < d"
  shows "grant_allocation_at (new_grant A lims rid p d i s) now =
    \<lparr>ga_participant_id = pd_participant_id p, ga_session_id = pd_session_id p, ga_grant_id = i,
     ga_grant_secret = Some s, ga_grant_expires_at = pd_grant_expires_at p, ga_state = GrantStateIssued\<rparr>"
  using assms by (simp add: grant_allocation_at_def new_grant_def grant_state_at_def grant_live_def)

text \<open>A created room: the committed grants, and the allocation that lists them.\<close>

lemma create_room_success:
  assumes inv: "store_inv st" and r: "reading_ok reading"
    and cr: "create_room A rid d reading st = (st', Inr (al, True))"
  shows "\<exists>c st0 rd grants src. canonical_definition rid d (s_limits st) = Inr c \<and>
    st0 = st\<lparr>s_rooms := fmdrop rid (s_rooms st)\<rparr> \<and> store_inv st0 \<and> commits A rid c reading st0 rd grants \<and>
    st' = commit_room rid (new_room A (s_limits st) c (wall reading) rd) grants (st0\<lparr>s_random := src\<rparr>) \<and>
    al = allocation_at (s_heap st') rid (new_room A (s_limits st) c (wall reading) rd
       [s_next st ..< s_next st + length grants]) (mono reading)"
proof (cases "canonical_definition rid d (s_limits st)")
  case (Inl e)
  with cr show ?thesis by (simp add: create_room_def)
next
  case (Inr c)
  let ?st0 = "st\<lparr>s_rooms := fmdrop rid (s_rooms st)\<rparr>"
  have fresh: "create_fresh A rid c reading ?st0 = (st', Inr (al, True)) \<and> store_inv ?st0"
  proof (cases "fmlookup (s_rooms st) rid")
    case None
    then have "fmdrop rid (s_rooms st) = s_rooms st" by (intro fmap_ext) auto
    then have "?st0 = st" by simp
    then show ?thesis using cr inv by (simp add: create_room_def Inr None)
  next
    case (Some R)
    then have t: "r_state R = roomStateTombstone"
      using cr by (auto simp: create_room_def Inr split: room_state.splits if_splits)
    then show ?thesis
      using cr Some drop_tombstone_store_inv(1) [OF inv Some t] by (auto simp: create_room_def Inr split: if_splits)
  qed
  then show ?thesis using create_fresh_success [OF conjunct1 [OF fresh] r] Inr by auto
qed

lemma created_heap:
  fixes grants room st0 src rid
  defines "st' \<equiv> commit_room rid room grants (st0\<lparr>s_random := src\<rparr>)"
  shows "map (s_heap st') [s_next st0 ..< s_next st0 + length grants] = grants"
    and "s_rooms st' = fmupd rid (room [s_next st0 ..< s_next st0 + length grants]) (s_rooms st0)"
    and "s_open_rooms st' = s_open_rooms st0 + 1" and "s_limits st' = s_limits st0"
    and "s_active_sessions st' = s_active_sessions st0 + int (length grants)"
  by (auto simp: st'_def commit_room_def Let_def alloc_heap_def intro: nth_equalityI)

lemma map_map2_left:
  assumes "length xs = length ys" and "\<And>x y. f (h x y) = k x"
  shows "map f (map2 h xs ys) = map k xs"
  using assms(1) by (induction xs ys rule: list_induct2) (simp_all add: assms(2))

lemma map_map2_right:
  assumes "length xs = length ys" and "\<And>x y. f (h x y) = k y"
  shows "map f (map2 h xs ys) = map k ys"
  using assms(1) by (induction xs ys rule: list_induct2) (simp_all add: assms(2))

text \<open>The allocation at any reading before the first grant deadline.\<close>

lemma created_allocation:
  assumes "commits A rid c reading st0 rd grants"
    and "\<forall>p \<in> set (rd_participants c). now < mono reading + time_sub (pd_grant_expires_at p) (wall reading)"
  shows "map (\<lambda>gr. grant_allocation_at gr now) grants = map2 (\<lambda>p gr.
     \<lparr>ga_participant_id = pd_participant_id p, ga_session_id = pd_session_id p, ga_grant_id = g_id gr,
      ga_grant_secret = g_secret gr, ga_grant_expires_at = pd_grant_expires_at p, ga_state = GrantStateIssued\<rparr>)
     (rd_participants c) grants" (is "?lhs = ?rhs")
proof -
  have stg: "list_all2 (staged_ok A st0 rid [])
     (map (\<lambda>p. (p, mono reading + time_sub (pd_grant_expires_at p) (wall reading))) (rd_participants c)) grants"
    using assms(1) by (simp only: commits_def)
  then have len: "length (rd_participants c) = length grants" by (auto dest: list_all2_lengthD)
  show ?thesis
  proof (rule nth_equalityI)
    fix i assume "i < length ?lhs"
    then have i: "i < length grants" "i < length (rd_participants c)" using len by simp_all
    let ?p = "rd_participants c ! i"
    have "staged_ok A st0 rid [] (?p, mono reading + time_sub (pd_grant_expires_at ?p) (wall reading)) (grants ! i)"
      using list_all2_nthD2 [OF stg i(1)] i by simp
    then obtain j s where gr: "grants ! i = new_grant A (s_limits st0) rid ?p
        (mono reading + time_sub (pd_grant_expires_at ?p) (wall reading)) j s"
      by (auto simp: staged_ok_def)
    have "now < mono reading + time_sub (pd_grant_expires_at ?p) (wall reading)" using assms(2) i by simp
    note this [THEN new_grant_allocation, of A "s_limits st0" rid ?p j s]
    then show "?lhs ! i = ?rhs ! i" using i gr by (simp add: new_grant_def)
  qed (simp add: len)
qed

lemma commits_participants:
  assumes "commits A rid c reading st0 rd grants"
  shows "length grants = length (rd_participants c)"
    and "gr \<in> set grants \<Longrightarrow> length (g_id gr) = 16 \<and> (\<exists>s. g_secret gr = Some s \<and> length s = 32) \<and>
      s_grants_by_id st0 (g_id gr) = None \<and> grant_live gr"
    and "distinct (map g_id grants)"
    and "\<forall>p \<in> set (rd_participants c). mono reading < mono reading + time_sub (pd_grant_expires_at p) (wall reading)"
    and "\<forall>p \<in> set (rd_participants c). wall reading < pd_grant_expires_at p"
proof -
  have stg: "list_all2 (staged_ok A st0 rid [])
     (map (\<lambda>p. (p, mono reading + time_sub (pd_grant_expires_at p) (wall reading))) (rd_participants c)) grants"
    using assms by (simp only: commits_def)
  then show "length grants = length (rd_participants c)" by (auto dest: list_all2_lengthD)
  show "length (g_id gr) = 16 \<and> (\<exists>s. g_secret gr = Some s \<and> length s = 32) \<and>
      s_grants_by_id st0 (g_id gr) = None \<and> grant_live gr" if gr: "gr \<in> set grants"
  proof -
    obtain p where "staged_ok A st0 rid [] p gr" using list_all2_in_set2 [OF stg gr] by blast
    then obtain d s where "gr = new_grant A (s_limits st0) rid (fst p) d (g_id gr) s" "length s = 32"
      "length (g_id gr) = 16" "s_grants_by_id st0 (g_id gr) = None"
      by (auto simp: staged_ok_def)
    moreover from this have "g_secret gr = Some s" "grant_live gr"
      by (metis new_grant_def grant_record.select_convs(5), metis new_grant_ok(2))
    ultimately show ?thesis by blast
  qed
  show "distinct (map g_id grants)" using assms by (simp only: commits_def)
  show "\<forall>p \<in> set (rd_participants c). wall reading < pd_grant_expires_at p"
    using assms by (simp add: commits_def)
  then show "\<forall>p \<in> set (rd_participants c). mono reading < mono reading + time_sub (pd_grant_expires_at p) (wall reading)"
    by (simp add: time_sub_positive_iff)
qed

text \<open>What a successful \<open>CreateRoom\<close> promises, for its clients too.\<close>

lemma create_room_spec:
  assumes "store_inv st" and "reading_ok reading"
    and "create_room A rid d reading st = (st', Inr (al, True))"
  shows "map ga_participant_id (al_grants al) = map pd_participant_id (sort_key participant_key (rd_participants d)) \<and>
    map ga_session_id (al_grants al) = map pd_session_id (sort_key participant_key (rd_participants d)) \<and>
    distinct (map ga_grant_id (al_grants al)) \<and>
    (\<forall>ga \<in> set (al_grants al). length (ga_grant_id ga) = 16 \<and> s_grants_by_id st (ga_grant_id ga) = None \<and>
       (\<exists>s. ga_grant_secret ga = Some s \<and> length s = 32) \<and> ga_state ga = GrantStateIssued) \<and>
    s_open_rooms st' = s_open_rooms st + 1 \<and>
    s_active_sessions st' = s_active_sessions st + int (length (rd_participants d)) \<and>
    (\<forall>r. r \<noteq> rid \<longrightarrow> fmlookup (s_rooms st') r = fmlookup (s_rooms st) r) \<and> store_inv st'"
proof -
  obtain c st0 rd grants src where c: "canonical_definition rid d (s_limits st) = Inr c"
    and st0: "st0 = st\<lparr>s_rooms := fmdrop rid (s_rooms st)\<rparr>"
    and com: "commits A rid c reading st0 rd grants"
    and st': "st' = commit_room rid (new_room A (s_limits st) c (wall reading) rd) grants (st0\<lparr>s_random := src\<rparr>)"
    and al: "al = allocation_at (s_heap st') rid (new_room A (s_limits st) c (wall reading) rd
       [s_next st ..< s_next st + length grants]) (mono reading)"
    using create_room_success [OF assms] by blast
  have lims: "valid_limits (s_limits st)" using assms(1) by (simp add: store_inv_def)
  have parts: "rd_participants c = sort_key participant_key (rd_participants d)"
    using c by (simp add: canonical_definition_Inr_iff [OF lims])
  note heap = created_heap [where rid = rid and room = "new_room A (s_limits st) c (wall reading) rd" and
      grants = grants and ?st0.0 = st0 and src = src, folded st']
  note cp = commits_participants [OF com]
  have "al_grants al = map (\<lambda>gr. grant_allocation_at gr (mono reading)) (map (s_heap st') [s_next st ..< s_next st + length grants])"
    by (simp add: al allocation_at_def new_room_def)
  also have "map (s_heap st') [s_next st ..< s_next st + length grants] = grants"
    using heap(1) by (simp add: st0)
  finally have ag: "al_grants al = map2 (\<lambda>p gr.
     \<lparr>ga_participant_id = pd_participant_id p, ga_session_id = pd_session_id p, ga_grant_id = g_id gr,
      ga_grant_secret = g_secret gr, ga_grant_expires_at = pd_grant_expires_at p, ga_state = GrantStateIssued\<rparr>)
     (rd_participants c) grants"
    by (simp only: created_allocation [OF com cp(4)])
  have "map ga_grant_id (al_grants al) = map g_id grants"
    unfolding ag by (rule map_map2_right) (simp_all add: cp(1))
  moreover have "map ga_participant_id (al_grants al) = map pd_participant_id (rd_participants c)"
    "map ga_session_id (al_grants al) = map pd_session_id (rd_participants c)"
    unfolding ag by (rule map_map2_left; simp add: cp(1))+
  moreover have "\<forall>ga \<in> set (al_grants al). length (ga_grant_id ga) = 16 \<and> s_grants_by_id st (ga_grant_id ga) = None \<and>
       (\<exists>s. ga_grant_secret ga = Some s \<and> length s = 32) \<and> ga_state ga = GrantStateIssued"
    using cp(2) by (auto simp: ag st0 dest!: set_zip_rightD)
  moreover have "\<forall>r. r \<noteq> rid \<longrightarrow> fmlookup (s_rooms st') r = fmlookup (s_rooms st) r" by (simp add: heap st0)
  ultimately show ?thesis
    using cp(1,3) create_room_inv [OF assms] heap(3,5) by (simp add: parts st0)
qed

text \<open>C10: a successful \<open>CreateRoom\<close> returns the participants in canonical order (by participant, then
  session), each with a fresh 16-byte grant identifier that no other grant is known by, a 32-byte
  secret and the state issued; the identifiers are pairwise different; the two counters grow by one
  room and one session per participant; every other room keeps its record, and the store keeps its
  invariant.\<close>

theorem create_room_commits:
  assumes "store_inv st" and "reading_ok reading"
    and "create_room A rid d reading st = (st', Inr (al, True))"
  shows "map ga_participant_id (al_grants al) = map pd_participant_id (sort_key participant_key (rd_participants d)) \<and>
    map ga_session_id (al_grants al) = map pd_session_id (sort_key participant_key (rd_participants d)) \<and>
    distinct (map ga_grant_id (al_grants al)) \<and>
    (\<forall>ga \<in> set (al_grants al). length (ga_grant_id ga) = 16 \<and> s_grants_by_id st (ga_grant_id ga) = None \<and>
       (\<exists>s. ga_grant_secret ga = Some s \<and> length s = 32) \<and> ga_state ga = GrantStateIssued) \<and>
    s_open_rooms st' = s_open_rooms st + 1 \<and>
    s_active_sessions st' = s_active_sessions st + int (length (rd_participants d)) \<and>
    (\<forall>r. r \<noteq> rid \<longrightarrow> fmlookup (s_rooms st') r = fmlookup (s_rooms st) r) \<and> store_inv st'"
  using create_room_spec [OF assms] .

theorem create_room_commits_witness:
  "\<exists>st' al. create_room bucket ''room'' demo_definition (demo_at 0) demo_start = (st', Inr (al, True)) \<and>
    map ga_participant_id (al_grants al) = [''a'', ''b''] \<and> s_active_sessions st' = 2"
proof -
  obtain st' al where cr: "create_room bucket ''room'' demo_definition (demo_at 0) demo_start = (st', Inr (al, True))"
    using demo_created by blast
  have "map pd_participant_id (sort_key participant_key (rd_participants demo_definition)) = [''a'', ''b'']"
    "s_active_sessions demo_start = 0" "length (rd_participants demo_definition) = 2" by code_simp+
  then show ?thesis
    using create_room_commits [OF demo_start_inv demo_reading_ok cr] cr by (simp add: in_i64_def)
qed

section \<open>CreateRoom again\<close>

lemma inj_on_subset_key: "inj_on pd_participant_id S \<Longrightarrow> inj_on participant_key S"
  by (auto simp: inj_on_def participant_key_def)

lemma commits_same_definition:
  assumes com: "commits A rid c reading st0 rd grants" and refs: "map heap refs = grants"
  shows "list_all2 (\<lambda>g p. g_participant_id (heap g) = pd_participant_id p \<and> g_session_id (heap g) = pd_session_id p \<and>
      g_expires_at (heap g) = pd_grant_expires_at p) refs (rd_participants c)"
proof -
  have stg: "list_all2 (staged_ok A st0 rid [])
     (map (\<lambda>p. (p, mono reading + time_sub (pd_grant_expires_at p) (wall reading))) (rd_participants c)) (map heap refs)"
    using com unfolding refs by (simp only: commits_def)
  have "g_participant_id gr = pd_participant_id p \<and> g_session_id gr = pd_session_id p \<and>
      g_expires_at gr = pd_grant_expires_at p" if "staged_ok A st0 rid [] (p, t) gr" for p t gr
  proof -
    from that obtain i s where "gr = new_grant A (s_limits st0) rid p t i s" by (auto simp: staged_ok_def)
    then show ?thesis by (simp add: new_grant_def)
  qed
  with stg show ?thesis by (auto simp: list_all2_map1 list_all2_map2 list_all2_conv_all_nth)
qed

lemma commits_not_terminal:
  assumes com: "commits A rid c reading st0 rd grants" and refs: "map heap refs = grants"
    and soon: "\<forall>p \<in> set (rd_participants c). now < mono reading + time_sub (pd_grant_expires_at p) (wall reading)"
    and ne: "rd_participants c \<noteq> [] \<and> (\<forall>p \<in> set (rd_participants c). pd_grant_expires_at p \<le> rd_expires_at c)"
  shows "\<not> room_access_terminal heap (new_room A lims c w rd refs) now"
proof -
  have stg: "list_all2 (staged_ok A st0 rid [])
     (map (\<lambda>p. (p, mono reading + time_sub (pd_grant_expires_at p) (wall reading))) (rd_participants c)) (map heap refs)"
    and rd: "rd = mono reading + time_sub (rd_expires_at c) (wall reading)"
    using com unfolding refs by (simp_all only: commits_def)
  obtain p ps where ps: "rd_participants c = p # ps" using ne by (cases "rd_participants c") auto
  obtain g gs where gs: "refs = g # gs" using stg ps by (cases refs) auto
  have "staged_ok A st0 rid [] (p, mono reading + time_sub (pd_grant_expires_at p) (wall reading)) (heap g)"
    using stg by (simp add: ps gs)
  then obtain i s where "heap g = new_grant A (s_limits st0) rid p
      (mono reading + time_sub (pd_grant_expires_at p) (wall reading)) i s" by (auto simp: staged_ok_def)
  then have "now < g_mono_deadline (heap g)" using soon ps by (simp add: new_grant_ok)
  then have "\<not> last_grant_deadline heap (new_room A lims c w rd refs) \<le> now"
    by (subst last_grant_deadline_le_iff) (auto simp: new_room_def gs)
  moreover have "time_sub (pd_grant_expires_at p) (wall reading) \<le> time_sub (rd_expires_at c) (wall reading)"
    using ne ps by (auto simp: time_sub_def)
  then have "now < rd" using soon ps by (auto simp: rd)
  ultimately show ?thesis by (simp add: room_access_terminal_def new_room_def)
qed

lemma same_participants:
  assumes lims: "valid_limits lims" and c: "canonical_definition rid d lims = Inr c"
    and same: "rd_capacity d' = rd_capacity d" "rd_expires_at d' = rd_expires_at d"
      "mset (rd_participants d') = mset (rd_participants d)"
  shows "canonical_definition rid d' lims = Inr c"
proof -
  note iff = canonical_definition_Inr_iff [OF lims]
  have ok: "definition_ok rid d" and cap: "int (length (rd_participants d)) \<le> MaxRoomCapacity lims"
    and ceq: "c = d\<lparr>rd_participants := sort_key participant_key (rd_participants d)\<rparr>"
    using c by (simp_all add: iff)
  have sets: "set (rd_participants d') = set (rd_participants d)" and len: "length (rd_participants d') = length (rd_participants d)"
    using same(3) by (metis set_mset_mset, metis size_mset)
  have dist: "distinct (map f (rd_participants d')) = distinct (map f (rd_participants d))" for f :: "participant_definition \<Rightarrow> string"
    using same(3) by (intro mset_eq_imp_distinct_iff) simp
  have "definition_ok rid d'"
    using ok same(1,2) len sets dist by (auto simp: definition_ok_def)
  moreover have "sort_key participant_key (rd_participants d') = sort_key participant_key (rd_participants d)"
  proof (rule sort_key_inj_key_eq)
    show "mset (rd_participants d') = mset (sort_key participant_key (rd_participants d))" using same(3) by simp
    have "inj_on pd_participant_id (set (rd_participants d))" using ok by (simp add: definition_ok_def distinct_map)
    then show "inj_on participant_key (set (rd_participants d'))"
      unfolding sets by (rule inj_on_subset_key)
  qed simp
  moreover have "d'\<lparr>rd_participants := xs\<rparr> = d\<lparr>rd_participants := xs\<rparr>" for xs
    using same(1,2) by (cases d; cases d') simp
  ultimately show ?thesis using cap len by (simp add: iff ceq)
qed

text \<open>C11: creating a room is idempotent: as long as no grant has run out, the same definition again (its
  participants in any order, at any reading) returns the same allocation, secrets included, reports
  that nothing was created, and changes nothing.\<close>

theorem create_room_idempotent:
  assumes "store_inv st" and "reading_ok reading"
    and "create_room A rid d reading st = (st', Inr (al, True))"
    and "rd_capacity d' = rd_capacity d" and "rd_expires_at d' = rd_expires_at d"
    and "mset (rd_participants d') = mset (rd_participants d)"
    and "\<forall>p \<in> set (rd_participants d).
      mono again < mono reading + time_sub (pd_grant_expires_at p) (wall reading)"
  shows "create_room A rid d' again st' = (st', Inr (al, False))"
proof -
  obtain c st0 rd grants src where c: "canonical_definition rid d (s_limits st) = Inr c"
    and st0: "st0 = st\<lparr>s_rooms := fmdrop rid (s_rooms st)\<rparr>"
    and com: "commits A rid c reading st0 rd grants"
    and st': "st' = commit_room rid (new_room A (s_limits st) c (wall reading) rd) grants (st0\<lparr>s_random := src\<rparr>)"
    and al: "al = allocation_at (s_heap st') rid (new_room A (s_limits st) c (wall reading) rd
       [s_next st ..< s_next st + length grants]) (mono reading)"
    using create_room_success [OF assms(1-3)] by blast
  have lims: "valid_limits (s_limits st)" using assms(1) by (simp add: store_inv_def)
  have ok: "definition_ok rid d" and parts: "rd_participants c = sort_key participant_key (rd_participants d)"
    "rd_expires_at c = rd_expires_at d"
    using c by (simp_all add: canonical_definition_Inr_iff [OF lims])
  note heap = created_heap [where rid = rid and room = "new_room A (s_limits st) c (wall reading) rd" and
      grants = grants and ?st0.0 = st0 and src = src, folded st']
  note cp = commits_participants [OF com]
  let ?refs = "[s_next st ..< s_next st + length grants]"
  let ?room = "new_room A (s_limits st) c (wall reading) rd ?refs"
  have refs: "map (s_heap st') ?refs = grants" using heap(1) by (simp add: st0)
  have soon: "\<forall>p \<in> set (rd_participants c). mono again < mono reading + time_sub (pd_grant_expires_at p) (wall reading)"
    using assms(7) by (simp add: parts)
  have "allocation_at (s_heap st') rid ?room (mono again) = al"
    using created_allocation [OF com soon] created_allocation [OF com cp(4)] arg_cong [OF refs, of "map (\<lambda>gr. grant_allocation_at gr (mono again))"]
      arg_cong [OF refs, of "map (\<lambda>gr. grant_allocation_at gr (mono reading))"]
    by (simp add: al allocation_at_def new_room_def comp_def)
  moreover have "same_definition (s_heap st') ?room c"
    using commits_same_definition [OF com refs] by (simp add: same_definition_def new_room_def)
  moreover have "\<not> room_access_terminal (s_heap st') ?room (mono again)"
    using commits_not_terminal [OF com refs soon] ok parts by (simp add: definition_ok_def)
  moreover have "canonical_definition rid d' (s_limits st') = Inr c"
    using same_participants [OF lims c assms(4-6)] heap(4) by (simp add: st0)
  moreover have "fmlookup (s_rooms st') rid = Some ?room" by (simp add: heap st0)
  ultimately show ?thesis by (simp add: create_room_def) (simp add: new_room_def)
qed

theorem create_room_idempotent_witness:
  "\<exists>st' al. create_room bucket ''room'' demo_definition (demo_at 0) demo_start = (st', Inr (al, True)) \<and>
    create_room bucket ''room'' (demo_definition\<lparr>rd_participants := rev (rd_participants demo_definition)\<rparr>)
      (demo_at (20 * second)) st' = (st', Inr (al, False))"
proof -
  obtain st' al where cr: "create_room bucket ''room'' demo_definition (demo_at 0) demo_start = (st', Inr (al, True))"
    using demo_created by blast
  have "create_room bucket ''room'' (demo_definition\<lparr>rd_participants := rev (rd_participants demo_definition)\<rparr>)
      (demo_at (20 * second)) st' = (st', Inr (al, False))"
    by (rule create_room_idempotent [OF demo_start_inv demo_reading_ok cr])
      (simp_all add: in_i64_def demo_definition_def demo_at_def time_sub_def)
  with cr show ?thesis by blast
qed

text \<open>\<open>st'\<close> is \<open>st\<close> but for drawn random bytes and a tombstone of \<open>rid\<close> whose quarantine is over.\<close>

definition only_reclaimed :: "string \<Rightarrow> duration \<Rightarrow> 'l store \<Rightarrow> 'l store \<Rightarrow> bool" where
  "only_reclaimed rid now st st' \<longleftrightarrow> (\<exists>src rooms. st' = st\<lparr>s_random := src, s_rooms := rooms\<rparr> \<and>
     (rooms = s_rooms st \<or> rooms = fmdrop rid (s_rooms st) \<and>
        (\<exists>R. fmlookup (s_rooms st) rid = Some R \<and> r_state R = roomStateTombstone \<and>
             r_tombstone_deadline R \<le> now)))"

lemma only_reclaimed_random: "only_reclaimed rid now st (st\<lparr>s_random := src\<rparr>)"
  unfolding only_reclaimed_def by (rule exI [of _ src], rule exI [of _ "s_rooms st"]) simp

lemma only_reclaimed_refl [simp]: "only_reclaimed rid now st st"
  using only_reclaimed_random [of rid now st "s_random st"] by simp

text \<open>A failed \<open>CreateRoom\<close> commits nothing: at most it has drawn random bytes and dropped the
  tombstone of its own identifier, whose quarantine was over. Grants, indexes, counters and every
  other room stay as they were.\<close>

lemma create_room_failure_frame:
  assumes "create_room A rid d reading st = (st', Inl e)"
  shows "only_reclaimed rid (mono reading) st st'"
proof (cases "canonical_definition rid d (s_limits st)")
  case (Inl e')
  then show ?thesis using assms by (simp add: create_room_def)
next
  case (Inr c)
  show ?thesis
  proof (cases "fmlookup (s_rooms st) rid")
    case None
    then show ?thesis
      using assms create_fresh_failure [of A rid c reading st st' e]
      by (auto simp: create_room_def Inr only_reclaimed_random)
  next
    case (Some R)
    let ?st = "st\<lparr>s_rooms := fmdrop rid (s_rooms st)\<rparr>"
    consider "st' = st" | "r_state R = roomStateTombstone" "r_tombstone_deadline R \<le> mono reading"
        "create_fresh A rid c reading ?st = (st', Inl e)"
      using assms by (cases "r_state R") (auto simp: create_room_def Inr Some split: if_splits)
    then show ?thesis
    proof cases
      case 2
      obtain src where "st' = ?st\<lparr>s_random := src\<rparr>" using create_fresh_failure [OF 2(3)] by blast
      then have "st' = st\<lparr>s_random := src, s_rooms := fmdrop rid (s_rooms st)\<rparr>" by simp
      then show ?thesis using 2 Some by (auto simp: only_reclaimed_def)
    qed simp
  qed
qed

lemma create_room_failure_frame_witness:
  "only_reclaimed ''room'' 0 demo_open
     (fst (create_room bucket ''room'' (demo_definition\<lparr>rd_expires_at := 61 * second\<rparr>) (demo_at 0) demo_open))"
proof -
  have "snd (create_room bucket ''room'' (demo_definition\<lparr>rd_expires_at := 61 * second\<rparr>) (demo_at 0) demo_open)
      = Inl ErrConflict" by code_simp
  then have "create_room bucket ''room'' (demo_definition\<lparr>rd_expires_at := 61 * second\<rparr>) (demo_at 0) demo_open =
      (fst (create_room bucket ''room'' (demo_definition\<lparr>rd_expires_at := 61 * second\<rparr>) (demo_at 0) demo_open), Inl ErrConflict)"
    by (metis prod.collapse)
  from create_room_failure_frame [OF this] show ?thesis by (simp add: demo_at_def)
qed

section \<open>EndRoom\<close>

text \<open>A grant without authority: dead, without its secret, and known to no index.\<close>

definition no_authority :: "'l store \<Rightarrow> gref \<Rightarrow> bool" where
  "no_authority st g \<longleftrightarrow> \<not> grant_live (s_heap st g) \<and> g_secret (s_heap st g) = None \<and>
     g_binding (s_heap st g) = None \<and> g_pending (s_heap st g) = None \<and> g_recent (s_heap st g) = None \<and>
     (\<forall>i. s_grants_by_id st i \<noteq> Some g \<and> s_candidates_by_id st i \<noteq> Some g \<and> s_bindings_by_id st i \<noteq> Some g)"

lemma fold_terminal_grant_ok:
  assumes "store_inv st" "fmlookup (s_rooms st) rid = Some R" "r_state R \<noteq> roomStateTombstone"
    "terminal_state ts" "g \<in> set (r_grants R)"
  shows "grant_ok (s_heap (tombstone_room rid now ts st) g)"
proof -
  have rooms: "room_ok R" "set (r_grants R) \<subseteq> owned st"
    using core_inv_rooms [OF store_inv_core [OF assms(1)]] assms(2) by (auto simp: rooms_inv_def owned_def)
  define st1 where "st1 = (if r_state R = roomStateOpen then st\<lparr>s_open_rooms := s_open_rooms st - 1\<rparr> else st)"
  have one: "core_inv st1" "owned st1 = owned st" using assms(1) by (auto simp: st1_def core_inv_counter)
  have "core_inv (fold (\<lambda>g. terminal_grant g ts) (r_grants R) st1)"
    "owned (fold (\<lambda>g. terminal_grant g ts) (r_grants R) st1) = owned st"
    using fold_terminal_grant [OF one(1) _ assms(4), of "r_grants R"] rooms assms(3) one(2)
    by (auto simp: room_ok_def grants_local_fields)
  then have "grant_ok (s_heap (fold (\<lambda>g. terminal_grant g ts) (r_grants R) st1) g)"
    using rooms(2) assms(5) by (auto intro: owned_grant_ok)
  then show ?thesis using assms(2,3) by (simp add: tombstone_room_def Let_def st1_def)
qed

lemma tombstone_room_no_authority:
  assumes "store_inv st" "fmlookup (s_rooms st) rid = Some R" "r_state R \<noteq> roomStateTombstone"
    "terminal_state ts" "g \<in> set (r_grants R)"
  shows "no_authority (tombstone_room rid now ts st) g"
proof -
  note t = tombstone_room_spec [where now = now, OF assms(1-4)]
  have "index_inv (tombstone_room rid now ts st)" using t(1) by (simp add: store_inv_def core_inv_def)
  note idx = index_invD [OF this]
  have "g \<notin> owned (tombstone_room rid now ts st)" using t(3) assms(5) by simp
  moreover have "\<not> grant_live (s_heap (tombstone_room rid now ts st) g)" using t(4) assms(5) by blast
  moreover have "grant_ok (s_heap (tombstone_room rid now ts st) g)" by (rule fold_terminal_grant_ok [OF assms])
  ultimately show ?thesis
    using idx(1) idx(2) idx(3) by (auto simp: no_authority_def grant_ok_def)
qed

text \<open>C12: \<open>EndRoom\<close> revokes and quarantines: every grant of the room loses its authority at once (dead,
  secret erased, out of every index) and a live one becomes revoked; the room is not found by
  \<open>GetRoom\<close> at any later reading. Until exactly \<open>TombstoneTTL\<close> after the end, creating the
  identifier conflicts and changes nothing and ending it again changes nothing (the quarantine is
  not extended); from that instant on creation starts from the freed identifier.\<close>

theorem end_room_quarantines:
  assumes "store_inv st" and "valid_id rid" and "fmlookup (s_rooms st) rid = Some R"
    and "r_state R \<noteq> roomStateTombstone" and "end_room rid reading st = (st', res)"
  defines "until \<equiv> saturating_add (mono reading) (TombstoneTTL (s_limits st))"
  shows "res = None \<and> store_inv st' \<and>
    (\<forall>g \<in> set (r_grants R). no_authority st' g \<and>
       (grant_live (s_heap st g) \<longrightarrow> g_state (s_heap st' g) = GrantStateRevoked)) \<and>
    (\<forall>later. get_room rid later st' = Inl ErrNotFound) \<and>
    (\<forall>later c d A. canonical_definition rid d (s_limits st) = Inr c \<longrightarrow>
       create_room A rid d later st' =
         (if mono later < until then (st', Inl ErrConflict)
          else create_fresh A rid c later (st'\<lparr>s_rooms := fmdrop rid (s_rooms st')\<rparr>))) \<and>
    (\<forall>later. mono later < until \<longrightarrow> end_room rid later st' = (st', None))"
proof -
  note t = tombstone_room_spec [where now = "mono reading", OF assms(1,3,4) terminal_state_simps(2)]
  have st': "st' = tombstone_room rid (mono reading) GrantStateRevoked st" "res = None"
    using assms(2-5) by (simp_all add: end_room_def)
  have R': "fmlookup (s_rooms st') rid = Some (tombstone_record until)" "s_limits st' = s_limits st"
    using t(2,9) by (simp_all add: st' until_def)
  have "no_authority st' g \<and> (grant_live (s_heap st g) \<longrightarrow> g_state (s_heap st' g) = GrantStateRevoked)"
    if "g \<in> set (r_grants R)" for g
    using tombstone_room_no_authority [OF assms(1,3,4) terminal_state_simps(2) that] t(5) [OF that] by (simp add: st')
  moreover have "\<forall>later. get_room rid later st' = Inl ErrNotFound"
    using assms(2) R' by (simp add: get_room_def tombstone_record_def)
  moreover have "create_room A rid d later st' =
      (if mono later < until then (st', Inl ErrConflict)
       else create_fresh A rid c later (st'\<lparr>s_rooms := fmdrop rid (s_rooms st')\<rparr>))"
    if "canonical_definition rid d (s_limits st) = Inr c" for later c d and A :: "'a limiter_api"
    using that R' by (simp add: create_room_def tombstone_record_def)
  moreover have "\<forall>later. mono later < until \<longrightarrow> end_room rid later st' = (st', None)"
    using assms(2) R' by (simp add: end_room_def tombstone_record_def)
  moreover have "store_inv st'" using t(1) by (simp add: st')
  ultimately show ?thesis using st'(2) by blast
qed

theorem end_room_quarantines_witness:
  "no_authority (fst (end_room ''room'' (demo_at 5) demo_open)) 0 \<and>
   get_room ''room'' (demo_at 6) (fst (end_room ''room'' (demo_at 5) demo_open)) = Inl ErrNotFound"
proof -
  have R: "fmlookup (s_rooms demo_open) ''room'' = Some (the (fmlookup (s_rooms demo_open) ''room''))"
    "r_state (the (fmlookup (s_rooms demo_open) ''room'')) \<noteq> roomStateTombstone"
    "0 \<in> set (r_grants (the (fmlookup (s_rooms demo_open) ''room'')))"
    by code_simp+
  have "valid_id ''room''" by code_simp
  then show ?thesis
    using end_room_quarantines [OF demo_open_inv _ R(1,2), of "demo_at 5"] R(3)
    by (metis prod.collapse)
qed

section \<open>Expire\<close>

lemma sweep_rooms:
  fixes now
  assumes "store_inv st" and "distinct ks"
  defines "st' \<equiv> fold (expire_room now) ks st"
  shows "store_inv st' \<and> s_limits st' = s_limits st \<and> s_preauth_sources st' = s_preauth_sources st \<and>
    (\<forall>r. fmlookup (s_rooms st') r = (if r \<in> set ks
       then Option.bind (fmlookup (s_rooms st) r) (swept_room (s_limits st) (s_heap st) now)
       else fmlookup (s_rooms st) r)) \<and>
    (\<forall>g. g_room_id (s_heap st g) \<notin> set ks \<longrightarrow> s_heap st' g = s_heap st g) \<and>
    (\<forall>g. same_identity (s_heap st g) (s_heap st' g)) \<and>
    (\<forall>r R. r \<in> set ks \<longrightarrow> fmlookup (s_rooms st) r = Some R \<longrightarrow> (\<forall>g \<in> set (r_grants R).
       grant_live (s_heap st' g) \<longleftrightarrow>
         grant_live (s_heap st g) \<and> now < g_mono_deadline (s_heap st g) \<and> now < r_mono_deadline R))"
  using assms(1,2) unfolding st'_def
proof (induction ks arbitrary: st)
  case (Cons k ks)
  define st1 where "st1 = expire_room now k st"
  note one = expire_room_spec [OF Cons.prems(1), of k now, folded st1_def]
  have step: "room_step k st st1" using one by blast
  have inv1: "store_inv st1" and id1: "\<And>g. same_identity (s_heap st g) (s_heap st1 g)"
    and same1: "s_limits st1 = s_limits st" "s_preauth_sources st1 = s_preauth_sources st"
      "\<And>r. r \<noteq> k \<Longrightarrow> fmlookup (s_rooms st1) r = fmlookup (s_rooms st) r"
      "\<And>g. g_room_id (s_heap st g) \<noteq> k \<Longrightarrow> s_heap st1 g = s_heap st g"
    using step by (auto simp: room_step_def)
  have k: "k \<notin> set ks" "distinct ks" using Cons.prems(2) by auto
  note IH = Cons.IH [OF inv1 k(2)]
  have swept: "swept_room (s_limits st1) (s_heap st1) now = swept_room (s_limits st) (s_heap st) now"
    using swept_room_cong [OF id1] same1(1) by (intro ext) simp
  have rid: "g_room_id (s_heap st1 g) = g_room_id (s_heap st g)" for g
    using id1 [of g] by (simp add: same_identity_def)
  show ?case
  proof (intro conjI allI impI ballI)
    let ?st' = "fold (expire_room now) (k # ks) st"
    have eq: "?st' = fold (expire_room now) ks st1" by (simp add: st1_def)
    show "store_inv ?st'" "s_limits ?st' = s_limits st" "s_preauth_sources ?st' = s_preauth_sources st"
      unfolding eq using IH same1 by simp_all
    fix r show "fmlookup (s_rooms ?st') r = (if r \<in> set (k # ks)
       then Option.bind (fmlookup (s_rooms st) r) (swept_room (s_limits st) (s_heap st) now)
       else fmlookup (s_rooms st) r)"
      unfolding eq using IH swept same1(3) [of r] one k(1) by (cases "r = k") auto
    fix g show "same_identity (s_heap st g) (s_heap ?st' g)"
      unfolding eq using IH same_identity_trans [OF id1] by blast
    show "s_heap ?st' g = s_heap st g" if "g_room_id (s_heap st g) \<notin> set (k # ks)"
      unfolding eq using IH same1(4) [of g] that rid by simp
    fix R assume r: "r \<in> set (k # ks)" and R: "fmlookup (s_rooms st) r = Some R" and g: "g \<in> set (r_grants R)"
    have gr: "g_room_id (s_heap st g) = r"
      using core_inv_rooms [OF store_inv_core [OF Cons.prems(1)]] R g by (auto simp: rooms_inv_def room_grant_ok_def)
    show "grant_live (s_heap ?st' g) \<longleftrightarrow>
        grant_live (s_heap st g) \<and> now < g_mono_deadline (s_heap st g) \<and> now < r_mono_deadline R"
    proof (cases "r = k")
      case True
      then have "s_heap (fold (expire_room now) ks st1) g = s_heap st1 g" using IH gr rid k(1) by simp
      then show ?thesis unfolding eq using one R g True by simp
    next
      case False
      then have "fmlookup (s_rooms st1) r = Some R" "r \<in> set ks" "s_heap st1 g = s_heap st g"
        using r R same1(3) [of r] same1(4) [of g] gr by auto
      then show ?thesis unfolding eq using IH g by auto
    qed
  qed
qed simp

lemma fmlookup_drop_source:
  "fmlookup (s_preauth_sources (expire_source now k st)) k' =
    (if k = k' then unexpired (\<lambda>s. saturating_add (last_observed s) preauthSourceIdleTTL) now (fmlookup (s_preauth_sources st) k)
     else fmlookup (s_preauth_sources st) k')"
  by (auto simp: expire_source_def unexpired_def split: option.split)

lemma unexpired_idem [simp]: "unexpired f now (unexpired f now x) = unexpired f now x"
  by (cases x) auto

lemma sweep_sources:
  "fmlookup (s_preauth_sources (fold (expire_source now) keys st)) k =
    (if k \<in> set keys then unexpired (\<lambda>s. saturating_add (last_observed s) preauthSourceIdleTTL) now (fmlookup (s_preauth_sources st) k)
     else fmlookup (s_preauth_sources st) k)"
  by (induction keys arbitrary: st) (auto simp: fmlookup_drop_source)

lemma expire_source_frame:
  "same_core st (expire_source now k st) \<and>
    len_map (s_preauth_sources (expire_source now k st)) \<le> len_map (s_preauth_sources st)"
  by (auto simp: expire_source_def same_core_def len_map_fmdrop_le split: option.split)

lemma sweep_sources_frame:
  "same_core st (fold (expire_source now) keys st) \<and>
    len_map (s_preauth_sources (fold (expire_source now) keys st)) \<le> len_map (s_preauth_sources st)"
proof (induction keys arbitrary: st)
  case (Cons k keys)
  show ?case
    using expire_source_frame [of st now k] Cons.IH [of "expire_source now k st"]
    by (simp add: same_core_def)
qed (simp add: same_core_def)

lemma expire_inv:
  assumes "store_inv st" and "distinct ks"
  shows "store_inv (expire ks keys now st)"
proof -
  have inv: "store_inv (fold (expire_room now) ks st)" using sweep_rooms [OF assms] by blast
  then have "len_map (s_preauth_sources (fold (expire_room now) ks st)) \<le> HardMaxPreauthSources"
    by (simp add: store_inv_def)
  then show ?thesis
    using same_core_store_inv [OF _ inv] sweep_sources_frame [of "fold (expire_room now) ks st" now keys]
    by (simp add: expire_def)
qed

text \<open>C13: a sweep is exact and does not depend on the order in which Go iterates over its maps. For any
  order: a tombstone goes exactly when its quarantine is over; a room at its deadline, or past the
  empty grace after its last grant deadline, becomes a tombstone for \<open>TombstoneTTL\<close>; a room past
  its last grant deadline is in its empty grace; any other room stays. A grant of a room survives
  exactly when neither its deadline nor the room's has come, and a source stays exactly until it has
  been idle for sixty seconds.\<close>

theorem expire_exact:
  fixes now
  assumes "store_inv st" and "distinct ks" and "set ks = fmdom' (s_rooms st)"
    and "set keys = fmdom' (s_preauth_sources st)"
  defines "st' \<equiv> expire ks keys now st"
  shows "store_inv st' \<and>
    (\<forall>r. fmlookup (s_rooms st') r =
       Option.bind (fmlookup (s_rooms st) r) (swept_room (s_limits st) (s_heap st) now)) \<and>
    (\<forall>r R. fmlookup (s_rooms st) r = Some R \<longrightarrow> (\<forall>g \<in> set (r_grants R).
       grant_live (s_heap st' g) \<longleftrightarrow>
         grant_live (s_heap st g) \<and> now < g_mono_deadline (s_heap st g) \<and> now < r_mono_deadline R)) \<and>
    (\<forall>k. fmlookup (s_preauth_sources st') k =
       unexpired (\<lambda>s. saturating_add (last_observed s) preauthSourceIdleTTL) now (fmlookup (s_preauth_sources st) k))"
proof -
  let ?st1 = "fold (expire_room now) ks st"
  have core: "same_core ?st1 st'"
    unfolding st'_def expire_def using sweep_sources_frame by blast
  then have same: "s_rooms st' = s_rooms ?st1" "s_heap st' = s_heap ?st1" by (simp_all add: same_core_def)
  note sw = sweep_rooms [OF assms(1,2), of now]
  have rooms: "fmlookup (s_rooms st') r =
      Option.bind (fmlookup (s_rooms st) r) (swept_room (s_limits st) (s_heap st) now)" for r
  proof (cases "r \<in> set ks")
    case False
    then have "fmlookup (s_rooms st) r = None" using assms(3) by (simp add: fmlookup_dom'_iff)
    with False sw show ?thesis by (simp add: same)
  qed (use sw in \<open>simp add: same\<close>)
  have dom: "r \<in> set ks" if "fmlookup (s_rooms st) r = Some R" for r R
    using that assms(3) by (auto simp: fmlookup_dom'_iff)
  have "s_preauth_sources ?st1 = s_preauth_sources st" using sw by simp
  then have "fmlookup (s_preauth_sources st') k =
      unexpired (\<lambda>s. saturating_add (last_observed s) preauthSourceIdleTTL) now (fmlookup (s_preauth_sources st) k)" for k
    using assms(4) by (cases "k \<in> set keys") (auto simp: st'_def expire_def sweep_sources fmlookup_dom'_iff)
  moreover have "store_inv st'" unfolding st'_def by (rule expire_inv [OF assms(1,2)])
  moreover have "\<forall>r R. fmlookup (s_rooms st) r = Some R \<longrightarrow> (\<forall>g \<in> set (r_grants R).
       grant_live (s_heap st' g) \<longleftrightarrow>
         grant_live (s_heap st g) \<and> now < g_mono_deadline (s_heap st g) \<and> now < r_mono_deadline R)"
    using sw dom unfolding same by blast
  ultimately show ?thesis using rooms by blast
qed

theorem expire_exact_witness:
  "fmlookup (s_rooms (expire [''room''] [] (60 * second) demo_open)) ''room'' =
     Some (tombstone_record (120 * second)) \<and>
   \<not> grant_live (s_heap (expire [''room''] [] (60 * second) demo_open) 0)"
proof -
  have keys: "set [''room''] = fmdom' (s_rooms demo_open)" "set [] = fmdom' (s_preauth_sources demo_open)"
    by code_simp+
  have R: "fmlookup (s_rooms demo_open) ''room'' = Some (the (fmlookup (s_rooms demo_open) ''room''))"
    "0 \<in> set (r_grants (the (fmlookup (s_rooms demo_open) ''room'')))"
    "g_mono_deadline (s_heap demo_open 0) = 60 * second"
    by code_simp+
  have "swept_room (s_limits demo_open) (s_heap demo_open) (60 * second)
      (the (fmlookup (s_rooms demo_open) ''room'')) = Some (tombstone_record (120 * second))"
    by code_simp
  then show ?thesis
    using expire_exact [OF demo_open_inv _ keys, of "60 * second"] R
    by (metis bind.bind_lunit distinct_singleton less_irrefl)
qed

end
