(* ===== verification/Store_Relay.thy ===== *)
theory Store_Relay
  imports Store_Rooms
begin

text \<open>
  The relay operations of \<open>store.Store\<close> (\<open>internal/store/relay.go\<close>): pre-authentication admission,
  the challenge and the authentication that binds an endpoint, the admission of bound packets and
  the planning of their fan-out. An operation returns \<^const>\<open>None\<close> when the code panics (a limiter
  that refuses what its preflight granted, a nil limiter, a nil secret), otherwise the new store and
  its result; \<open>RejectNone\<close> is the success of the operations that return nothing else.
\<close>

section \<open>Requests and results\<close>

record challenge_request =
  cq_room_id :: string
  cq_session_id :: string
  cq_grant_id :: bytes16
  cq_client_nonce :: bytes16
  cq_endpoint :: addr_port
  cq_input_bytes :: int

record authenticate_request =
  aq_room_id :: string
  aq_session_id :: string
  aq_candidate_id :: bytes16
  aq_endpoint :: addr_port
  aq_auth_tag :: bytes32
  aq_input_bytes :: int

record client_data_request =
  dq_room_id :: string
  dq_session_id :: string
  dq_binding_id :: bytes16
  dq_sequence :: u64
  dq_payload :: "byte list"
  dq_endpoint :: addr_port
  dq_auth_tag :: bytes32

record ping_request =
  pq_room_id :: string
  pq_session_id :: string
  pq_binding_id :: bytes16
  pq_sequence :: u64
  pq_endpoint :: addr_port
  pq_auth_tag :: bytes32

record admitted_client_data =
  ad_store :: nat
  ad_room_id :: string
  ad_session_id :: string
  ad_sender_participant_id :: string
  ad_binding_id :: bytes16
  ad_binding_generation :: u64
  ad_sequence :: u64

record relay_plan =
  rp_room_id :: string
  rp_session_id :: string
  rp_sender_participant_id :: string
  rp_sequence :: u64
  rp_recipients :: "addr_port list"

section \<open>Pre-authentication admission\<close>

definition new_preauth_source :: "'l limiter_api \<Rightarrow> limits \<Rightarrow> 'l preauth_source" where
  "new_preauth_source A lims = \<lparr>last_observed = 0,
     src_packets = new_limiter A (PreauthSourcePacketRate lims) (PreauthSourcePacketBurst lims),
     src_bytes = new_limiter A (PreauthSourceByteRate lims) (PreauthSourceByteBurst lims)\<rparr>"

definition source_charges :: "'l preauth_source \<Rightarrow> int \<Rightarrow> 'l store \<Rightarrow> ('l option \<times> int) list" where
  "source_charges source n st =
     [(Some (src_packets source), 1), (Some (src_bytes source), n),
      (Some (s_preauth_global_packets st), 1), (Some (s_preauth_global_bytes st), n)]"

text \<open>
  \<open>admitPreauthLocked\<close>. The source of the key is dropped when it has been idle for too long, as in the
  sweep (\<^const>\<open>expire_source\<close>); what the table holds afterwards under the key is the \<open>source\<close>
  variable of the code.
\<close>

definition admit_preauth :: "'l limiter_api \<Rightarrow> addr_port \<Rightarrow> int \<Rightarrow> duration \<Rightarrow> 'l store \<Rightarrow> ('l store \<times> reject_reason) option" where
  "admit_preauth A endpoint input_bytes now st = (case source_key endpoint of
     None \<Rightarrow> Some (st, RejectRateLimited)
   | Some key \<Rightarrow>
       (let n = max 0 input_bytes;
            st1 = expire_source now key st
        in case fmlookup (s_preauth_sources st1) key of
          None \<Rightarrow>
            if len_map (s_preauth_sources st1) \<ge> HardMaxPreauthSources
            then (case allow_atomic A now [(Some (s_preauth_global_packets st1), 1), (Some (s_preauth_global_bytes st1), n)] of
                Charged [gp, gb] \<Rightarrow>
                  Some (st1\<lparr>s_preauth_global_packets := gp, s_preauth_global_bytes := gb\<rparr>, RejectRateLimited)
              | Denied \<Rightarrow> Some (st1, RejectRateLimited)
              | _ \<Rightarrow> None)
            else (case allow_atomic A now (source_charges (new_preauth_source A (s_limits st1)) n st1) of
                Charged [sp, sb, gp, gb] \<Rightarrow>
                  Some (st1\<lparr>s_preauth_sources := fmupd key \<lparr>last_observed = now, src_packets = sp, src_bytes = sb\<rparr> (s_preauth_sources st1),
                            s_preauth_global_packets := gp, s_preauth_global_bytes := gb\<rparr>, RejectNone)
              | Denied \<Rightarrow> Some (st1, RejectRateLimited)
              | _ \<Rightarrow> None)
        | Some source \<Rightarrow>
            (let st2 = st1\<lparr>s_preauth_sources := fmupd key (source\<lparr>last_observed := now\<rparr>) (s_preauth_sources st1)\<rparr>
             in case allow_atomic A now (source_charges source n st2) of
                Charged [sp, sb, gp, gb] \<Rightarrow>
                  Some (st2\<lparr>s_preauth_sources := fmupd key \<lparr>last_observed = now, src_packets = sp, src_bytes = sb\<rparr> (s_preauth_sources st2),
                            s_preauth_global_packets := gp, s_preauth_global_bytes := gb\<rparr>, RejectNone)
              | Denied \<Rightarrow> Some (st2, RejectRateLimited)
              | _ \<Rightarrow> None)))"

text \<open>\<open>rejectPreauth\<close> of \<open>admitAuthenticatedLocked\<close>: a rejected packet is still charged as unauthenticated.\<close>

definition reject_preauth ::
    "'l limiter_api \<Rightarrow> addr_port \<Rightarrow> int \<Rightarrow> duration \<Rightarrow> reject_reason \<Rightarrow> 'l store \<Rightarrow> ('l store \<times> reject_reason) option" where
  "reject_preauth A endpoint input_bytes now reason st = (case admit_preauth A endpoint input_bytes now st of
     None \<Rightarrow> None
   | Some (st', r) \<Rightarrow> Some (st', if r \<noteq> RejectNone then RejectRateLimited else reason))"

section \<open>Admission of bound packets\<close>

type_synonym 'l admitted = "(('l store \<times> (reject_reason + gref \<times> binding_record)) option)"

text \<open>A rejection that, unless the packet was rate limited, is followed by the given clean-up.\<close>

definition reject_with :: "('l store \<times> reject_reason) option \<Rightarrow> reject_reason \<Rightarrow> ('l store \<Rightarrow> 'l store) \<Rightarrow> 'l admitted" where
  "reject_with r reason cleanup = (case r of
     None \<Rightarrow> None
   | Some (st', reason') \<Rightarrow> Some (if reason' = reason then cleanup st' else st', Inl reason'))"

definition charge_authenticated ::
    "'l limiter_api \<Rightarrow> gref \<Rightarrow> 'l room_record \<Rightarrow> int \<Rightarrow> duration \<Rightarrow> 'l store \<Rightarrow> ('l store \<times> bool) option" where
  "charge_authenticated A g room n now st =
     (let grant = s_heap st g in
      case allow_atomic A now
        [(g_ingress_packets grant, 1), (g_ingress_bytes grant, n),
         (r_ingress_packets room, 1), (r_ingress_bytes room, n),
         (Some (s_auth_global_packets st), 1), (Some (s_auth_global_bytes st), n)] of
        Charged [a, b, c, d, e, f] \<Rightarrow>
          Some ((update_grant g (\<lambda>gr. gr\<lparr>g_ingress_packets := Some a, g_ingress_bytes := Some b\<rparr>) st)
            \<lparr>s_rooms := fmupd (g_room_id grant) (room\<lparr>r_ingress_packets := Some c, r_ingress_bytes := Some d\<rparr>) (s_rooms st),
             s_auth_global_packets := e, s_auth_global_bytes := f\<rparr>, True)
      | Denied \<Rightarrow> Some (st, False)
      | _ \<Rightarrow> None)"

text \<open>\<open>admitAuthenticatedLocked\<close>; \<open>expected_tag\<close> computes the tag of the packet from the binding key.\<close>

definition admit_authenticated ::
    "'l limiter_api \<Rightarrow> string \<Rightarrow> string \<Rightarrow> bytes16 \<Rightarrow> u64 \<Rightarrow> addr_port \<Rightarrow> bytes32 \<Rightarrow> int \<Rightarrow> duration \<Rightarrow>
     (bytes32 \<Rightarrow> bytes32) \<Rightarrow> 'l store \<Rightarrow> 'l admitted" where
  "admit_authenticated A room_id session_id binding_id sequence endpoint tag input_bytes now expected_tag st =
     (let reject = (\<lambda>reason. reject_preauth A endpoint input_bytes now reason st);
          plain = (\<lambda>reason. reject_with (reject reason) reason id)
      in
      if sequence = 0 \<or> input_bytes < 0 then plain RejectMalformed
      else case s_bindings_by_id st binding_id of
        None \<Rightarrow> plain RejectNotBound
      | Some g \<Rightarrow> (case g_binding (s_heap st g) of
          None \<Rightarrow> plain RejectNotBound
        | Some binding \<Rightarrow>
            if b_id binding \<noteq> binding_id then plain RejectNotBound
            else if g_state (s_heap st g) = GrantStateRevoked then plain RejectRevoked
            else if g_state (s_heap st g) = GrantStateExpired then plain RejectExpired
            else (case fmlookup (s_rooms st) (g_room_id (s_heap st g)) of
              None \<Rightarrow> plain RejectRevoked
            | Some room \<Rightarrow>
                if r_state room \<noteq> roomStateOpen then plain RejectRevoked
                else if now \<ge> r_mono_deadline room
                then reject_with (reject RejectExpired) RejectExpired
                       (tombstone_room (g_room_id (s_heap st g)) now GrantStateExpired)
                else if now \<ge> g_mono_deadline (s_heap st g)
                then reject_with (reject RejectExpired) RejectExpired (terminal_grant g GrantStateExpired)
                else if room_id \<noteq> g_room_id (s_heap st g) then plain RejectWrongRoom
                else if session_id \<noteq> g_session_id (s_heap st g) then plain RejectAuthFailed
                else if now \<ge> b_deadline binding
                then reject_with (reject RejectExpired) RejectExpired (clear_binding g)
                else if \<not> endpoint_is_valid endpoint \<or> b_endpoint binding \<noteq> endpoint then plain RejectWrongEndpoint
                else if \<not> equal_tag (expected_tag (b_key binding)) tag then plain RejectAuthFailed
                else (let (window, fresh) = window_accept (b_replay binding) sequence;
                          binding' = binding\<lparr>b_replay := window\<rparr>;
                          st1 = update_grant g (\<lambda>gr. gr\<lparr>g_binding := Some binding'\<rparr>) st
                      in case charge_authenticated A g room input_bytes now st1 of
                        None \<Rightarrow> None
                      | Some (st2, False) \<Rightarrow> Some (st2, Inl RejectRateLimited)
                      | Some (st2, True) \<Rightarrow> Some (st2, if fresh then Inr (g, binding') else Inl RejectReplay)))))"

definition admit_client_ingress ::
    "'l limiter_api \<Rightarrow> hmac_fun \<Rightarrow> client_data_request \<Rightarrow> int \<Rightarrow> clock_reading \<Rightarrow> 'l store \<Rightarrow>
     ('l store \<times> (reject_reason + admitted_client_data)) option" where
  "admit_client_ingress A H request input_bytes reading st =
     (case admit_authenticated A (dq_room_id request) (dq_session_id request) (dq_binding_id request)
             (dq_sequence request) (dq_endpoint request) (dq_auth_tag request) input_bytes (mono reading)
             (\<lambda>key. client_data_tag H key Revision (dq_room_id request) (dq_session_id request)
                      (dq_binding_id request) (dq_sequence request) (dq_payload request)) st of
        None \<Rightarrow> None
      | Some (st', Inl reason) \<Rightarrow> Some (st', Inl reason)
      | Some (st', Inr (g, binding)) \<Rightarrow> Some (st', Inr
          \<lparr>ad_store = s_self st', ad_room_id = g_room_id (s_heap st' g), ad_session_id = g_session_id (s_heap st' g),
           ad_sender_participant_id = g_participant_id (s_heap st' g), ad_binding_id = b_id binding,
           ad_binding_generation = b_generation binding, ad_sequence = dq_sequence request\<rparr>))"

definition admit_ping ::
    "'l limiter_api \<Rightarrow> hmac_fun \<Rightarrow> ping_request \<Rightarrow> int \<Rightarrow> clock_reading \<Rightarrow> 'l store \<Rightarrow> ('l store \<times> reject_reason) option" where
  "admit_ping A H request input_bytes reading st =
     (case admit_authenticated A (pq_room_id request) (pq_session_id request) (pq_binding_id request)
             (pq_sequence request) (pq_endpoint request) (pq_auth_tag request) input_bytes (mono reading)
             (\<lambda>key. ping_tag H key Revision (pq_room_id request) (pq_session_id request)
                      (pq_binding_id request) (pq_sequence request)) st of
        None \<Rightarrow> None
      | Some (st', Inl reason) \<Rightarrow> Some (st', reason)
      | Some (st', Inr _) \<Rightarrow> Some (st', RejectNone))"

section \<open>Fan-out\<close>

text \<open>The loop over the grants of the room.\<close>

fun fanout_recipients :: "gref \<Rightarrow> duration \<Rightarrow> gref list \<Rightarrow> 'l store \<Rightarrow> 'l store \<times> addr_port list" where
  "fanout_recipients sender now [] st = (st, [])"
| "fanout_recipients sender now (g # gs) st =
     (if g = sender \<or> \<not> grant_live (s_heap st g) then fanout_recipients sender now gs st
      else if now \<ge> g_mono_deadline (s_heap st g)
      then fanout_recipients sender now gs (terminal_grant g GrantStateExpired st)
      else (let st1 = expire_relay g now st;
                (st2, rest) = fanout_recipients sender now gs st1
            in case g_binding (s_heap st1 g) of
                 None \<Rightarrow> (st2, rest)
               | Some b \<Rightarrow> (st2, b_endpoint b # rest)))"

definition charge_fanout ::
    "'l limiter_api \<Rightarrow> string \<Rightarrow> 'l room_record \<Rightarrow> int \<Rightarrow> int \<Rightarrow> duration \<Rightarrow> 'l store \<Rightarrow> ('l store \<times> bool) option" where
  "charge_fanout A room_id room writes n now st =
     (case allow_atomic A now
        [(r_fanout_writes room, writes), (r_fanout_bytes room, n),
         (Some (s_global_fanout_writes st), writes), (Some (s_global_fanout_bytes st), n)] of
        Charged [a, b, c, d] \<Rightarrow>
          Some (st\<lparr>s_rooms := fmupd room_id (room\<lparr>r_fanout_writes := Some a, r_fanout_bytes := Some b\<rparr>) (s_rooms st),
                   s_global_fanout_writes := c, s_global_fanout_bytes := d\<rparr>, True)
      | Denied \<Rightarrow> Some (st, False)
      | _ \<Rightarrow> None)"

definition admit_fanout ::
    "'l limiter_api \<Rightarrow> admitted_client_data \<Rightarrow> int \<Rightarrow> clock_reading \<Rightarrow> 'l store \<Rightarrow>
     ('l store \<times> (reject_reason + relay_plan)) option" where
  "admit_fanout A admitted output_bytes reading st =
     (let now = mono reading in
      if ad_store admitted \<noteq> s_self st then Some (st, Inl RejectNotBound)
      else case s_bindings_by_id st (ad_binding_id admitted) of
        None \<Rightarrow> Some (st, Inl RejectNotBound)
      | Some g \<Rightarrow> (case g_binding (s_heap st g) of
          None \<Rightarrow> Some (st, Inl RejectNotBound)
        | Some b0 \<Rightarrow>
            if b_id b0 \<noteq> ad_binding_id admitted \<or> b_generation b0 \<noteq> ad_binding_generation admitted \<or>
               g_room_id (s_heap st g) \<noteq> ad_room_id admitted \<or>
               g_session_id (s_heap st g) \<noteq> ad_session_id admitted \<or>
               g_participant_id (s_heap st g) \<noteq> ad_sender_participant_id admitted
            then Some (st, Inl RejectNotBound)
            else (case live_authority g now st of
              (st1, Inl reason) \<Rightarrow> Some (st1, Inl reason)
            | (st1, Inr room) \<Rightarrow>
                if (case g_binding (s_heap st1 g) of None \<Rightarrow> True | Some b \<Rightarrow> now \<ge> b_deadline b)
                then Some (clear_binding g st1, Inl RejectExpired)
                else if output_bytes < 0 \<or> output_bytes > int MaxDatagramBytes then Some (st1, Inl RejectOversized)
                else (let (st2, recipients) = fanout_recipients g now (r_grants room) st1;
                          plan = \<lparr>rp_room_id = g_room_id (s_heap st2 g), rp_session_id = g_session_id (s_heap st2 g),
                                  rp_sender_participant_id = g_participant_id (s_heap st2 g),
                                  rp_sequence = ad_sequence admitted, rp_recipients = recipients\<rparr>;
                          writes = int (length recipients)
                      in if recipients = [] then Some (st2, Inr plan)
                         else if output_bytes > max_int64 div writes then Some (st2, Inl RejectOversized)
                         else (case charge_fanout A (g_room_id (s_heap st2 g)) room writes (i64 (output_bytes * writes)) now st2 of
                             None \<Rightarrow> None
                           | Some (st3, False) \<Rightarrow> Some (st3, Inl RejectFanoutLimited)
                           | Some (st3, True) \<Rightarrow> Some (st3, Inr plan))))))"

section \<open>BeginChallenge\<close>

text \<open>The new challenge becomes the pending one of its grant and is indexed by its candidate.\<close>

definition with_pending :: "gref \<Rightarrow> challenge_record \<Rightarrow> 'l store \<Rightarrow> 'l store" where
  "with_pending g p st = update_grant g (\<lambda>gr. gr\<lparr>g_pending := Some p,
       g_binding_state := (if g_binding gr \<noteq> None then BindingStateRebindPending else g_binding_state gr)\<rparr>)
     (st\<lparr>s_candidates_by_id := (s_candidates_by_id st)(c_candidate_id p \<mapsto> g)\<rparr>)"

text \<open>\<open>BeginChallenge\<close> once the grant has authority and its expired relay state is gone.\<close>

definition issue_challenge ::
    "challenge_request \<Rightarrow> clock_reading \<Rightarrow> gref \<Rightarrow> 'l room_record \<Rightarrow> 'l store \<Rightarrow>
     ('l store \<times> (reject_reason + challenge_result)) option" where
  "issue_challenge request reading g room st =
     (let grant = s_heap st g in
      case g_pending grant of
        Some pending \<Rightarrow>
          if c_endpoint pending \<noteq> cq_endpoint request then Some (st, Inl RejectWrongEndpoint)
          else if c_client_nonce pending \<noteq> cq_client_nonce request then Some (st, Inl RejectAuthFailed)
          else Some (st, Inr (c_result pending))
      | None \<Rightarrow>
          if (case g_recent grant of Some recent \<Rightarrow> h_nonce recent = cq_client_nonce request | None \<Rightarrow> False)
          then Some (st, Inl RejectAuthFailed)
          else (case unique_candidate_id st (s_random st) of
            (None, src) \<Rightarrow> Some (st\<lparr>s_random := src\<rparr>, Inl RejectFatalRandom)
          | (Some candidate_id, src) \<Rightarrow> (case read_full 32 src of
              (None, src) \<Rightarrow> Some (st\<lparr>s_random := src\<rparr>, Inl RejectFatalRandom)
            | (Some server_nonce, src) \<Rightarrow>
                (let deadline = min (saturating_add (mono reading) (ChallengeTTL (s_limits st)))
                                  (min (g_mono_deadline grant) (r_mono_deadline room));
                     result = \<lparr>cr_candidate_id = candidate_id, cr_server_nonce = server_nonce,
                               cr_expires_unix_ms = project_wire_expiry_unix_ms reading deadline\<rparr>;
                     pending = \<lparr>c_candidate_id = candidate_id, c_client_nonce = cq_client_nonce request,
                                c_server_nonce = server_nonce, c_endpoint = cq_endpoint request,
                                c_deadline = deadline, c_result = result\<rparr>
                 in Some (with_pending g pending (st\<lparr>s_random := src\<rparr>), Inr result)))))"

definition begin_challenge ::
    "'l limiter_api \<Rightarrow> challenge_request \<Rightarrow> clock_reading \<Rightarrow> 'l store \<Rightarrow>
     ('l store \<times> (reject_reason + challenge_result)) option" where
  "begin_challenge A request reading st =
     (let now = mono reading in
      case admit_preauth A (cq_endpoint request) (cq_input_bytes request) now st of
        None \<Rightarrow> None
      | Some (st1, reason) \<Rightarrow>
          if reason \<noteq> RejectNone then Some (st1, Inl reason)
          else if \<not> endpoint_is_valid (cq_endpoint request) then Some (st1, Inl RejectAuthFailed)
          else (case s_grants_by_id st1 (cq_grant_id request) of
            None \<Rightarrow> Some (st1, Inl RejectUnknownGrant)
          | Some g \<Rightarrow> (case live_authority g now st1 of
              (st2, Inl reason) \<Rightarrow> Some (st2, Inl reason)
            | (st2, Inr room) \<Rightarrow>
                if cq_room_id request \<noteq> g_room_id (s_heap st2 g) then Some (st2, Inl RejectWrongRoom)
                else if cq_session_id request \<noteq> g_session_id (s_heap st2 g) then Some (st2, Inl RejectAuthFailed)
                else issue_challenge request reading g room (expire_relay g now st2))))"

section \<open>Authenticate\<close>

text \<open>The branch of a retransmitted authentication: the handshake \<open>recent\<close> has this candidate.\<close>

definition authenticate_recent ::
    "hmac_fun \<Rightarrow> authenticate_request \<Rightarrow> duration \<Rightarrow> gref \<Rightarrow> completed_handshake \<Rightarrow> 'l store \<Rightarrow>
     ('l store \<times> (reject_reason + bound_result)) option" where
  "authenticate_recent H request now g recent st =
     (let grant = s_heap st g in
      if now \<ge> h_deadline recent
      then Some (if (case g_binding grant of Some b \<Rightarrow> now \<ge> b_deadline b | None \<Rightarrow> False)
                 then clear_binding g st else clear_recent g st, Inl RejectExpired)
      else if h_endpoint recent \<noteq> aq_endpoint request then Some (st, Inl RejectWrongEndpoint)
      else case g_binding grant of
        None \<Rightarrow> Some (clear_recent g st, Inl RejectExpired)
      | Some b \<Rightarrow>
          if b_generation b \<noteq> h_generation recent \<or> b_id b \<noteq> br_binding_id (h_result recent)
          then Some (clear_recent g st, Inl RejectExpired)
          else if now \<ge> b_deadline b then Some (clear_binding g st, Inl RejectExpired)
          else (case g_secret grant of
              None \<Rightarrow> None
            | Some secret \<Rightarrow>
                if \<not> equal_tag (auth_tag H secret Revision (g_room_id grant) (g_session_id grant) (g_id grant)
                       (h_candidate_id recent) (h_nonce recent) (h_server_nonce recent)) (aq_auth_tag request)
                then Some (st, Inl RejectAuthFailed) else Some (st, Inr (h_result recent))))"

text \<open>Committing the binding: the earlier relay state of the grant is cleared first.\<close>

definition commit_binding :: "gref \<Rightarrow> binding_record \<Rightarrow> completed_handshake \<Rightarrow> 'l store \<Rightarrow> 'l store" where
  "commit_binding g binding completed st =
     (let st1 = clear_binding g (clear_recent g (clear_pending g st)) in
      update_grant g (\<lambda>gr. gr\<lparr>g_generation := b_generation binding, g_binding := Some binding,
          g_recent := Some completed, g_state := GrantStateBound, g_binding_state := BindingStateBound\<rparr>)
        (st1\<lparr>s_bindings_by_id := (s_bindings_by_id st1)(b_id binding \<mapsto> g),
             s_candidates_by_id := (s_candidates_by_id st1)(h_candidate_id completed \<mapsto> g)\<rparr>))"

definition authenticate_pending ::
    "hmac_fun \<Rightarrow> authenticate_request \<Rightarrow> clock_reading \<Rightarrow> gref \<Rightarrow> 'l room_record \<Rightarrow> challenge_record \<Rightarrow> 'l store \<Rightarrow>
     ('l store \<times> (reject_reason + bound_result)) option" where
  "authenticate_pending H request reading g room pending st =
     (let now = mono reading; grant = s_heap st g in
      if now \<ge> c_deadline pending then Some (clear_pending g st, Inl RejectExpired)
      else if c_endpoint pending \<noteq> aq_endpoint request then Some (st, Inl RejectWrongEndpoint)
      else case g_secret grant of
        None \<Rightarrow> None
      | Some secret \<Rightarrow>
          if \<not> equal_tag (auth_tag H secret Revision (g_room_id grant) (g_session_id grant) (g_id grant)
                 (c_candidate_id pending) (c_client_nonce pending) (c_server_nonce pending)) (aq_auth_tag request)
          then Some (st, Inl RejectAuthFailed)
          else (case unique_binding_id st (s_random st) of
              (None, src) \<Rightarrow> Some (st\<lparr>s_random := src\<rparr>, Inl RejectFatalRandom)
            | (Some binding_id, src) \<Rightarrow>
                (let key = binding_key H secret Revision (g_room_id grant) (g_session_id grant) (g_id grant)
                             (c_candidate_id pending) (c_client_nonce pending) (c_server_nonce pending);
                     deadline = min (saturating_add now (BindingTTL (s_limits st)))
                                  (min (g_mono_deadline grant) (r_mono_deadline room));
                     expires = project_wire_expiry_unix_ms reading deadline;
                     result = \<lparr>br_binding_id = binding_id, br_expires_unix_ms = expires,
                               br_auth_tag = bound_tag H key Revision (g_room_id grant) (g_session_id grant)
                                 (c_candidate_id pending) binding_id expires\<rparr>;
                     completed_deadline = min (saturating_add now (ChallengeTTL (s_limits st)))
                                  (min deadline (min (g_mono_deadline grant) (r_mono_deadline room)));
                     completed = \<lparr>h_candidate_id = c_candidate_id pending, h_nonce = c_client_nonce pending,
                                  h_server_nonce = c_server_nonce pending, h_endpoint = c_endpoint pending,
                                  h_deadline = completed_deadline, h_generation = g_generation grant + 1,
                                  h_result = result\<rparr>;
                     binding = \<lparr>b_id = binding_id, b_key = key, b_endpoint = aq_endpoint request,
                                b_deadline = deadline, b_generation = h_generation completed,
                                b_replay = fresh_window\<rparr>
                 in Some (commit_binding g binding completed (st\<lparr>s_random := src\<rparr>), Inr result))))"

definition authenticate ::
    "'l limiter_api \<Rightarrow> hmac_fun \<Rightarrow> authenticate_request \<Rightarrow> clock_reading \<Rightarrow> 'l store \<Rightarrow>
     ('l store \<times> (reject_reason + bound_result)) option" where
  "authenticate A H request reading st =
     (let now = mono reading in
      case admit_preauth A (aq_endpoint request) (aq_input_bytes request) now st of
        None \<Rightarrow> None
      | Some (st1, reason) \<Rightarrow>
          if reason \<noteq> RejectNone then Some (st1, Inl reason)
          else if \<not> endpoint_is_valid (aq_endpoint request) then Some (st1, Inl RejectAuthFailed)
          else (case s_candidates_by_id st1 (aq_candidate_id request) of
            None \<Rightarrow> Some (st1, Inl RejectAuthFailed)
          | Some g \<Rightarrow> (case live_authority g now st1 of
              (st2, Inl reason) \<Rightarrow> Some (st2, Inl reason)
            | (st2, Inr room) \<Rightarrow>
                (let grant = s_heap st2 g in
                 if aq_room_id request \<noteq> g_room_id grant then Some (st2, Inl RejectWrongRoom)
                 else if aq_session_id request \<noteq> g_session_id grant then Some (st2, Inl RejectAuthFailed)
                 else case g_recent grant of
                   Some recent \<Rightarrow>
                     if h_candidate_id recent = aq_candidate_id request
                     then authenticate_recent H request now g recent st2
                     else (case g_pending grant of
                         None \<Rightarrow> Some (st2, Inl RejectAuthFailed)
                       | Some pending \<Rightarrow>
                           if c_candidate_id pending \<noteq> aq_candidate_id request then Some (st2, Inl RejectAuthFailed)
                           else authenticate_pending H request reading g room pending st2)
                 | None \<Rightarrow> (case g_pending grant of
                         None \<Rightarrow> Some (st2, Inl RejectAuthFailed)
                       | Some pending \<Rightarrow>
                           if c_candidate_id pending \<noteq> aq_candidate_id request then Some (st2, Inl RejectAuthFailed)
                           else authenticate_pending H request reading g room pending st2)))))"

end
