(* ===== verification/Relay_Inv.thy ===== *)
theory Relay_Inv
  imports Store_Relay
begin

text \<open>
  The relay operations keep the invariant of the store and, with a limiter that behaves as
  documented, never panic. Both are proved per operation here and for every reachable store in the
  theory \<open>Store_Machine\<close>.
\<close>

section \<open>Charging\<close>

lemma allow_atomic_cases:
  assumes "limiter_law A" and "\<forall>c \<in> set charges. fst c \<noteq> None"
  obtains "allow_atomic A now charges = Denied"
  | ls where "allow_atomic A now charges = Charged ls" "length ls = length charges"
proof (cases "allow_atomic A now charges")
  case Charge_Panic
  obtain b where b: "preflight A now charges = Some b"
    using preflight_total [OF assms(2), of A now] by auto
  show ?thesis
  proof (cases b)
    case True
    then have "consume A now charges \<noteq> None"
      using consume_total [OF assms(1) preflight_True] b by simp
    with Charge_Panic b True show ?thesis by (auto simp: allow_atomic_def)
  qed (use Charge_Panic b in \<open>simp add: allow_atomic_def\<close>)
next
  case (Charged ls)
  then show ?thesis using that allow_atomic_Charged by blast
qed (use that in blast)

text \<open>The three sizes of charge groups that the relay uses.\<close>

lemma length_cases:
  "length ls = 2 \<Longrightarrow> \<exists>a b. ls = [a, b]" "length ls = 4 \<Longrightarrow> \<exists>a b c d. ls = [a, b, c, d]"
  "length ls = 6 \<Longrightarrow> \<exists>a b c d e f. ls = [a, b, c, d, e, f]"
  by (auto simp: length_Suc_conv eval_nat_numeral)

lemma charge_two:
  assumes "limiter_law A" and "fst x \<noteq> None" "fst y \<noteq> None"
  obtains "allow_atomic A now [x, y] = Denied" | a b where "allow_atomic A now [x, y] = Charged [a, b]"
proof (rule allow_atomic_cases [OF assms(1), of "[x, y]" now])
  fix ls assume "allow_atomic A now [x, y] = Charged ls" "length ls = length [x, y]"
  then show thesis using length_cases(1) [of ls] that by auto
qed (use assms that in auto)

lemma charge_four:
  assumes "limiter_law A" and "\<forall>c \<in> set [x, y, z, w]. fst c \<noteq> None"
  obtains "allow_atomic A now [x, y, z, w] = Denied"
  | a b c d where "allow_atomic A now [x, y, z, w] = Charged [a, b, c, d]"
proof (rule allow_atomic_cases [OF assms, of now])
  fix ls assume "allow_atomic A now [x, y, z, w] = Charged ls" "length ls = length [x, y, z, w]"
  then show thesis using length_cases(2) [of ls] that by auto
qed (rule that)

lemma charge_six:
  assumes "limiter_law A" and "\<forall>c \<in> set [x, y, z, w, u, v]. fst c \<noteq> None"
  obtains "allow_atomic A now [x, y, z, w, u, v] = Denied"
  | a b c d e f where "allow_atomic A now [x, y, z, w, u, v] = Charged [a, b, c, d, e, f]"
proof (rule allow_atomic_cases [OF assms, of now])
  fix ls assume "allow_atomic A now [x, y, z, w, u, v] = Charged ls" "length ls = length [x, y, z, w, u, v]"
  then show thesis using length_cases(3) [of ls] that by auto
qed (rule that)

section \<open>Pre-authentication\<close>

text \<open>What admission does to the source table: it never exceeds its bound.\<close>

definition sources_bounded :: "'l store \<Rightarrow> bool" where
  "sources_bounded st \<longleftrightarrow> len_map (s_preauth_sources st) \<le> HardMaxPreauthSources"

lemma expire_source_bounded: "sources_bounded st \<Longrightarrow> sources_bounded (expire_source now k st)"
  using len_map_fmdrop_le [of k "s_preauth_sources st"]
  by (auto simp: sources_bounded_def expire_source_def split: option.split)

lemma expire_source_core: "same_core st (expire_source now k st)"
  by (auto simp: expire_source_def same_core_def split: option.split)

lemma same_core_trans: "same_core st st1 \<Longrightarrow> same_core st1 st2 \<Longrightarrow> same_core st st2"
  by (simp add: same_core_def)

lemma admit_preauth_frame:
  assumes "admit_preauth A endpoint n now st = Some (st', r)"
  shows "same_core st st'" and "sources_bounded st \<Longrightarrow> sources_bounded st'"
proof -
  have "same_core st st' \<and> (sources_bounded st \<longrightarrow> sources_bounded st')"
  proof (cases "source_key endpoint")
    case None
    then show ?thesis using assms by (simp add: admit_preauth_def same_core_def)
  next
    case (Some key)
    define st1 where "st1 = expire_source now key st"
    have "same_core st1 st' \<and> (sources_bounded st1 \<longrightarrow> sources_bounded st')"
      using assms
      by (simp add: admit_preauth_def Some Let_def st1_def [symmetric] same_core_def sources_bounded_def len_map_fmupd
          split: if_splits charge_outcome.splits list.splits option.splits)
        (auto simp: len_map_fmupd)
    then show ?thesis
      using expire_source_core expire_source_bounded same_core_trans unfolding st1_def by blast
  qed
  then show "same_core st st'" "sources_bounded st \<Longrightarrow> sources_bounded st'" by simp_all
qed

lemma admit_preauth_total:
  assumes "limiter_law A"
  shows "admit_preauth A endpoint n now st \<noteq> None"
proof -
  have two: "(case allow_atomic A now [(Some a, i), (Some b, j)] of
      Charged [x, y] \<Rightarrow> Some (f x y) | Denied \<Rightarrow> Some z | _ \<Rightarrow> None) \<noteq> None" for a b i j f and z :: "'l store \<times> reject_reason"
    by (rule charge_two [OF assms, of "(Some a, i)" "(Some b, j)" now]) auto
  have four: "(case allow_atomic A now (source_charges s i st1) of
      Charged [x, y, v, w] \<Rightarrow> Some (f x y v w) | Denied \<Rightarrow> Some z | _ \<Rightarrow> None) \<noteq> None" for s i st1 f and z :: "'l store \<times> reject_reason"
    unfolding source_charges_def
    by (rule charge_four [OF assms, of "(Some (src_packets s), 1)" "(Some (src_bytes s), i)"
        "(Some (s_preauth_global_packets st1), 1)" "(Some (s_preauth_global_bytes st1), i)" now]) auto
  show ?thesis
    unfolding admit_preauth_def Let_def
    by (auto split: option.split simp: two four simp del: not_None_eq)
qed

section \<open>Refreshing a grant or a room\<close>

text \<open>A grant whose relay identifiers, identity and life are unchanged.\<close>

lemma refresh_grant_core_inv:
  assumes inv: "core_inv st" and own: "g \<in> owned st"
    and ok: "grant_ok (f (s_heap st g))"
    and same: "same_identity (s_heap st g) (f (s_heap st g))" "grant_live (f (s_heap st g)) = grant_live (s_heap st g)"
      "cands_of (f (s_heap st g)) = cands_of (s_heap st g)" "binds_of (f (s_heap st g)) = binds_of (s_heap st g)"
  shows "core_inv (update_grant g f st)"
proof -
  note idx = index_invD [OF core_index [OF inv]]
  have loc: "grant_local g st (update_grant g f st)" by (rule update_grant_local) (simp_all add: same)
  have heap: "s_heap (update_grant g f st) g = f (s_heap st g)"
    and tabs: "s_candidates_by_id (update_grant g f st) = s_candidates_by_id st"
      "s_bindings_by_id (update_grant g f st) = s_bindings_by_id st"
      "s_grants_by_id (update_grant g f st) = s_grants_by_id st"
      "s_active_sessions (update_grant g f st) = s_active_sessions st"
    by (simp_all add: update_grant_def)
  show ?thesis
  proof (rule grant_local_core_inv [OF loc inv own])
    show "grant_ok (s_heap (update_grant g f st) g)" by (simp add: heap ok)
    fix c x
    show "s_candidates_by_id (update_grant g f st) c = Some x \<longleftrightarrow>
        (if x = g then c \<in> cands_of (s_heap (update_grant g f st) g) else s_candidates_by_id st c = Some x)"
      using own idx(1) [of c g] by (simp add: heap tabs same)
    show "s_bindings_by_id (update_grant g f st) c = Some x \<longleftrightarrow>
        (if x = g then c \<in> binds_of (s_heap (update_grant g f st) g) else s_bindings_by_id st c = Some x)"
      using own idx(2) [of c g] by (simp add: heap tabs same)
  next
    fix i x assume "s_grants_by_id (update_grant g f st) i = Some x"
    then show "s_grants_by_id st i = Some x \<and> (x = g \<longrightarrow> grant_live (s_heap (update_grant g f st) g))"
      using idx(3) [of i x] by (auto simp: heap tabs same)
  qed (simp add: heap tabs same)
qed

lemma refresh_grant_store_inv:
  assumes "store_inv st" and "g \<in> owned st" and "grant_ok (f (s_heap st g))"
    and "same_identity (s_heap st g) (f (s_heap st g))" "grant_live (f (s_heap st g)) = grant_live (s_heap st g)"
      "cands_of (f (s_heap st g)) = cands_of (s_heap st g)" "binds_of (f (s_heap st g)) = binds_of (s_heap st g)"
  shows "store_inv (update_grant g f st)" and "owned (update_grant g f st) = owned st"
    and "grants_local {g} st (update_grant g f st)"
proof -
  have loc: "grant_local g st (update_grant g f st)" by (rule update_grant_local) (simp_all add: assms)
  then show "owned (update_grant g f st) = owned st" by (rule grant_local_owned)
  show gl: "grants_local {g} st (update_grant g f st)" by (rule grant_local_grants_local [OF loc]) simp
  have "core_inv (update_grant g f st)"
    using store_inv_core [OF assms(1)] assms(2-7) by (rule refresh_grant_core_inv)
  then show "store_inv (update_grant g f st)" using assms(1) by (rule grants_local_store_inv [OF gl])
qed

text \<open>A room whose state, capacity, deadline and grants are unchanged.\<close>

lemma refresh_room_store_inv:
  assumes inv: "store_inv st" and R: "fmlookup (s_rooms st) rid = Some R"
    and same: "r_state R' = r_state R" "r_grants R' = r_grants R" "r_mono_deadline R' = r_mono_deadline R"
    and ok: "room_ok R'"
  defines "st' \<equiv> st\<lparr>s_rooms := fmupd rid R' (s_rooms st)\<rparr>"
  shows "store_inv st'" and "owned st' = owned st"
proof -
  have look: "fmlookup (s_rooms st') r = (if r = rid then Some R' else fmlookup (s_rooms st) r)" for r
    by (simp add: st'_def)
  have rooms: "rooms_inv st" using inv by blast
  show own: "owned st' = owned st"
    by (rule owned_same_grants [OF R _ same(2)]) (simp add: st'_def)
  have "room_grant_ok st' rid R' g" if "g \<in> set (r_grants R)" for g
    using rooms R that by (auto simp: rooms_inv_def room_grant_ok_def st'_def same)
  moreover have "room_grant_ok st' r Q g" if "room_grant_ok st r Q g" for r Q g
    using that by (simp add: room_grant_ok_def st'_def)
  ultimately have "rooms_inv st'" using rooms ok by (simp add: rooms_inv_def look same(2))
  moreover have "s_heap st' = s_heap st" "s_grants_by_id st' = s_grants_by_id st"
    "s_candidates_by_id st' = s_candidates_by_id st" "s_bindings_by_id st' = s_bindings_by_id st"
    "s_active_sessions st' = s_active_sessions st" by (simp_all add: st'_def)
  ultimately have "core_inv st'"
    using store_inv_core [OF inv] by (simp add: core_inv_def index_inv_def live_grants_def own)
  moreover have "open_room_ids st' = open_room_ids st"
    using R same(1) by (auto simp: open_room_ids_def look split: if_splits)
  ultimately show "store_inv st'"
    using inv R by (simp add: store_inv_def st'_def len_map_fmupd)
qed

lemma admit_preauth_inv:
  assumes "store_inv st" and "admit_preauth A endpoint n now st = Some (st', r)"
  shows "store_inv st'" and "owned st' = owned st"
  using admit_preauth_frame [OF assms(2)] assms(1) same_core_store_inv [of st st'] same_core_owned [of st st']
  by (auto simp: sources_bounded_def store_inv_def)

section \<open>Bound packets\<close>

text \<open>The operation does not panic, and the store it leaves satisfies the invariant.\<close>

definition fine :: "('l store \<times> 'r) option \<Rightarrow> bool" where
  "fine r \<longleftrightarrow> (\<exists>st' x. r = Some (st', x) \<and> store_inv st')"

lemma fine_Some [simp]: "fine (Some (st', x)) = store_inv st'"
  by (simp add: fine_def)

lemma fine_None [simp]: "\<not> fine None"
  by (simp add: fine_def)

lemma reject_preauth_total:
  assumes "limiter_law A" and "store_inv st"
  obtains st' r where "reject_preauth A endpoint n now reason st = Some (st', r)" "same_core st st'" "store_inv st'"
proof -
  obtain st' r where eq: "admit_preauth A endpoint n now st = Some (st', r)"
    using admit_preauth_total [OF assms(1), of endpoint n now st] by auto
  have "reject_preauth A endpoint n now reason st = Some (st', if r \<noteq> RejectNone then RejectRateLimited else reason)"
    by (simp add: reject_preauth_def eq)
  then show ?thesis
    using that admit_preauth_frame(1) [OF eq] admit_preauth_inv(1) [OF assms(2) eq] by blast
qed

lemma fine_reject_with:
  assumes "limiter_law A" and "store_inv st"
    and "\<And>st'. same_core st st' \<Longrightarrow> store_inv st' \<Longrightarrow> store_inv (cleanup st')"
  shows "fine (reject_with (reject_preauth A endpoint n now reason st) reason cleanup)"
  by (rule reject_preauth_total [OF assms(1,2), of endpoint n now reason])
    (use assms(3) in \<open>auto simp: reject_with_def\<close>)

lemma grant_ok_cases:
  assumes "grant_ok gr" and "grant_live gr"
  obtains "g_state gr = GrantStateIssued" "g_binding gr = None" "g_recent gr = None"
  | b where "g_state gr = GrantStateBound" "g_binding gr = Some b"
proof (cases "g_binding gr")
  case None
  with assms have "g_state gr \<noteq> GrantStateBound" "g_recent gr = None"
    unfolding grant_ok_def recent_ok_def by (cases "g_recent gr"; simp)+
  with None assms(2) that(1) show ?thesis by (simp add: grant_live_def)
next
  case (Some b)
  with assms(1) have "g_state gr = GrantStateBound" by (simp add: grant_ok_def)
  with Some that(2) show ?thesis by blast
qed

lemma grant_ok_ingress:
  assumes "grant_ok gr" and "grant_live gr"
  shows "grant_ok (gr\<lparr>g_ingress_packets := Some a, g_ingress_bytes := Some b\<rparr>)"
  using assms
  by (rule grant_ok_cases)
    (use assms in \<open>simp_all add: grant_ok_def grant_live_def pending_ok_def recent_ok_def binding_ok_def\<close>)

lemma grant_ok_replay:
  "grant_ok gr \<Longrightarrow> g_binding gr = Some b \<Longrightarrow> grant_ok (gr\<lparr>g_binding := Some (b\<lparr>b_replay := w\<rparr>)\<rparr>)"
proof -
  assume ok: "grant_ok gr" and b: "g_binding gr = Some b"
  then have "g_state gr = GrantStateBound" by (simp add: grant_ok_def)
  then show ?thesis
    using ok b by (cases "g_recent gr") (simp_all add: grant_ok_def grant_live_def pending_ok_def recent_ok_def binding_ok_def)
qed

lemma charge_authenticated_total:
  assumes law: "limiter_law A" and inv: "store_inv st" and own: "g \<in> owned st" and live: "grant_live (s_heap st g)"
    and R: "fmlookup (s_rooms st) (g_room_id (s_heap st g)) = Some R" "r_state R \<noteq> roomStateTombstone"
  obtains st' b where "charge_authenticated A g R n now st = Some (st', b)" "store_inv st'" "owned st' = owned st"
    "same_identity (s_heap st g) (s_heap st' g)" "s_self st' = s_self st"
    "g_binding (s_heap st' g) = g_binding (s_heap st g)"
proof -
  have ok: "grant_ok (s_heap st g)" using owned_grant_ok [OF store_inv_core [OF inv] own] .
  have Rok: "room_ok R" using inv R(1) by (auto simp: store_inv_def core_inv_def rooms_inv_def)
  have some: "\<forall>c \<in> set [(g_ingress_packets (s_heap st g), 1::int), (g_ingress_bytes (s_heap st g), n),
       (r_ingress_packets R, 1), (r_ingress_bytes R, n),
       (Some (s_auth_global_packets st), 1), (Some (s_auth_global_bytes st), n)]. fst c \<noteq> None"
    using ok live Rok R(2) by (simp add: grant_ok_def room_ok_def)
  show thesis
  proof (rule charge_six [OF law some, of now])
    assume "allow_atomic A now [(g_ingress_packets (s_heap st g), 1), (g_ingress_bytes (s_heap st g), n),
       (r_ingress_packets R, 1), (r_ingress_bytes R, n),
       (Some (s_auth_global_packets st), 1), (Some (s_auth_global_bytes st), n)] = Denied"
    then show thesis using that [of st False] inv by (simp add: charge_authenticated_def Let_def)
  next
    fix a b c d e f
    assume ch: "allow_atomic A now [(g_ingress_packets (s_heap st g), 1), (g_ingress_bytes (s_heap st g), n),
       (r_ingress_packets R, 1), (r_ingress_bytes R, n),
       (Some (s_auth_global_packets st), 1), (Some (s_auth_global_bytes st), n)] = Charged [a, b, c, d, e, f]"
    let ?up = "\<lambda>gr. gr\<lparr>g_ingress_packets := Some a, g_ingress_bytes := Some b\<rparr>"
    let ?R = "R\<lparr>r_ingress_packets := Some c, r_ingress_bytes := Some d\<rparr>"
    define st1 where "st1 = update_grant g ?up st"
    define st2 where "st2 = st1\<lparr>s_rooms := fmupd (g_room_id (s_heap st g)) ?R (s_rooms st1)\<rparr>"
    define st3 where "st3 = st2\<lparr>s_auth_global_packets := e, s_auth_global_bytes := f\<rparr>"
    have 1: "store_inv st1" "owned st1 = owned st"
      using refresh_grant_store_inv(1,2) [of st g ?up, OF inv own grant_ok_ingress [OF ok live]]
      by (simp_all add: st1_def same_identity_def grant_live_def cands_of_def binds_of_def)
    have R1: "fmlookup (s_rooms st1) (g_room_id (s_heap st g)) = Some R" by (simp add: st1_def update_grant_def R)
    have "room_ok ?R" using Rok by (simp add: room_ok_def)
    then have 2: "store_inv st2" "owned st2 = owned st"
      unfolding st2_def using refresh_room_store_inv [OF 1(1) R1, of ?R] 1(2) by simp_all
    have core: "same_core st2 st3" by (simp add: st3_def same_core_def)
    have "len_map (s_preauth_sources st3) \<le> HardMaxPreauthSources" using 2(1) by (simp add: st3_def store_inv_def)
    then have 3: "store_inv st3" "owned st3 = owned st"
      using same_core_store_inv [OF core 2(1)] same_core_owned [OF core] 2(2) by simp_all
    have eq: "charge_authenticated A g R n now st = Some (st3, True)"
      by (simp add: charge_authenticated_def Let_def ch st3_def st2_def st1_def update_grant_def)
    show thesis
      by (rule that [OF eq 3]) (simp_all add: st3_def st2_def st1_def update_grant_def same_identity_def)
  qed
qed

lemma same_core_facts:
  assumes "same_core st st'"
  shows "s_heap st' = s_heap st" "s_rooms st' = s_rooms st" "owned st' = owned st" "s_limits st' = s_limits st"
    "s_self st' = s_self st" "s_next st' = s_next st" "s_grants_by_id st' = s_grants_by_id st"
    "s_candidates_by_id st' = s_candidates_by_id st" "s_bindings_by_id st' = s_bindings_by_id st"
  using assms same_core_owned [OF assms] by (simp_all add: same_core_def)

text \<open>The binding index leads to a live, bound grant of a resident open room.\<close>

lemma bound_grant:
  assumes inv: "store_inv st" and look: "s_bindings_by_id st i = Some g"
  obtains b R where "g \<in> owned st" "g_binding (s_heap st g) = Some b" "b_id b = i" "grant_ok (s_heap st g)"
    "g_state (s_heap st g) = GrantStateBound" "fmlookup (s_rooms st) (g_room_id (s_heap st g)) = Some R"
    "r_state R = roomStateOpen" "g \<in> set (r_grants R)"
proof -
  note idx = index_invD [OF core_index [OF store_inv_core [OF inv]]]
  obtain b where b: "g \<in> owned st" "g_binding (s_heap st g) = Some b" "b_id b = i"
    using look idx(2) by (auto simp: cands_of_simps)
  have ok: "grant_ok (s_heap st g)" using owned_grant_ok [OF store_inv_core [OF inv] b(1)] .
  with b have bound: "g_state (s_heap st g) = GrantStateBound" by (simp add: grant_ok_def)
  obtain R where R: "fmlookup (s_rooms st) (g_room_id (s_heap st g)) = Some R" "g \<in> set (r_grants R)"
    "room_grant_ok st (g_room_id (s_heap st g)) R g" "r_state R \<noteq> roomStateTombstone"
    using owned_room [OF core_inv_rooms [OF store_inv_core [OF inv]] b(1)] by blast
  have "r_state R = roomStateOpen" using R(3,4) bound by (cases "r_state R") (auto simp: room_grant_ok_def grant_live_def)
  with that b ok bound R show thesis by blast
qed

text \<open>The last step: the replay window, then the charges.\<close>

lemma accept_and_charge:
  assumes law: "limiter_law A" and inv: "store_inv st" and look: "s_bindings_by_id st i = Some g"
    and b: "g_binding (s_heap st g) = Some b" and R: "fmlookup (s_rooms st) (g_room_id (s_heap st g)) = Some R"
  obtains st2 ok where
    "charge_authenticated A g R n now (update_grant g (\<lambda>gr. gr\<lparr>g_binding := Some (b\<lparr>b_replay := w\<rparr>)\<rparr>) st) = Some (st2, ok)"
    "store_inv st2" "owned st2 = owned st" "same_identity (s_heap st g) (s_heap st2 g)" "s_self st2 = s_self st"
    "g_binding (s_heap st2 g) = Some (b\<lparr>b_replay := w\<rparr>)"
proof -
  let ?up = "\<lambda>gr. gr\<lparr>g_binding := Some (b\<lparr>b_replay := w\<rparr>)\<rparr>"
  obtain R' where own: "g \<in> owned st" "grant_ok (s_heap st g)" "g_state (s_heap st g) = GrantStateBound"
    and R': "fmlookup (s_rooms st) (g_room_id (s_heap st g)) = Some R'" "r_state R' = roomStateOpen"
    using bound_grant [OF inv look] by metis
  define st1 where "st1 = update_grant g ?up st"
  have 1: "store_inv st1" "owned st1 = owned st"
    using refresh_grant_store_inv(1,2) [of st g ?up, OF inv own(1) grant_ok_replay [OF own(2) b]] b
    by (simp_all add: st1_def same_identity_def grant_live_def cands_of_def binds_of_def)
  have f: "g_room_id (s_heap st1 g) = g_room_id (s_heap st g)" "s_rooms st1 = s_rooms st" "s_self st1 = s_self st"
    "grant_live (s_heap st1 g)" "g_binding (s_heap st1 g) = Some (b\<lparr>b_replay := w\<rparr>)" "same_identity (s_heap st g) (s_heap st1 g)"
    using own(3) by (simp_all add: st1_def update_grant_def grant_live_def same_identity_def)
  have own1: "g \<in> owned st1" using own(1) 1(2) by simp
  have R1: "fmlookup (s_rooms st1) (g_room_id (s_heap st1 g)) = Some R" "r_state R \<noteq> roomStateTombstone"
    using R R' f by simp_all
  obtain st2 ok where ch: "charge_authenticated A g R n now st1 = Some (st2, ok)" "store_inv st2" "owned st2 = owned st1"
    "same_identity (s_heap st1 g) (s_heap st2 g)" "s_self st2 = s_self st1"
    "g_binding (s_heap st2 g) = g_binding (s_heap st1 g)"
    by (rule charge_authenticated_total [OF law 1(1) own1 f(4) R1, of n now])
  show thesis
    using that [OF ch(1) [unfolded st1_def]] ch(2-6) 1(2) f same_identity_trans [OF f(6) ch(4)] by simp
qed

lemma admit_authenticated_fine:
  assumes law: "limiter_law A" and inv: "store_inv st"
  shows "fine (admit_authenticated A room_id session_id i sequence endpoint tag n now expected st)"
proof -
  let ?rej = "\<lambda>r. reject_preauth A endpoint n now r st"
  have plain: "fine (reject_with (?rej r) r id)" for r
    by (rule fine_reject_with [OF law inv]) simp
  have tomb: "fine (reject_with (?rej r) r (tombstone_room rid now GrantStateExpired))"
    if "fmlookup (s_rooms st) rid = Some R" "r_state R = roomStateOpen" for r rid R
    by (rule fine_reject_with [OF law inv], rule tombstone_room_spec(1))
      (use that in \<open>auto simp: same_core_facts\<close>)
  have dead: "fine (reject_with (?rej r) r (terminal_grant g GrantStateExpired))"
    and unb: "fine (reject_with (?rej r) r (clear_binding g))" if "s_bindings_by_id st i = Some g" for r g
  proof -
    have "g \<in> owned st" by (rule bound_grant [OF inv that])
    then show "fine (reject_with (?rej r) r (terminal_grant g GrantStateExpired))"
      "fine (reject_with (?rej r) r (clear_binding g))"
      by (intro fine_reject_with [OF law inv]; simp add: grant_ops_store_inv same_core_facts)+
  qed
  have last: "fine (case charge_authenticated A g R n now (update_grant g (\<lambda>gr. gr\<lparr>g_binding := Some (b\<lparr>b_replay := w\<rparr>)\<rparr>) st) of
      None \<Rightarrow> None | Some (st2, False) \<Rightarrow> Some (st2, Inl RejectRateLimited)
      | Some (st2, True) \<Rightarrow> Some (st2, if fresh then Inr (g, b\<lparr>b_replay := w\<rparr>) else Inl RejectReplay))"
    if "s_bindings_by_id st i = Some g" "g_binding (s_heap st g) = Some b"
      "fmlookup (s_rooms st) (g_room_id (s_heap st g)) = Some R" for g b R w fresh
    by (rule accept_and_charge [OF law inv that, of n now w]) (auto split: bool.split)
  show ?thesis
    unfolding admit_authenticated_def Let_def
    by (auto simp: plain tomb dead unb last split: option.split prod.split)
qed

text \<open>What an admitted packet went through.\<close>

definition packet_admitted ::
    "'l limiter_api \<Rightarrow> string \<Rightarrow> string \<Rightarrow> bytes16 \<Rightarrow> u64 \<Rightarrow> addr_port \<Rightarrow> bytes32 \<Rightarrow> int \<Rightarrow> duration \<Rightarrow>
     (bytes32 \<Rightarrow> bytes32) \<Rightarrow> 'l store \<Rightarrow> 'l store \<Rightarrow> gref \<Rightarrow> binding_record \<Rightarrow> 'l room_record \<Rightarrow> bool" where
  "packet_admitted A room_id session_id i sequence endpoint tag n now expected st st' g b R \<longleftrightarrow>
     s_bindings_by_id st i = Some g \<and> g_binding (s_heap st g) = Some b \<and> b_id b = i \<and>
     fmlookup (s_rooms st) (g_room_id (s_heap st g)) = Some R \<and> r_state R = roomStateOpen \<and>
     now < r_mono_deadline R \<and> now < g_mono_deadline (s_heap st g) \<and> now < b_deadline b \<and>
     room_id = g_room_id (s_heap st g) \<and> session_id = g_session_id (s_heap st g) \<and>
     endpoint_is_valid endpoint \<and> b_endpoint b = endpoint \<and> tag = expected (b_key b) \<and>
     sequence \<noteq> 0 \<and> 0 \<le> n \<and> snd (window_accept (b_replay b) sequence) \<and>
     charge_authenticated A g R n now
       (update_grant g (\<lambda>gr. gr\<lparr>g_binding := Some (b\<lparr>b_replay := fst (window_accept (b_replay b) sequence)\<rparr>)\<rparr>) st) =
         Some (st', True)"

lemma reject_with_Inl [simp]: "reject_with r reason cleanup \<noteq> Some (st', Inr x)"
  by (auto simp: reject_with_def split: option.split)

text \<open>An early rejection is not a success: the remaining branch decides.\<close>

lemma if_reject: "(if P then reject_with r x c else e) = Some (st', Inr y) \<longleftrightarrow> \<not> P \<and> e = Some (st', Inr y)"
  by simp

lemma case_reject:
  "(case u of None \<Rightarrow> reject_with r x c | Some a \<Rightarrow> f a) = Some (st', Inr y) \<longleftrightarrow>
     (\<exists>a. u = Some a \<and> f a = Some (st', Inr y))"
  by (cases u) simp_all

lemma charged_iff:
  "(case ch of None \<Rightarrow> None | Some p \<Rightarrow> (case snd p of True \<Rightarrow> Some (fst p, if fresh then Inr y else Inl RejectReplay)
      | False \<Rightarrow> Some (fst p, Inl RejectRateLimited))) = Some (st', Inr z) \<longleftrightarrow>
   ch = Some (st', True) \<and> fresh \<and> y = z"
  by (auto split: option.split prod.split bool.split)

lemma admit_authenticated_success:
  "admit_authenticated A room_id session_id i sequence endpoint tag n now expected st = Some (st', Inr (g, b')) \<Longrightarrow>
     (\<exists>b R. packet_admitted A room_id session_id i sequence endpoint tag n now expected st st' g b R \<and>
        b' = b\<lparr>b_replay := fst (window_accept (b_replay b) sequence)\<rparr>)"
  unfolding admit_authenticated_def Let_def if_reject case_reject split_def charged_iff packet_admitted_def
  by (auto simp: not_le not_less)

section \<open>Fan-out\<close>

text \<open>The binding a packet sent at \<open>now\<close> reaches a grant through, if any.\<close>

definition reachable_binding :: "duration \<Rightarrow> 'l grant_record \<Rightarrow> binding_record option" where
  "reachable_binding now gr =
     (if grant_live gr \<and> now < g_mono_deadline gr then unexpired b_deadline now (g_binding gr) else None)"

definition recipients_of :: "gref \<Rightarrow> duration \<Rightarrow> gref list \<Rightarrow> (gref \<Rightarrow> 'l grant_record) \<Rightarrow> addr_port list" where
  "recipients_of sender now gs heap =
     map b_endpoint (List.map_filter (\<lambda>g. reachable_binding now (heap g)) (filter (\<lambda>g. g \<noteq> sender) gs))"

lemma recipients_of_simps [simp]:
  "recipients_of sender now [] heap = []"
  "recipients_of sender now (g # gs) heap =
     (if g = sender then recipients_of sender now gs heap
      else case reachable_binding now (heap g) of
        None \<Rightarrow> recipients_of sender now gs heap
      | Some b \<Rightarrow> b_endpoint b # recipients_of sender now gs heap)"
  by (simp_all add: recipients_of_def split: option.split)

lemma recipients_of_cong:
  "(\<And>g. g \<in> set gs \<Longrightarrow> heap g = heap' g) \<Longrightarrow> recipients_of sender now gs heap = recipients_of sender now gs heap'"
  by (induction gs) (auto split: option.split)

lemma fanout_recipients_spec:
  assumes "store_inv st" and "set gs \<subseteq> owned st" and "distinct gs"
    and "fanout_recipients sender now gs st = (st', recipients)"
  shows "store_inv st' \<and> grants_local (set gs - {sender}) st st' \<and>
    recipients = recipients_of sender now gs (s_heap st)"
  using assms
proof (induction gs arbitrary: st st' recipients)
  case (Cons g gs)
  have own: "g \<in> owned st" and rest: "set gs \<subseteq> owned st" "distinct gs" "g \<notin> set gs" using Cons.prems(2,3) by auto
  show ?case
  proof (cases "g = sender \<or> \<not> grant_live (s_heap st g)")
    case True
    have IH: "store_inv st' \<and> grants_local (set gs - {sender}) st st' \<and> recipients = recipients_of sender now gs (s_heap st)"
      using True Cons.prems(4) by (intro Cons.IH [OF Cons.prems(1) rest(1,2)]) simp
    have "recipients_of sender now (g # gs) (s_heap st) = recipients_of sender now gs (s_heap st)"
      using True by (auto simp: reachable_binding_def)
    moreover have "grants_local (set (g # gs) - {sender}) st st'" using IH by (auto simp: grants_local_def)
    ultimately show ?thesis using IH by simp
  next
    case False
    define st1 where "st1 = (if now \<ge> g_mono_deadline (s_heap st g) then terminal_grant g GrantStateExpired st else expire_relay g now st)"
    have 1: "store_inv st1" "grants_local {g} st st1"
      using grant_ops_store_inv(4,5) [OF Cons.prems(1) own] terminal_grant_step [OF store_inv_core [OF Cons.prems(1)] own]
        grant_local_grants_local [OF expire_relay_local, of g "{g}"]
      by (auto simp: st1_def)
    have own1: "set gs \<subseteq> owned st1" using rest(1) grants_local_fields(11) [OF 1(2)] by simp
    obtain st2 rs where rec: "fanout_recipients sender now gs st1 = (st2, rs)" by fastforce
    note IH = Cons.IH [OF 1(1) own1 rest(2) rec]
    have same: "recipients_of sender now gs (s_heap st1) = recipients_of sender now gs (s_heap st)"
    proof (rule recipients_of_cong)
      fix x assume "x \<in> set gs"
      with rest(3) have "x \<notin> {g}" by auto
      then show "s_heap st1 x = s_heap st x" by (rule grants_local_fields(8) [OF 1(2)])
    qed
    have reach: "reachable_binding now (s_heap st g) =
        (if now \<ge> g_mono_deadline (s_heap st g) then None else g_binding (s_heap st1 g))"
      using False expire_relay_fields(1) [OF store_inv_core [OF Cons.prems(1)] own, of now]
      by (simp add: reachable_binding_def st1_def)
    have res: "st' = st2" "recipients = recipients_of sender now (g # gs) (s_heap st)"
    proof -
      have tail: "rs = recipients_of sender now gs (s_heap st)" using IH same by simp
      have "(st', recipients) = fanout_recipients sender now (g # gs) st" using Cons.prems(4) by simp
      also have "\<dots> = (st2, recipients_of sender now (g # gs) (s_heap st))"
      proof (cases "now \<ge> g_mono_deadline (s_heap st g)")
        case True
        then have "st1 = terminal_grant g GrantStateExpired st" by (simp add: st1_def)
        with rec have "fanout_recipients sender now gs (terminal_grant g GrantStateExpired st) = (st2, rs)" by simp
        with False True reach tail show ?thesis by simp
      next
        case early: False
        then have st1: "st1 = expire_relay g now st" by (simp add: st1_def)
        with rec have "fanout_recipients sender now gs (expire_relay g now st) = (st2, rs)" by simp
        with False early reach tail show ?thesis
          by (cases "g_binding (s_heap st1 g)") (simp_all add: Let_def st1 [symmetric])
      qed
      finally show "st' = st2" "recipients = recipients_of sender now (g # gs) (s_heap st)" by simp_all
    qed
    have "grants_local (set (g # gs) - {sender}) st st1" "grants_local (set (g # gs) - {sender}) st1 st2"
      using 1(2) IH False by (auto simp: grants_local_def)
    then have "grants_local (set (g # gs) - {sender}) st st2" by (rule grants_local_trans)
    with IH res show ?thesis by simp
  qed
qed simp

lemma charge_fanout_total:
  assumes law: "limiter_law A" and inv: "store_inv st"
    and R: "fmlookup (s_rooms st) rid = Some R" "r_state R \<noteq> roomStateTombstone"
  obtains st' ok where "charge_fanout A rid R writes n now st = Some (st', ok)" "store_inv st'"
    "s_heap st' = s_heap st"
proof -
  have Rok: "room_ok R" using inv R(1) by (auto simp: store_inv_def core_inv_def rooms_inv_def)
  have some: "\<forall>c \<in> set [(r_fanout_writes R, writes), (r_fanout_bytes R, n),
       (Some (s_global_fanout_writes st), writes), (Some (s_global_fanout_bytes st), n)]. fst c \<noteq> None"
    using Rok R(2) by (simp add: room_ok_def)
  show thesis
  proof (rule charge_four [OF law some, of now])
    assume "allow_atomic A now [(r_fanout_writes R, writes), (r_fanout_bytes R, n),
       (Some (s_global_fanout_writes st), writes), (Some (s_global_fanout_bytes st), n)] = Denied"
    then show thesis using that [of st False] inv by (simp add: charge_fanout_def)
  next
    fix a b c d
    assume ch: "allow_atomic A now [(r_fanout_writes R, writes), (r_fanout_bytes R, n),
       (Some (s_global_fanout_writes st), writes), (Some (s_global_fanout_bytes st), n)] = Charged [a, b, c, d]"
    let ?R = "R\<lparr>r_fanout_writes := Some a, r_fanout_bytes := Some b\<rparr>"
    define st1 where "st1 = st\<lparr>s_rooms := fmupd rid ?R (s_rooms st)\<rparr>"
    define st2 where "st2 = st1\<lparr>s_global_fanout_writes := c, s_global_fanout_bytes := d\<rparr>"
    have "room_ok ?R" using Rok by (simp add: room_ok_def)
    then have 1: "store_inv st1" unfolding st1_def using refresh_room_store_inv(1) [OF inv R(1), of ?R] by simp
    have core: "same_core st1 st2" by (simp add: st2_def same_core_def)
    have "len_map (s_preauth_sources st2) \<le> HardMaxPreauthSources" using 1 by (simp add: st2_def store_inv_def)
    then have 2: "store_inv st2" by (rule same_core_store_inv [OF core 1])
    have eq: "charge_fanout A rid R writes n now st = Some (st2, True)"
      by (simp add: charge_fanout_def ch st2_def st1_def)
    show thesis by (rule that [OF eq 2]) (simp add: st2_def st1_def)
  qed
qed

text \<open>The sender's side of a fan-out: the admitted packet still belongs to a live binding.\<close>

definition fanout_sender :: "admitted_client_data \<Rightarrow> duration \<Rightarrow> 'l store \<Rightarrow> gref \<Rightarrow> binding_record \<Rightarrow> 'l room_record \<Rightarrow> bool" where
  "fanout_sender ad now st g b R \<longleftrightarrow>
     ad_store ad = s_self st \<and> s_bindings_by_id st (ad_binding_id ad) = Some g \<and>
     g_binding (s_heap st g) = Some b \<and> b_id b = ad_binding_id ad \<and> b_generation b = ad_binding_generation ad \<and>
     g_room_id (s_heap st g) = ad_room_id ad \<and> g_session_id (s_heap st g) = ad_session_id ad \<and>
     g_participant_id (s_heap st g) = ad_sender_participant_id ad \<and>
     fmlookup (s_rooms st) (ad_room_id ad) = Some R \<and> r_state R = roomStateOpen \<and> g \<in> set (r_grants R) \<and>
     now < r_mono_deadline R \<and> now < g_mono_deadline (s_heap st g) \<and> now < b_deadline b"

definition fanout_plan :: "admitted_client_data \<Rightarrow> addr_port list \<Rightarrow> relay_plan" where
  "fanout_plan ad recipients = \<lparr>rp_room_id = ad_room_id ad, rp_session_id = ad_session_id ad,
     rp_sender_participant_id = ad_sender_participant_id ad, rp_sequence = ad_sequence ad, rp_recipients = recipients\<rparr>"

lemma admit_fanout_cases:
  assumes law: "limiter_law A" and inv: "store_inv st"
  shows "\<exists>st' res. admit_fanout A ad n reading st = Some (st', res) \<and> store_inv st' \<and>
    (\<forall>plan. res = Inr plan \<longrightarrow> (\<exists>g b R. fanout_sender ad (mono reading) st g b R \<and> 0 \<le> n \<and> n \<le> int MaxDatagramBytes \<and>
       plan = fanout_plan ad (recipients_of g (mono reading) (r_grants R) (s_heap st))))"
proof -
  let ?now = "mono reading"
  show ?thesis
  proof (cases "ad_store ad = s_self st")
    case False
    then show ?thesis using inv by (simp add: admit_fanout_def Let_def)
  next
    case self: True
    show ?thesis
    proof (cases "s_bindings_by_id st (ad_binding_id ad)")
      case None
      then show ?thesis using inv self by (simp add: admit_fanout_def Let_def)
    next
      case look: (Some g)
      obtain b where own: "g \<in> owned st" and b: "g_binding (s_heap st g) = Some b" "b_id b = ad_binding_id ad"
        using bound_grant [OF inv look] by metis
      show ?thesis
      proof (cases "b_generation b = ad_binding_generation ad \<and> g_room_id (s_heap st g) = ad_room_id ad \<and>
          g_session_id (s_heap st g) = ad_session_id ad \<and> g_participant_id (s_heap st g) = ad_sender_participant_id ad")
        case False
        then show ?thesis using inv self look b by (simp add: admit_fanout_def Let_def)
      next
        case ids: True
        obtain st1 la where la: "live_authority g ?now st = (st1, la)" by fastforce
        have inv1: "store_inv st1" by (rule live_authority_store_inv [OF inv own la])
        show ?thesis
        proof (cases la)
          case (Inl r)
          then show ?thesis using inv1 self look b ids la by (simp add: admit_fanout_def Let_def)
        next
          case (Inr R)
          note ok = live_authority_ok [OF inv own la [unfolded Inr]]
          have st1: "st1 = st" by (rule ok(1))
          have head: "admit_fanout A ad n reading st =
            (if ?now \<ge> b_deadline b then Some (clear_binding g st, Inl RejectExpired)
             else if n < 0 \<or> n > int MaxDatagramBytes then Some (st, Inl RejectOversized)
             else (case fanout_recipients g ?now (r_grants R) st of (st2, recipients) \<Rightarrow>
               let plan = \<lparr>rp_room_id = g_room_id (s_heap st2 g), rp_session_id = g_session_id (s_heap st2 g),
                                  rp_sender_participant_id = g_participant_id (s_heap st2 g),
                                  rp_sequence = ad_sequence ad, rp_recipients = recipients\<rparr>;
                   writes = int (length recipients)
               in if recipients = [] then Some (st2, Inr plan)
                  else if n > max_int64 div writes then Some (st2, Inl RejectOversized)
                  else (case charge_fanout A (g_room_id (s_heap st2 g)) R writes (i64 (n * writes)) ?now st2 of
                      None \<Rightarrow> None
                    | Some (st3, False) \<Rightarrow> Some (st3, Inl RejectFanoutLimited)
                    | Some (st3, True) \<Rightarrow> Some (st3, Inr plan))))"
            using self look b ids la Inr st1 by (simp add: admit_fanout_def Let_def)
          consider (late) "?now \<ge> b_deadline b" | (size) "?now < b_deadline b" "n < 0 \<or> n > int MaxDatagramBytes"
            | (go) "?now < b_deadline b" "0 \<le> n" "n \<le> int MaxDatagramBytes" by fastforce
          then show ?thesis
          proof cases
            case late
            then show ?thesis using grant_ops_store_inv(3) [OF inv own] by (simp add: head)
          next
            case size
            then show ?thesis using inv by (simp add: head)
          next
            case go
            obtain st2 rs where fr: "fanout_recipients g ?now (r_grants R) st = (st2, rs)" by fastforce
            have dist: "distinct (r_grants R)" "set (r_grants R) \<subseteq> owned st"
              using ok(2,4,8) by (auto simp: room_ok_def owned_def)
            have sp: "store_inv st2" "grants_local (set (r_grants R) - {g}) st st2"
              "rs = recipients_of g ?now (r_grants R) (s_heap st)"
              using fanout_recipients_spec [OF inv dist(2,1) fr] by simp_all
            have same: "s_heap st2 g = s_heap st g" "s_rooms st2 = s_rooms st"
              using grants_local_fields(8) [OF sp(2), of g] grants_local_fields(1) [OF sp(2)] by simp_all
            have sender: "fanout_sender ad ?now st g b R"
              using self look b ids ok(2-7) go(1) by (simp add: fanout_sender_def)
            have R2: "fmlookup (s_rooms st2) (g_room_id (s_heap st g)) = Some R" "r_state R \<noteq> roomStateTombstone"
              using ok(2,4) by (simp_all add: same)
            have plan: "\<lparr>rp_room_id = g_room_id (s_heap st2 g), rp_session_id = g_session_id (s_heap st2 g),
                rp_sender_participant_id = g_participant_id (s_heap st2 g),
                rp_sequence = ad_sequence ad, rp_recipients = rs\<rparr> = fanout_plan ad rs"
              using ids by (simp add: fanout_plan_def same)
            have body: "admit_fanout A ad n reading st =
               (if rs = [] then Some (st2, Inr (fanout_plan ad rs))
                else if n > max_int64 div int (length rs) then Some (st2, Inl RejectOversized)
                else (case charge_fanout A (g_room_id (s_heap st g)) R (int (length rs)) (i64 (n * int (length rs))) ?now st2 of
                    None \<Rightarrow> None
                  | Some (st3, False) \<Rightarrow> Some (st3, Inl RejectFanoutLimited)
                  | Some (st3, True) \<Rightarrow> Some (st3, Inr (fanout_plan ad rs))))"
            proof -
              have "\<not> b_deadline b \<le> ?now" "\<not> (n < 0 \<or> int MaxDatagramBytes < n)" using go by simp_all
              then show ?thesis
                using head unfolding fr prod.case Let_def plan if_False not_False_eq_True
                unfolding same(1) by (simp only: if_False)
            qed
            obtain st3 okc where ch: "charge_fanout A (g_room_id (s_heap st g)) R (int (length rs)) (i64 (n * int (length rs))) ?now st2 = Some (st3, okc)"
              "store_inv st3"
              by (rule charge_fanout_total [OF law sp(1) R2])
            have "\<exists>st' res. admit_fanout A ad n reading st = Some (st', res) \<and> store_inv st' \<and>
                (\<forall>plan. res = Inr plan \<longrightarrow> plan = fanout_plan ad rs)"
              unfolding body using sp(1) ch by (cases okc) auto
            then show ?thesis using sender go sp(3) by blast
          qed
        qed
      qed
    qed
  qed
qed

end
