(* ===== verification/Handshake_Inv.thy ===== *)
theory Handshake_Inv
  imports Relay_Inv
begin

text \<open>The handshake operations of \<open>internal/store/relay.go\<close>: what \<open>begin_challenge\<close> and
\<open>authenticate\<close> answer on every branch, and that the store invariant holds after each of them.  A
challenge writes one pending record (\<open>with_pending\<close>); a completed handshake clears the pending
record and the old binding, then writes a new binding and its completed handshake
(\<open>with_binding\<close>).\<close>

section \<open>The handshake\<close>

text \<open>\<open>with_pending\<close> under a candidate identifier that no grant is known by.\<close>

lemma grant_ok_with_pending:
  assumes ok: "grant_ok gr" and live: "grant_live gr" and p: "pending_ok gr p"
    and new: "c_candidate_id p \<notin> cands_of gr"
  shows "grant_ok (gr\<lparr>g_pending := Some p,
    g_binding_state := (if g_binding gr \<noteq> None then BindingStateRebindPending else g_binding_state gr)\<rparr>)"
  using ok live
proof (rule grant_ok_cases)
  assume "g_state gr = GrantStateIssued" "g_binding gr = None" "g_recent gr = None"
  then show ?thesis using ok p by (simp add: grant_ok_def grant_live_def pending_ok_def)
next
  fix b assume b: "g_state gr = GrantStateBound" "g_binding gr = Some b"
  show ?thesis
  proof (cases "g_recent gr")
    case None
    then show ?thesis using b ok p by (simp add: grant_ok_def grant_live_def pending_ok_def binding_ok_def)
  next
    case (Some h)
    then have "h_candidate_id h \<noteq> c_candidate_id p" using new by (auto simp: cands_of_def)
    then show ?thesis
      using b ok p Some by (simp add: grant_ok_def grant_live_def pending_ok_def binding_ok_def recent_ok_def)
  qed
qed

lemma with_pending_store_inv:
  assumes inv: "store_inv st" and own: "g \<in> owned st" and live: "grant_live (s_heap st g)"
    and none: "g_pending (s_heap st g) = None" and p: "pending_ok (s_heap st g) p"
    and free: "s_candidates_by_id st (c_candidate_id p) = None"
  shows "store_inv (with_pending g p st)"
proof -
  have core: "core_inv st" using inv by blast
  note gr = owned_grant_ok [OF core own] and idx = index_invD [OF core_index [OF core]]
  have new: "c_candidate_id p \<notin> cands_of (s_heap st g)" using idx(1) [of "c_candidate_id p" g] free own by simp
  have here: "g_state (s_heap (with_pending g p st) g) = g_state (s_heap st g)"
    "cands_of (s_heap (with_pending g p st) g) = insert (c_candidate_id p) (cands_of (s_heap st g))"
    "binds_of (s_heap (with_pending g p st) g) = binds_of (s_heap st g)"
    using none by (simp_all add: with_pending_def update_grant_def cands_of_def binds_of_def)
  have loc: "grant_local g st (with_pending g p st)"
    by (rule grant_localI) (simp_all add: with_pending_def grant_op_defs)
  have "core_inv (with_pending g p st)"
  proof (rule grant_local_core_inv [OF loc core own])
    show "grant_ok (s_heap (with_pending g p st) g)"
      using grant_ok_with_pending [OF gr live p new]
      by (cases "g_binding (s_heap st g)") (simp_all add: with_pending_def update_grant_def)
    fix c x
    show "s_candidates_by_id (with_pending g p st) c = Some x \<longleftrightarrow>
        (if x = g then c \<in> cands_of (s_heap (with_pending g p st) g) else s_candidates_by_id st c = Some x)"
      using index_insert [of "s_candidates_by_id st" "c_candidate_id p" g "cands_of (s_heap st g)" c x, OF free] own idx(1)
      by (simp add: here) (simp add: with_pending_def update_grant_def)
    show "s_bindings_by_id (with_pending g p st) c = Some x \<longleftrightarrow>
        (if x = g then c \<in> binds_of (s_heap (with_pending g p st) g) else s_bindings_by_id st c = Some x)"
      using idx(2) [of c g] own by (simp add: here) (simp add: with_pending_def update_grant_def)
  next
    fix i x assume "s_grants_by_id (with_pending g p st) i = Some x"
    then show "s_grants_by_id st i = Some x \<and> (x = g \<longrightarrow> grant_live (s_heap (with_pending g p st) g))"
      using live by (simp add: here grant_live_def) (simp add: with_pending_def update_grant_def)
  next
    show "s_active_sessions (with_pending g p st) = s_active_sessions st -
        (if grant_live (s_heap st g) \<and> \<not> grant_live (s_heap (with_pending g p st) g) then 1 else 0)"
      using live by (simp add: here grant_live_def) (simp add: with_pending_def update_grant_def)
  qed
  then show ?thesis
    using grants_local_store_inv [OF grant_local_grants_local [OF loc, of "{g}"]] inv by simp
qed

text \<open>A binding on a grant whose relay state has been cleared.\<close>

definition with_binding :: "gref \<Rightarrow> binding_record \<Rightarrow> completed_handshake \<Rightarrow> 'l store \<Rightarrow> 'l store" where
  "with_binding g binding completed st =
     update_grant g (\<lambda>gr. gr\<lparr>g_generation := b_generation binding, g_binding := Some binding,
          g_recent := Some completed, g_state := GrantStateBound, g_binding_state := BindingStateBound\<rparr>)
        (st\<lparr>s_bindings_by_id := (s_bindings_by_id st)(b_id binding \<mapsto> g),
            s_candidates_by_id := (s_candidates_by_id st)(h_candidate_id completed \<mapsto> g)\<rparr>)"

lemma with_binding_store_inv:
  assumes inv: "store_inv st" and own: "g \<in> owned st" and live: "grant_live (s_heap st g)"
    and none: "g_pending (s_heap st g) = None" "g_recent (s_heap st g) = None" "g_binding (s_heap st g) = None"
    and b: "b_deadline b \<le> g_mono_deadline (s_heap st g)" "length (b_id b) = 16"
    and h: "h_generation h = b_generation b" "br_binding_id (h_result h) = b_id b" "h_deadline h \<le> b_deadline b"
      "h_endpoint h = b_endpoint b"
    and free: "s_bindings_by_id st (b_id b) = None" "s_candidates_by_id st (h_candidate_id h) = None"
  shows "store_inv (with_binding g b h st)"
proof -
  have core: "core_inv st" using inv by blast
  note gr = owned_grant_ok [OF core own] and idx = index_invD [OF core_index [OF core]]
  have here: "g_state (s_heap (with_binding g b h st) g) = GrantStateBound"
    "cands_of (s_heap (with_binding g b h st) g) = {h_candidate_id h}" "cands_of (s_heap st g) = {}"
    "binds_of (s_heap (with_binding g b h st) g) = {b_id b}" "binds_of (s_heap st g) = {}"
    using none by (simp_all add: with_binding_def update_grant_def cands_of_def binds_of_def)
  have loc: "grant_local g st (with_binding g b h st)"
    by (rule grant_localI) (use live in \<open>simp_all add: with_binding_def grant_op_defs\<close>)
  have "core_inv (with_binding g b h st)"
  proof (rule grant_local_core_inv [OF loc core own])
    show "grant_ok (s_heap (with_binding g b h st) g)"
      using gr live none b h
      by (simp add: with_binding_def update_grant_def grant_ok_def grant_live_def binding_ok_def recent_ok_def)
    fix c x
    show "s_candidates_by_id (with_binding g b h st) c = Some x \<longleftrightarrow>
        (if x = g then c \<in> cands_of (s_heap (with_binding g b h st) g) else s_candidates_by_id st c = Some x)"
      using index_insert [of "s_candidates_by_id st" "h_candidate_id h" g "{}" c x, OF free(2)] own idx(1) here(3)
      by (simp add: here(2)) (simp add: with_binding_def update_grant_def)
    show "s_bindings_by_id (with_binding g b h st) c = Some x \<longleftrightarrow>
        (if x = g then c \<in> binds_of (s_heap (with_binding g b h st) g) else s_bindings_by_id st c = Some x)"
      using index_insert [of "s_bindings_by_id st" "b_id b" g "{}" c x, OF free(1)] own idx(2) here(5)
      by (simp add: here(4)) (simp add: with_binding_def update_grant_def)
  next
    fix i x assume "s_grants_by_id (with_binding g b h st) i = Some x"
    then show "s_grants_by_id st i = Some x \<and> (x = g \<longrightarrow> grant_live (s_heap (with_binding g b h st) g))"
      by (simp add: here grant_live_def) (simp add: with_binding_def update_grant_def)
  next
    show "s_active_sessions (with_binding g b h st) = s_active_sessions st -
        (if grant_live (s_heap st g) \<and> \<not> grant_live (s_heap (with_binding g b h st) g) then 1 else 0)"
      by (simp add: here grant_live_def) (simp add: with_binding_def update_grant_def)
  qed
  then show ?thesis
    using grants_local_store_inv [OF grant_local_grants_local [OF loc, of "{g}"]] inv by simp
qed

text \<open>All relay state of a grant cleared: its identifiers are free again, everything else stands.\<close>

definition cleared :: "gref \<Rightarrow> 'l store \<Rightarrow> 'l store" where
  "cleared g st = clear_binding g (clear_recent g (clear_pending g st))"

lemma commit_binding_eq: "commit_binding g b h st = with_binding g b h (cleared g st)"
  by (simp add: commit_binding_def with_binding_def cleared_def Let_def)

lemma cleared_spec:
  assumes inv: "store_inv st" and own: "g \<in> owned st"
  shows "store_inv (cleared g st)" "grants_local {g} st (cleared g st)"
    "g_pending (s_heap (cleared g st) g) = None" "g_recent (s_heap (cleared g st) g) = None"
    "g_binding (s_heap (cleared g st) g) = None"
    "grant_live (s_heap (cleared g st) g) = grant_live (s_heap st g)"
proof -
  define st1 where "st1 = clear_pending g st"
  define st2 where "st2 = clear_recent g st1"
  have st3: "cleared g st = clear_binding g st2" by (simp add: cleared_def st1_def st2_def)
  have l1: "grant_local g st st1" "grant_local g st1 st2" "grant_local g st2 (cleared g st)"
    unfolding st1_def st2_def st3 by (rule clear_pending_local clear_recent_local clear_binding_local)+
  have 1: "store_inv st1" "g \<in> owned st1"
    using grant_ops_store_inv(1) [OF inv own] own grant_local_owned [OF l1(1)] by (simp_all add: st1_def)
  have 2: "store_inv st2" "g \<in> owned st2"
    using grant_ops_store_inv(2) [OF 1] 1 grant_local_owned [OF l1(2)] by (simp_all add: st2_def)
  have ok: "grant_ok (s_heap st2 g)" using owned_grant_ok [OF store_inv_core [OF 2(1)] 2(2)] .
  show "store_inv (cleared g st)" unfolding st3 by (rule grant_ops_store_inv(3) [OF 2])
  show "grants_local {g} st (cleared g st)"
    using grant_local_trans [OF grant_local_trans [OF l1(1,2)] l1(3)] by (rule grant_local_grants_local) simp
  show "g_pending (s_heap (cleared g st) g) = None" "g_recent (s_heap (cleared g st) g) = None"
    "g_binding (s_heap (cleared g st) g) = None"
    unfolding st3 using clear_binding_fields [OF ok] by (simp_all add: st2_def st1_def)
  have "g_state (s_heap st2 g) = g_state (s_heap st g)" by (simp add: st2_def st1_def)
  then show "grant_live (s_heap (cleared g st) g) = grant_live (s_heap st g)"
    unfolding st3 using clear_binding_state [OF ok] by (auto simp: grant_live_def)
qed

lemma cleared_free:
  assumes inv: "store_inv st" and own: "g \<in> owned st"
  shows "s_candidates_by_id st c \<in> {None, Some g} \<Longrightarrow> s_candidates_by_id (cleared g st) c = None"
    and "s_bindings_by_id st i \<in> {None, Some g} \<Longrightarrow> s_bindings_by_id (cleared g st) i = None"
proof -
  note sp = cleared_spec [OF inv own]
  note idx = index_invD [OF core_index [OF store_inv_core [OF inv]]]
    and idx' = index_invD [OF core_index [OF store_inv_core [OF sp(1)]]]
  have none: "cands_of (s_heap (cleared g st) g) = {}" "binds_of (s_heap (cleared g st) g) = {}"
    using sp(3-5) by (simp_all add: cands_of_def binds_of_def)
  have other: "s_heap (cleared g st) x = s_heap st x" if "x \<noteq> g" for x
    using grants_local_fields(8) [OF sp(2), of x] that by simp
  have own': "owned (cleared g st) = owned st" by (rule grants_local_fields(11) [OF sp(2)])
  show "s_candidates_by_id (cleared g st) c = None" if "s_candidates_by_id st c \<in> {None, Some g}"
  proof (rule ccontr)
    assume "s_candidates_by_id (cleared g st) c \<noteq> None"
    then obtain x where x: "x \<in> owned st" "c \<in> cands_of (s_heap (cleared g st) x)" using idx'(1) own' by blast
    with none have "x \<noteq> g" by auto
    with x other have "s_candidates_by_id st c = Some x" using idx(1) by simp
    with that \<open>x \<noteq> g\<close> show False by simp
  qed
  show "s_bindings_by_id (cleared g st) i = None" if "s_bindings_by_id st i \<in> {None, Some g}"
  proof (rule ccontr)
    assume "s_bindings_by_id (cleared g st) i \<noteq> None"
    then obtain x where x: "x \<in> owned st" "i \<in> binds_of (s_heap (cleared g st) x)" using idx'(2) own' by blast
    with none have "x \<noteq> g" by auto
    with x other have "s_bindings_by_id st i = Some x" using idx(2) by simp
    with that \<open>x \<noteq> g\<close> show False by simp
  qed
qed

lemma expired_grant:
  assumes inv: "store_inv st" and own: "g \<in> owned st"
  shows "store_inv (expire_relay g now st)" "g \<in> owned (expire_relay g now st)"
    "grants_local {g} st (expire_relay g now st)"
    "grant_live (s_heap (expire_relay g now st) g) = grant_live (s_heap st g)"
  using grant_ops_store_inv(4) [OF inv own] grant_local_owned [OF expire_relay_local [of g st now]] own
    grant_local_grants_local [OF expire_relay_local [of g st now], of "{g}"] expire_relay_fields(3) [OF store_inv_core [OF inv] own]
  by auto

lemma expire_relay_pending_late:
  assumes inv: "store_inv st" and own: "g \<in> owned st" and "g_pending (s_heap (expire_relay g now st) g) = Some p"
  shows "now < c_deadline p"
  using assms(3) expire_relay_fields(2) [OF store_inv_core [OF inv] own, of now] by (simp add: unexpired_Some_iff)

text \<open>The grant, room and pending challenge behind an issued challenge.\<close>

definition challenge_issued :: "challenge_request \<Rightarrow> duration \<Rightarrow> 'l store \<Rightarrow> 'l store \<Rightarrow> challenge_result \<Rightarrow> bool" where
  "challenge_issued request now st st' cr \<longleftrightarrow> (\<exists>g p.
     s_grants_by_id st (cq_grant_id request) = Some g \<and> grant_live (s_heap st g) \<and>
     now < g_mono_deadline (s_heap st g) \<and>
     g_room_id (s_heap st g) = cq_room_id request \<and> g_session_id (s_heap st g) = cq_session_id request \<and>
     g_pending (s_heap st' g) = Some p \<and> c_result p = cr \<and> c_candidate_id p = cr_candidate_id cr \<and>
     c_server_nonce p = cr_server_nonce cr \<and> c_endpoint p = cq_endpoint request \<and>
     c_client_nonce p = cq_client_nonce request \<and> c_deadline p \<le> g_mono_deadline (s_heap st g) \<and>
     s_candidates_by_id st' (cr_candidate_id cr) = Some g)"

lemma store_inv_same_core:
  assumes "same_core st st'" and "store_inv st" and "s_preauth_sources st' = s_preauth_sources st"
  shows "store_inv st'"
  using same_core_store_inv [OF assms(1,2)] assms(2,3) by (simp add: store_inv_def)

lemma pending_indexed:
  assumes "store_inv st" "g \<in> owned st" "g_pending (s_heap st g) = Some p"
  shows "s_candidates_by_id st (c_candidate_id p) = Some g" "pending_ok (s_heap st g) p"
  using index_invD(1) [OF core_index [OF store_inv_core [OF assms(1)]]] assms(2,3)
    owned_grant_ok [OF store_inv_core [OF assms(1)] assms(2)]
  by (auto simp: cands_of_simps grant_ok_def)

lemma issue_challenge_cases:
  assumes inv: "store_inv st" and own: "g \<in> owned st" and live: "grant_live (s_heap st g)"
    and late: "\<And>p. g_pending (s_heap st g) = Some p \<Longrightarrow> now < c_deadline p"
  shows "\<exists>st' res. issue_challenge request reading g R st = Some (st', res) \<and> store_inv st' \<and>
    (\<forall>cr. res = Inr cr \<longrightarrow> (\<exists>p. g_pending (s_heap st' g) = Some p \<and> c_result p = cr \<and>
       c_candidate_id p = cr_candidate_id cr \<and> c_server_nonce p = cr_server_nonce cr \<and>
       c_endpoint p = cq_endpoint request \<and> c_client_nonce p = cq_client_nonce request \<and>
       c_deadline p \<le> g_mono_deadline (s_heap st g) \<and> s_candidates_by_id st' (cr_candidate_id cr) = Some g))"
proof (cases "g_pending (s_heap st g)")
  case (Some p)
  note pi = pending_indexed [OF inv own Some]
  then show ?thesis using inv Some by (auto simp: issue_challenge_def Let_def pending_ok_def)
next
  case none: None
  show ?thesis
  proof (cases "case g_recent (s_heap st g) of Some recent \<Rightarrow> h_nonce recent = cq_client_nonce request | None \<Rightarrow> False")
    case True
    then show ?thesis using inv by (simp add: issue_challenge_def Let_def none)
  next
    case fresh: False
    obtain cid src where u: "unique_candidate_id st (s_random st) = (cid, src)" by fastforce
    obtain sn src' where rf: "read_full 32 src = (sn, src')" by fastforce
    show ?thesis
    proof (cases "cid = None \<or> sn = None")
      case True
      then show ?thesis using inv fresh u rf by (cases cid) (auto simp: issue_challenge_def Let_def none)
    next
      case False
      then obtain i w where i: "cid = Some i" and w: "sn = Some w" by auto
      have new: "length i = 16" "s_candidates_by_id st i = None"
        using unique_id_Some [OF u [unfolded i unique_candidate_id_def]] by simp_all
      define deadline where "deadline = min (saturating_add (mono reading) (ChallengeTTL (s_limits st)))
                              (min (g_mono_deadline (s_heap st g)) (r_mono_deadline R))"
      define result where "result = \<lparr>cr_candidate_id = i, cr_server_nonce = w,
                           cr_expires_unix_ms = project_wire_expiry_unix_ms reading deadline\<rparr>"
      define p where "p = \<lparr>c_candidate_id = i, c_client_nonce = cq_client_nonce request,
                            c_server_nonce = w, c_endpoint = cq_endpoint request,
                            c_deadline = deadline, c_result = result\<rparr>"
      let ?st = "st\<lparr>s_random := src'\<rparr>"
      have eq: "issue_challenge request reading g R st = Some (with_pending g p ?st, Inr result)"
        using fresh u rf none by (simp add: issue_challenge_def Let_def i w p_def result_def deadline_def)
      have pok: "pending_ok (s_heap ?st g) p"
        using new read_full_length [OF rf [unfolded w]]
        by (simp add: pending_ok_def p_def result_def deadline_def)
      have "g \<in> owned ?st" using own by (simp add: owned_def)
      then have "store_inv (with_pending g p ?st)"
        using inv live pok new(2) none by (intro with_pending_store_inv) (simp_all add: p_def)
      moreover have "g_pending (s_heap (with_pending g p ?st) g) = Some p"
        "s_candidates_by_id (with_pending g p ?st) i = Some g"
        by (simp_all add: with_pending_def update_grant_def p_def)
      ultimately show ?thesis using eq by (auto simp: p_def result_def deadline_def)
    qed
  qed
qed

lemma begin_challenge_cases:
  assumes law: "limiter_law A" and inv: "store_inv st"
  shows "\<exists>st' res. begin_challenge A request reading st = Some (st', res) \<and> store_inv st' \<and>
    (\<forall>cr. res = Inr cr \<longrightarrow> endpoint_is_valid (cq_endpoint request) \<and> challenge_issued request (mono reading) st st' cr)"
proof -
  let ?now = "mono reading"
  obtain st1 r where ap: "admit_preauth A (cq_endpoint request) (cq_input_bytes request) ?now st = Some (st1, r)"
    using admit_preauth_total [OF law, of "cq_endpoint request" "cq_input_bytes request" ?now st] by auto
  have inv1: "store_inv st1" using admit_preauth_inv(1) [OF inv ap] .
  note c1 = same_core_facts [OF admit_preauth_frame(1) [OF ap]]
  show ?thesis
  proof (cases "r \<noteq> RejectNone \<or> \<not> endpoint_is_valid (cq_endpoint request) \<or> s_grants_by_id st1 (cq_grant_id request) = None")
    case True
    then show ?thesis using inv1 by (auto simp: begin_challenge_def Let_def ap)
  next
    case False
    then obtain g where pre: "r = RejectNone" "endpoint_is_valid (cq_endpoint request)"
      and look: "s_grants_by_id st1 (cq_grant_id request) = Some g" by blast
    have own: "g \<in> owned st1" and live: "grant_live (s_heap st1 g)"
      using index_invD(3) [OF core_index [OF store_inv_core [OF inv1]] look] by simp_all
    obtain st2 la where la: "live_authority g ?now st1 = (st2, la)" by fastforce
    have inv2: "store_inv st2" by (rule live_authority_store_inv [OF inv1 own la])
    show ?thesis
    proof (cases la)
      case (Inl reason)
      then show ?thesis using inv2 pre look la by (simp add: begin_challenge_def Let_def ap)
    next
      case (Inr R)
      note ok = live_authority_ok [OF inv1 own la [unfolded Inr]]
      define st3 where "st3 = expire_relay g ?now st1"
      note e3 = expired_grant [OF inv1 own, of ?now, folded st3_def]
      have dl: "g_mono_deadline (s_heap st3 g) = g_mono_deadline (s_heap st g)"
        using grants_local_fields(9) [OF e3(3), of g] by (simp add: same_identity_def c1)
      show ?thesis
      proof (cases "cq_room_id request = g_room_id (s_heap st1 g) \<and> cq_session_id request = g_session_id (s_heap st1 g)")
        case False
        then show ?thesis using inv1 pre look la ok(1) Inr by (auto simp: begin_challenge_def Let_def ap)
      next
        case ids: True
        have head: "begin_challenge A request reading st = issue_challenge request reading g R st3"
          using ids pre look la ok(1) Inr by (simp add: begin_challenge_def Let_def ap st3_def)
        have live3: "grant_live (s_heap st3 g)" using live e3(4) by simp
        have late: "\<And>p. g_pending (s_heap st3 g) = Some p \<Longrightarrow> ?now < c_deadline p"
          unfolding st3_def by (rule expire_relay_pending_late [OF inv1 own])
        have "s_grants_by_id st (cq_grant_id request) = Some g" "grant_live (s_heap st g)"
          "?now < g_mono_deadline (s_heap st g)" "g_room_id (s_heap st g) = cq_room_id request"
          "g_session_id (s_heap st g) = cq_session_id request"
          using look live ok(6) ids by (simp_all add: c1)
        then show ?thesis
          using issue_challenge_cases [OF e3(1,2) live3 late, of request reading R] pre
          unfolding head challenge_issued_def dl by blast
      qed
    qed
  qed
qed

section \<open>Authentication\<close>

text \<open>
  What a successful \<open>Authenticate\<close> certifies: the request carries the tag that only the holder of the
  grant's secret can compute over the handshake of this candidate, and the grant is now bound to the
  endpoint of the request under the returned binding.
\<close>

definition authenticated ::
    "hmac_fun \<Rightarrow> authenticate_request \<Rightarrow> 'l store \<Rightarrow> gref \<Rightarrow> 'l store \<Rightarrow> bound_result \<Rightarrow> bool" where
  "authenticated H request st g st' br \<longleftrightarrow> (\<exists>secret client_nonce server_nonce b.
     g_secret (s_heap st g) = Some secret \<and>
     aq_auth_tag request = auth_tag H secret Revision (g_room_id (s_heap st g)) (g_session_id (s_heap st g))
       (g_id (s_heap st g)) (aq_candidate_id request) client_nonce server_nonce \<and>
     g_binding (s_heap st' g) = Some b \<and> b_id b = br_binding_id br \<and> b_endpoint b = aq_endpoint request \<and>
     s_bindings_by_id st' (br_binding_id br) = Some g \<and>
     (st' = st \<or> b_key b = binding_key H secret Revision (g_room_id (s_heap st g)) (g_session_id (s_heap st g))
       (g_id (s_heap st g)) (aq_candidate_id request) client_nonce server_nonce \<and> b_replay b = fresh_window \<and>
       b_generation b = g_generation (s_heap st g) + 1))"

text \<open>A retransmission: the handshake has a live binding, so the defensive branches are dead.\<close>

lemma authenticate_recent_cases:
  assumes inv: "store_inv st" and own: "g \<in> owned st" and h: "g_recent (s_heap st g) = Some h"
    and cand: "h_candidate_id h = aq_candidate_id request"
  shows "\<exists>st' res. authenticate_recent H request now g h st = Some (st', res) \<and> store_inv st' \<and>
    (\<forall>br. res = Inr br \<longrightarrow> authenticated H request st g st' br)"
proof -
  have ok: "grant_ok (s_heap st g)" using owned_grant_ok [OF store_inv_core [OF inv] own] .
  then obtain b where b: "g_binding (s_heap st g) = Some b" "h_generation h = b_generation b"
    "br_binding_id (h_result h) = b_id b" "h_deadline h \<le> b_deadline b" "h_endpoint h = b_endpoint b"
    using h by (auto simp: grant_ok_def recent_ok_def)
  have "grant_live (s_heap st g)" using ok b(1) by (simp add: grant_ok_def grant_live_def)
  then obtain secret where s: "g_secret (s_heap st g) = Some secret" using ok by (auto simp: grant_ok_def)
  have idx: "s_bindings_by_id st (b_id b) = Some g"
    using index_invD(2) [OF core_index [OF store_inv_core [OF inv]]] own b(1) by (simp add: cands_of_simps)
  show ?thesis
  proof (cases "now \<ge> h_deadline h")
    case True
    then show ?thesis
      using grant_ops_store_inv(2,3) [OF inv own] by (simp add: authenticate_recent_def Let_def)
  next
    case early: False
    then have nb: "\<not> b_deadline b \<le> now" using b(4) by simp
    let ?tag = "auth_tag H secret Revision (g_room_id (s_heap st g)) (g_session_id (s_heap st g)) (g_id (s_heap st g))
        (h_candidate_id h) (h_nonce h) (h_server_nonce h)"
    have eq: "authenticate_recent H request now g h st =
        (if h_endpoint h \<noteq> aq_endpoint request then Some (st, Inl RejectWrongEndpoint)
         else if aq_auth_tag request \<noteq> ?tag then Some (st, Inl RejectAuthFailed) else Some (st, Inr (h_result h)))"
      using early nb b s by (simp add: authenticate_recent_def Let_def)
    have "authenticated H request st g st (h_result h)" if "h_endpoint h = aq_endpoint request" "aq_auth_tag request = ?tag"
      unfolding authenticated_def
      by (rule exI [of _ secret], rule exI [of _ "h_nonce h"], rule exI [of _ "h_server_nonce h"], rule exI [of _ b])
        (use that s b idx cand in simp)
    then show ?thesis using inv by (simp add: eq)
  qed
qed

lemma authenticate_pending_cases:
  assumes inv: "store_inv st" and own: "g \<in> owned st" and live: "grant_live (s_heap st g)"
    and p: "g_pending (s_heap st g) = Some p" and cand: "c_candidate_id p = aq_candidate_id request"
  shows "\<exists>st' res. authenticate_pending H request reading g R p st = Some (st', res) \<and> store_inv st' \<and>
    (\<forall>br. res = Inr br \<longrightarrow> authenticated H request st g st' br)"
proof -
  let ?gr = "s_heap st g"
  have ok: "grant_ok ?gr" using owned_grant_ok [OF store_inv_core [OF inv] own] .
  then obtain secret where s: "g_secret ?gr = Some secret" using live by (auto simp: grant_ok_def)
  let ?tag = "auth_tag H secret Revision (g_room_id ?gr) (g_session_id ?gr) (g_id ?gr)
      (c_candidate_id p) (c_client_nonce p) (c_server_nonce p)"
  show ?thesis
  proof (cases "mono reading \<ge> c_deadline p")
    case True
    then show ?thesis using grant_ops_store_inv(1) [OF inv own] by (simp add: authenticate_pending_def Let_def)
  next
    case early: False
    show ?thesis
    proof (cases "c_endpoint p = aq_endpoint request \<and> aq_auth_tag request = ?tag")
      case False
      then show ?thesis using inv early s by (auto simp: authenticate_pending_def Let_def)
    next
      case tag: True
      obtain bid src where u: "unique_binding_id st (s_random st) = (bid, src)" by fastforce
      show ?thesis
      proof (cases bid)
        case None
        then show ?thesis using inv early s tag u by (simp add: authenticate_pending_def Let_def)
      next
        case (Some i)
        have new: "length i = 16" "s_bindings_by_id st i = None"
          using unique_id_Some [OF u [unfolded Some unique_binding_id_def]] by simp_all
        let ?st = "st\<lparr>s_random := src\<rparr>"
        define deadline where "deadline = min (saturating_add (mono reading) (BindingTTL (s_limits st)))
                                  (min (g_mono_deadline ?gr) (r_mono_deadline R))"
        define key where "key = binding_key H secret Revision (g_room_id ?gr) (g_session_id ?gr) (g_id ?gr)
                             (c_candidate_id p) (c_client_nonce p) (c_server_nonce p)"
        define result where "result = \<lparr>br_binding_id = i, br_expires_unix_ms = project_wire_expiry_unix_ms reading deadline,
            br_auth_tag = bound_tag H key Revision (g_room_id ?gr) (g_session_id ?gr) (c_candidate_id p) i
              (project_wire_expiry_unix_ms reading deadline)\<rparr>"
        define h where "h = \<lparr>h_candidate_id = c_candidate_id p, h_nonce = c_client_nonce p,
            h_server_nonce = c_server_nonce p, h_endpoint = c_endpoint p,
            h_deadline = min (saturating_add (mono reading) (ChallengeTTL (s_limits st)))
              (min deadline (min (g_mono_deadline ?gr) (r_mono_deadline R))),
            h_generation = g_generation ?gr + 1, h_result = result\<rparr>"
        define b where "b = \<lparr>b_id = i, b_key = key, b_endpoint = aq_endpoint request, b_deadline = deadline,
            b_generation = h_generation h, b_replay = fresh_window\<rparr>"
        have eq: "authenticate_pending H request reading g R p st = Some (with_binding g b h (cleared g ?st), Inr result)"
          using early tag s u Some
          by (simp add: authenticate_pending_def Let_def commit_binding_eq deadline_def key_def result_def h_def b_def)
        have inv': "store_inv ?st" and own': "g \<in> owned ?st" using inv own by (simp_all add: owned_def)
        note cl = cleared_spec [OF inv' own']
        have dl: "g_mono_deadline (s_heap (cleared g ?st) g) = g_mono_deadline ?gr"
          using grants_local_fields(9) [OF cl(2), of g] by (simp add: same_identity_def)
        have free: "s_bindings_by_id (cleared g ?st) i = None" "s_candidates_by_id (cleared g ?st) (c_candidate_id p) = None"
          using cleared_free [OF inv' own'] new(2) pending_indexed(1) [OF inv own p] by simp_all
        have bounded: "b_deadline b \<le> g_mono_deadline ?gr" "h_deadline h \<le> b_deadline b"
          unfolding h_def b_def by (simp_all add: min_le_iff_disj) (simp add: deadline_def min_le_iff_disj)
        have "store_inv (with_binding g b h (cleared g ?st))"
          using cl live own' grants_local_fields(11) [OF cl(2)] dl free new(1) tag bounded
          by (intro with_binding_store_inv) (simp_all add: b_def h_def result_def)
        moreover have "authenticated H request st g (with_binding g b h (cleared g ?st)) result"
          unfolding authenticated_def
          by (rule exI [of _ secret], rule exI [of _ "c_client_nonce p"], rule exI [of _ "c_server_nonce p"], rule exI [of _ b])
            (use s tag cand in \<open>simp add: with_binding_def update_grant_def b_def h_def result_def key_def\<close>)
        ultimately show ?thesis using eq by auto
      qed
    qed
  qed
qed

lemma authenticate_cases:
  assumes law: "limiter_law A" and inv: "store_inv st"
  shows "\<exists>st' res. authenticate A H request reading st = Some (st', res) \<and> store_inv st' \<and>
    (\<forall>br. res = Inr br \<longrightarrow> endpoint_is_valid (aq_endpoint request) \<and>
      (\<exists>st1 g R. same_core st st1 \<and> s_candidates_by_id st (aq_candidate_id request) = Some g \<and>
        grant_live (s_heap st g) \<and> mono reading < g_mono_deadline (s_heap st g) \<and>
        g_room_id (s_heap st g) = aq_room_id request \<and> g_session_id (s_heap st g) = aq_session_id request \<and>
        fmlookup (s_rooms st) (aq_room_id request) = Some R \<and> r_state R = roomStateOpen \<and>
        mono reading < r_mono_deadline R \<and> authenticated H request st1 g st' br))"
proof -
  let ?now = "mono reading"
  obtain st1 r where ap: "admit_preauth A (aq_endpoint request) (aq_input_bytes request) ?now st = Some (st1, r)"
    using admit_preauth_total [OF law, of "aq_endpoint request" "aq_input_bytes request" ?now st] by auto
  have inv1: "store_inv st1" using admit_preauth_inv(1) [OF inv ap] .
  have core: "same_core st st1" using admit_preauth_frame(1) [OF ap] .
  note c1 = same_core_facts [OF core]
  show ?thesis
  proof (cases "r \<noteq> RejectNone \<or> \<not> endpoint_is_valid (aq_endpoint request) \<or> s_candidates_by_id st1 (aq_candidate_id request) = None")
    case True
    then show ?thesis using inv1 by (auto simp: authenticate_def Let_def ap)
  next
    case False
    then obtain g where pre: "r = RejectNone" "endpoint_is_valid (aq_endpoint request)"
      and look: "s_candidates_by_id st1 (aq_candidate_id request) = Some g" by blast
    have own: "g \<in> owned st1" using index_invD(1) [OF core_index [OF store_inv_core [OF inv1]]] look by simp
    obtain st2 la where la: "live_authority g ?now st1 = (st2, la)" by fastforce
    have inv2: "store_inv st2" by (rule live_authority_store_inv [OF inv1 own la])
    show ?thesis
    proof (cases la)
      case (Inl reason)
      then show ?thesis using inv2 pre look la by (simp add: authenticate_def Let_def ap)
    next
      case (Inr R)
      note ok = live_authority_ok [OF inv1 own la [unfolded Inr]]
      show ?thesis
      proof (cases "aq_room_id request = g_room_id (s_heap st1 g) \<and> aq_session_id request = g_session_id (s_heap st1 g)")
        case False
        then show ?thesis using inv1 pre look la ok(1) Inr by (auto simp: authenticate_def Let_def ap)
      next
        case ids: True
        let ?pend = "case g_pending (s_heap st1 g) of None \<Rightarrow> Some (st1, Inl RejectAuthFailed)
            | Some pending \<Rightarrow> if c_candidate_id pending \<noteq> aq_candidate_id request then Some (st1, Inl RejectAuthFailed)
                else authenticate_pending H request reading g R pending st1"
        have head: "authenticate A H request reading st = (case g_recent (s_heap st1 g) of
            Some recent \<Rightarrow> if h_candidate_id recent = aq_candidate_id request
              then authenticate_recent H request ?now g recent st1 else ?pend | None \<Rightarrow> ?pend)"
          using ids pre look la ok(1) Inr by (simp add: authenticate_def Let_def ap)
        have pend: "\<exists>st' res. ?pend = Some (st', res) \<and> store_inv st' \<and>
            (\<forall>br. res = Inr br \<longrightarrow> authenticated H request st1 g st' br)"
        proof (cases "g_pending (s_heap st1 g)")
          case (Some p)
          then show ?thesis
            using inv1 authenticate_pending_cases [OF inv1 own ok(5) Some, of request H reading R]
            by (cases "c_candidate_id p = aq_candidate_id request") auto
        qed (simp add: inv1)
        have "\<exists>st' res. authenticate A H request reading st = Some (st', res) \<and> store_inv st' \<and>
            (\<forall>br. res = Inr br \<longrightarrow> authenticated H request st1 g st' br)"
        proof (cases "g_recent (s_heap st1 g)")
          case None
          then show ?thesis using pend by (simp add: head)
        next
          case (Some h)
          then show ?thesis
            using pend authenticate_recent_cases [OF inv1 own Some, of request H ?now]
            by (cases "h_candidate_id h = aq_candidate_id request") (simp_all add: head)
        qed
        moreover have "s_candidates_by_id st (aq_candidate_id request) = Some g" "grant_live (s_heap st g)"
          "?now < g_mono_deadline (s_heap st g)" "g_room_id (s_heap st g) = aq_room_id request"
          "g_session_id (s_heap st g) = aq_session_id request" "fmlookup (s_rooms st) (aq_room_id request) = Some R"
          using look ok ids by (simp_all add: c1)
        ultimately show ?thesis using core ok(4,7) pre(2) by blast
      qed
    qed
  qed
qed

end
