(* ===== verification/Store_Evolve.thy ===== *)
theory Store_Evolve
  imports Handshake_Inv
begin

text \<open>
  How one operation changes the grants. A grant that is still live afterwards was live before, keeps
  its identity and its secret, and either keeps its generation (then its binding, if it still has
  one, is the old one with a replay window that has only advanced: \<open>quiet\<close>), or it went through one
  completed handshake, which makes a new generation whose key is derived from the secret.
\<close>

section \<open>Spent sequence numbers\<close>

definition spent :: "replay_window \<Rightarrow> u64 \<Rightarrow> bool" where
  "spent w s \<longleftrightarrow> \<not> snd (window_accept w s)"

lemma spent_iff:
  "spent w s \<longleftrightarrow> rw_initialized w \<and> s \<le> rw_highest w \<and>
     (64 \<le> unat (rw_highest w) - unat s \<or> bit (rw_bitmap w) (unat (rw_highest w) - unat s))"
proof (cases "rw_initialized w \<and> s \<le> rw_highest w")
  case True
  then have d: "unat (rw_highest w - s) = unat (rw_highest w) - unat s" by (simp add: unat_diff_le)
  have "rw_highest w - s \<ge> 64 \<longleftrightarrow> 64 \<le> unat (rw_highest w) - unat s"
    by (simp add: word_le_nat_alt d)
  moreover have "rw_bitmap w AND push_bit (unat (rw_highest w - s)) 1 \<noteq> 0 \<longleftrightarrow>
      unat (rw_highest w) - unat s < 64 \<and> bit (rw_bitmap w) (unat (rw_highest w) - unat s)"
    by (simp add: and_single_bit d push_bit_of_1)
  ultimately show ?thesis
    using True by (auto simp: spent_def window_accept_def Let_def)
qed (auto simp: spent_def window_accept_def Let_def)

lemma spent_fresh [simp]: "\<not> spent fresh_window s"
  by (simp add: spent_iff fresh_window_def)

lemma bit_two_power: "n < 64 \<Longrightarrow> bit (2 ^ n :: u64) n"
  by (simp add: bit_exp_iff)

lemma accept_spends:
  assumes "snd (window_accept w s)"
  shows "spent (fst (window_accept w s)) s"
proof (cases "rw_initialized w \<and> s \<le> rw_highest w")
  case True
  have "\<not> 64 \<le> unat (rw_highest w) - unat s"
    using assms True spent_iff [of w s] by (simp add: spent_def)
  with True show ?thesis
    using assms by (auto simp: spent_iff window_accept_def Let_def bit_or_iff bit_two_power unat_diff_le not_le split: if_splits)
next
  case False
  then show ?thesis
    by (auto simp: spent_iff window_accept_def Let_def bit_or_iff bit_1_iff)
qed

lemma spent_mono:
  assumes "spent w t"
  shows "spent (fst (window_accept w s)) t"
proof -
  have t: "rw_initialized w" "t \<le> rw_highest w"
    "64 \<le> unat (rw_highest w) - unat t \<or> bit (rw_bitmap w) (unat (rw_highest w) - unat t)"
    using assms by (simp_all add: spent_iff)
  show ?thesis
  proof (cases "s > rw_highest w")
    case True
    then have d: "unat (s - rw_highest w) = unat s - unat (rw_highest w)" by (simp add: unat_diff_le)
    have le: "unat t \<le> unat (rw_highest w)" "unat (rw_highest w) < unat s"
      using t(2) True by (simp_all add: word_le_nat_alt word_less_nat_alt)
    show ?thesis
      using t le True
      by (auto simp: spent_iff window_accept_def Let_def bit_or_iff bit_push_bit_iff word_le_nat_alt d not_le)
  next
    case False
    then show ?thesis
      using t by (auto simp: spent_iff window_accept_def Let_def bit_or_iff)
  qed
qed

section \<open>A grant that went through no handshake\<close>

definition same_binding :: "binding_record \<Rightarrow> binding_record \<Rightarrow> bool" where
  "same_binding b b' \<longleftrightarrow> b_id b' = b_id b \<and> b_key b' = b_key b \<and> b_endpoint b' = b_endpoint b \<and>
     b_deadline b' = b_deadline b \<and> b_generation b' = b_generation b \<and>
     (\<forall>s. spent (b_replay b) s \<longrightarrow> spent (b_replay b') s)"

lemma same_binding_refl [simp]: "same_binding b b"
  by (simp add: same_binding_def)

lemma same_binding_trans: "same_binding a b \<Longrightarrow> same_binding b c \<Longrightarrow> same_binding a c"
  by (simp add: same_binding_def)

definition same_authority :: "'l grant_record \<Rightarrow> 'l grant_record \<Rightarrow> bool" where
  "same_authority gr gr' \<longleftrightarrow> grant_live gr \<and> g_secret gr' = g_secret gr \<and> g_room_id gr' = g_room_id gr \<and>
     g_session_id gr' = g_session_id gr \<and> g_participant_id gr' = g_participant_id gr \<and> g_id gr' = g_id gr"

definition quiet :: "'l grant_record \<Rightarrow> 'l grant_record \<Rightarrow> bool" where
  "quiet gr gr' \<longleftrightarrow> (grant_live gr' \<longrightarrow> same_authority gr gr' \<and> g_generation gr' = g_generation gr \<and>
     (\<forall>b'. g_binding gr' = Some b' \<longrightarrow> (\<exists>b. g_binding gr = Some b \<and> same_binding b b')))"

lemma quiet_refl [simp]: "quiet gr gr"
  by (simp add: quiet_def same_authority_def)

lemma quiet_dead [simp]: "\<not> grant_live gr' \<Longrightarrow> quiet gr gr'"
  by (simp add: quiet_def)

lemma quiet_trans: "quiet a b \<Longrightarrow> quiet b c \<Longrightarrow> quiet a c"
  unfolding quiet_def same_authority_def using same_binding_trans by metis

definition quiet_store :: "'l store \<Rightarrow> 'l store \<Rightarrow> bool" where
  "quiet_store st st' \<longleftrightarrow> s_next st' = s_next st \<and> s_self st' = s_self st \<and>
     (\<forall>g. quiet (s_heap st g) (s_heap st' g))"

lemma quiet_store_refl [simp]: "quiet_store st st"
  by (simp add: quiet_store_def)

lemma quiet_store_trans [trans]: "quiet_store a b \<Longrightarrow> quiet_store b c \<Longrightarrow> quiet_store a c"
  unfolding quiet_store_def using quiet_trans by metis

lemma quiet_store_frame:
  "s_heap st' = s_heap st \<Longrightarrow> s_next st' = s_next st \<Longrightarrow> s_self st' = s_self st \<Longrightarrow> quiet_store st st'"
  by (simp add: quiet_store_def)

lemma quiet_update:
  assumes "quiet (s_heap st g) (f (s_heap st g))"
  shows "quiet_store st (update_grant g f st)"
  using assms by (simp add: quiet_store_def update_grant_def)

lemma quiet_fold: "(\<And>st x. x \<in> set xs \<Longrightarrow> quiet_store st (f x st)) \<Longrightarrow> quiet_store st (fold f xs st)"
proof (induction xs arbitrary: st)
  case (Cons x xs)
  have "quiet_store st (f x st)" by (rule Cons.prems) simp
  moreover have "quiet_store (f x st) (fold f xs (f x st))" by (rule Cons.IH) (simp add: Cons.prems)
  ultimately show ?case by (simp add: quiet_store_trans)
qed simp

section \<open>The operations on one grant and one room\<close>

named_theorems quiet_ops \<open>operations that complete no handshake\<close>

lemma clear_pending_quiet [quiet_ops]: "quiet_store st (clear_pending g st)"
  by (auto simp: clear_pending_def quiet_store_def update_grant_def quiet_def same_authority_def grant_live_def
      split: option.split)

lemma clear_recent_quiet [quiet_ops]: "quiet_store st (clear_recent g st)"
  by (auto simp: clear_recent_def quiet_store_def update_grant_def quiet_def same_authority_def grant_live_def
      split: option.split)

lemma clear_binding_quiet [quiet_ops]: "quiet_store st (clear_binding g st)"
proof (cases "g_binding (s_heap st g)")
  case (Some b)
  define st1 where "st1 = (case g_recent (s_heap st g) of
     Some recent \<Rightarrow> if h_generation recent = b_generation b then clear_recent g st else st | None \<Rightarrow> st)"
  have "quiet_store st st1" by (auto simp: st1_def clear_recent_quiet split: option.split)
  moreover have "quiet_store st1 (clear_binding g st)"
    by (auto simp: clear_binding_def Some Let_def st1_def [symmetric] quiet_store_def update_grant_def
        quiet_def same_authority_def grant_live_def split: if_splits)
  ultimately show ?thesis by (rule quiet_store_trans)
qed (simp add: clear_binding_def)

lemma expire_relay_quiet [quiet_ops]: "quiet_store st (expire_relay g now st)"
proof -
  define st1 where "st1 = (case g_pending (s_heap st g) of
     Some p \<Rightarrow> if now \<ge> c_deadline p then clear_pending g st else st | None \<Rightarrow> st)"
  define st2 where "st2 = (case g_recent (s_heap st1 g) of
     Some r \<Rightarrow> if now \<ge> h_deadline r then clear_recent g st1 else st1 | None \<Rightarrow> st1)"
  have "quiet_store st st1" by (auto simp: st1_def quiet_ops split: option.split)
  also have "quiet_store st1 st2" by (auto simp: st2_def quiet_ops split: option.split)
  also have "quiet_store st2 (expire_relay g now st)"
    by (auto simp: expire_relay_def Let_def st1_def [symmetric] st2_def [symmetric] quiet_ops split: option.split)
  finally show ?thesis .
qed

lemmas clear_relay_other = grant_local_fields(8) [OF clear_relay_local]
lemmas clear_relay_next = grant_local_fields(2,6) [OF clear_relay_local]

lemma terminal_grant_quiet [quiet_ops]:
  assumes "terminal_state s"
  shows "quiet_store st (terminal_grant g s st)" and "\<not> grant_live (s_heap (terminal_grant g s st) g)"
proof -
  show dead: "\<not> grant_live (s_heap (terminal_grant g s st) g)"
    using assms by (auto simp: terminal_grant_def Let_def update_grant_def grant_live_def terminal_state_def)
  have "s_heap (terminal_grant g s st) x = s_heap st x" if "x \<noteq> g" for x
    using that by (simp add: terminal_grant_def Let_def update_grant_def clear_relay_other)
  moreover have "s_next (terminal_grant g s st) = s_next st" "s_self (terminal_grant g s st) = s_self st"
    by (simp_all add: terminal_grant_def Let_def update_grant_def clear_relay_next)
  ultimately show "quiet_store st (terminal_grant g s st)"
    using dead unfolding quiet_store_def by (metis quiet_dead quiet_refl)
qed

lemma tombstone_room_quiet [quiet_ops]:
  assumes "terminal_state s"
  shows "quiet_store st (tombstone_room rid now s st)"
proof (cases "fmlookup (s_rooms st) rid")
  case (Some R)
  define st1 where "st1 = (if r_state R = roomStateOpen then st\<lparr>s_open_rooms := s_open_rooms st - 1\<rparr> else st)"
  define st2 where "st2 = fold (\<lambda>g. terminal_grant g s) (r_grants R) st1"
  have "quiet_store st st1" by (simp add: st1_def quiet_store_frame)
  also have "quiet_store st1 st2" unfolding st2_def by (rule quiet_fold) (rule quiet_ops assms)+
  finally have "quiet_store st st2" .
  then show ?thesis
    by (simp add: tombstone_room_def Some Let_def st1_def [symmetric] st2_def [symmetric])
      (simp add: quiet_store_def)
qed (simp add: tombstone_room_def)
lemma drop_room_quiet: "quiet_store st (st\<lparr>s_rooms := m\<rparr>)" "quiet_store st (st\<lparr>s_rooms := m, s_open_rooms := n\<rparr>)"
  by (simp_all add: quiet_store_frame)

lemma end_room_quiet: "end_room rid reading st = (st', r) \<Longrightarrow> quiet_store st st'"
  using tombstone_room_quiet [of GrantStateRevoked st rid "mono reading"]
  by (auto simp: end_room_def drop_room_quiet split: option.splits if_splits)

lemma expire_grant_quiet [quiet_ops]: "quiet_store st (expire_grant now g st)"
  using expire_relay_quiet [of st g now] terminal_grant_quiet(1) [of GrantStateExpired "expire_relay g now st" g]
  by (auto simp: expire_grant_def Let_def intro: quiet_store_trans)

lemma expire_room_quiet: "quiet_store st (expire_room now rid st)"
proof (cases "fmlookup (s_rooms st) rid")
  case (Some R)
  define st1 where "st1 = fold (expire_grant now) (r_grants R) st"
  have 1: "quiet_store st st1" unfolding st1_def by (rule quiet_fold) (rule quiet_ops)
  define st2 where "st2 = (if r_state R = roomStateOpen
      then st1\<lparr>s_rooms := fmupd rid (R\<lparr>r_state := roomStateEmpty\<rparr>) (s_rooms st1), s_open_rooms := s_open_rooms st1 - 1\<rparr>
      else st1)"
  have 2: "quiet_store st1 st2" by (simp add: st2_def drop_room_quiet)
  have "quiet_store st1 (tombstone_room rid now GrantStateExpired st1)"
    "quiet_store st2 (tombstone_room rid now GrantStateExpired st2)" by (rule tombstone_room_quiet, simp)+
  then have "quiet_store st1 (expire_room now rid st) \<or> expire_room now rid st = st \<or>
      expire_room now rid st = st\<lparr>s_rooms := fmdrop rid (s_rooms st)\<rparr>"
    using 2 by (simp add: expire_room_def Some Let_def st1_def [symmetric] st2_def [symmetric])
      (metis quiet_store_refl quiet_store_trans)
  then show ?thesis using 1 quiet_store_trans drop_room_quiet(1) quiet_store_refl by metis
qed (simp add: expire_room_def)

lemma expire_source_quiet: "quiet_store st (expire_source now k st)"
  using expire_source_core [of st now k] by (intro quiet_store_frame) (simp_all add: same_core_facts)

lemma expire_quiet: "quiet_store st (expire rids keys now st)"
  unfolding expire_def
  by (rule quiet_store_trans [OF quiet_fold quiet_fold]; rule expire_room_quiet expire_source_quiet)

section \<open>Bound packets\<close>

text \<open>What an operation that may panic leads to.\<close>

definition leads :: "'l store \<Rightarrow> ('l store \<times> 'r) option \<Rightarrow> bool" where
  "leads st r \<longleftrightarrow> (\<forall>st' x. r = Some (st', x) \<longrightarrow> quiet_store st st')"

lemma leads_simps [simp]: "leads st None" "leads st (Some (st', x)) \<longleftrightarrow> quiet_store st st'"
  by (auto simp: leads_def)

lemma leadsD: "leads st r \<Longrightarrow> r = Some (st', x) \<Longrightarrow> quiet_store st st'"
  by (auto simp: leads_def)

lemma leads_trans: "quiet_store st st1 \<Longrightarrow> leads st1 r \<Longrightarrow> leads st r"
  unfolding leads_def using quiet_store_trans by blast

lemma same_core_quiet: "same_core st st' \<Longrightarrow> quiet_store st st'"
  by (rule quiet_store_frame) (simp_all add: same_core_facts)

lemma admit_preauth_quiet: "admit_preauth A endpoint n now st = Some (st', r) \<Longrightarrow> quiet_store st st'"
  using admit_preauth_frame(1) same_core_quiet by blast

lemma reject_preauth_quiet: "leads st (reject_preauth A endpoint n now reason st)"
  by (auto simp: reject_preauth_def split: option.split dest: admit_preauth_quiet)

lemma reject_with_quiet:
  assumes "leads st r" and "\<And>st'. quiet_store st' (cleanup st')"
  shows "leads st (reject_with r reason cleanup)"
  using assms by (auto simp: reject_with_def leads_def split: option.split intro: quiet_store_trans)

lemma charge_authenticated_quiet: "leads st (charge_authenticated A g R n now st)"
  by (auto simp: charge_authenticated_def Let_def leads_def quiet_store_def update_grant_def quiet_def
      same_authority_def grant_live_def split: charge_outcome.splits list.splits)

lemma replay_update_quiet:
  assumes "g_binding (s_heap st g) = Some b"
  shows "quiet_store st (update_grant g (\<lambda>gr. gr\<lparr>g_binding := Some (b\<lparr>b_replay := fst (window_accept (b_replay b) s)\<rparr>)\<rparr>) st)"
  using assms by (intro quiet_update)
    (simp add: quiet_def same_authority_def same_binding_def grant_live_def spent_mono)

lemma admit_authenticated_quiet:
  "leads st (admit_authenticated A room_id session_id i sequence endpoint tag n now expected st)"
proof -
  let ?rej = "\<lambda>r. reject_preauth A endpoint n now r st"
  have rej: "leads st (reject_with (?rej r) r id)"
    "leads st (reject_with (?rej r) r (tombstone_room rid now GrantStateExpired))"
    "leads st (reject_with (?rej r) r (terminal_grant g GrantStateExpired))"
    "leads st (reject_with (?rej r) r (clear_binding g))" for r rid g
    by (rule reject_with_quiet [OF reject_preauth_quiet]; simp add: quiet_ops)+
  have last: "quiet_store st st2" if "g_binding (s_heap st g) = Some b"
    "charge_authenticated A g R n now
        (update_grant g (\<lambda>gr. gr\<lparr>g_binding := Some (b\<lparr>b_replay := fst (window_accept (b_replay b) sequence)\<rparr>)\<rparr>) st) = Some (st2, ok)"
    for g b R st2 ok
    using leads_trans [OF replay_update_quiet [OF that(1), of sequence] charge_authenticated_quiet] that(2)
    by (rule leadsD)
  show ?thesis
    unfolding admit_authenticated_def Let_def split_def
    by (auto simp: rej last split: option.split bool.split)
qed

lemma admit_client_ingress_quiet: "leads st (admit_client_ingress A H request n reading st)"
  unfolding admit_client_ingress_def by (auto split: option.split sum.split dest: admit_authenticated_quiet [THEN leadsD])

lemma admit_ping_quiet: "leads st (admit_ping A H request n reading st)"
  unfolding admit_ping_def by (auto split: option.split sum.split dest: admit_authenticated_quiet [THEN leadsD])
section \<open>Fan-out and challenges\<close>

lemma fanout_recipients_quiet: "fanout_recipients sender now gs st = (st', rs) \<Longrightarrow> quiet_store st st'"
proof (induction gs arbitrary: st st' rs)
  case (Cons g gs)
  have "quiet_store st (terminal_grant g GrantStateExpired st)" "quiet_store st (expire_relay g now st)"
    by (simp_all add: quiet_ops)
  moreover have "quiet_store st2 st' \<Longrightarrow> quiet_store st st'" if "quiet_store st st2" for st2
    using that quiet_store_trans by blast
  ultimately show ?case
    using Cons by (auto simp: Let_def split: if_splits prod.splits option.splits)
qed simp

lemma charge_fanout_quiet: "leads st (charge_fanout A rid R writes n now st)"
  by (auto simp: charge_fanout_def leads_def quiet_store_frame split: charge_outcome.splits list.splits)

lemma live_authority_quiet: "live_authority g now st = (st', r) \<Longrightarrow> quiet_store st st'"
  using tombstone_room_quiet [of GrantStateExpired st "g_room_id (s_heap st g)" now]
    terminal_grant_quiet(1) [of GrantStateExpired st g]
  by (auto simp: live_authority_def Let_def split: if_splits option.splits)

lemma admit_fanout_quiet: "leads st (admit_fanout A ad n reading st)"
proof -
  let ?now = "mono reading"
  have clear: "quiet_store st (clear_binding g st1)" if "live_authority g ?now st = (st1, r)" for g st1 r
    using live_authority_quiet [OF that] clear_binding_quiet quiet_store_trans by blast
  have fan: "quiet_store st st2"
    if "live_authority g ?now st = (st1, r)" "fanout_recipients g ?now gs st1 = (st2, rs)" for g st1 r gs st2 rs
    using live_authority_quiet [OF that(1)] fanout_recipients_quiet [OF that(2)] quiet_store_trans by blast
  have charge: "quiet_store st st3"
    if "live_authority g ?now st = (st1, r)" "fanout_recipients g ?now gs st1 = (st2, rs)"
      "charge_fanout A rid R writes m ?now st2 = Some (st3, ok)" for g st1 r gs st2 rs rid R writes m st3 ok
    using fan [OF that(1,2)] leadsD [OF charge_fanout_quiet that(3)] quiet_store_trans by blast
  show ?thesis
    unfolding admit_fanout_def Let_def
    by (auto simp: clear charge fan live_authority_quiet split: option.split prod.split sum.split bool.split)
qed

lemma random_quiet: "quiet_store st (st\<lparr>s_random := src\<rparr>)"
  by (simp add: quiet_store_frame)

lemma with_pending_quiet: "quiet_store st (with_pending g p st)"
  by (simp add: with_pending_def quiet_store_def update_grant_def quiet_def same_authority_def grant_live_def)

lemma issue_challenge_quiet: "leads st (issue_challenge request reading g R st)"
proof -
  have "quiet_store st (with_pending g p (st\<lparr>s_random := src\<rparr>))" for p src
    by (rule quiet_store_trans [OF random_quiet with_pending_quiet])
  then show ?thesis
    unfolding issue_challenge_def Let_def
    by (auto simp: random_quiet split: option.split prod.split)
qed

lemma begin_challenge_quiet: "leads st (begin_challenge A request reading st)"
proof -
  let ?now = "mono reading"
  have pre: "quiet_store st st1"
    if "admit_preauth A (cq_endpoint request) (cq_input_bytes request) ?now st = Some (st1, r)" for st1 r
    by (rule admit_preauth_quiet [OF that])
  have auth: "quiet_store st st2"
    if "admit_preauth A (cq_endpoint request) (cq_input_bytes request) ?now st = Some (st1, r)"
      "live_authority g ?now st1 = (st2, x)" for st1 r g st2 x
    using pre [OF that(1)] live_authority_quiet [OF that(2)] by (rule quiet_store_trans)
  have issue: "leads st (issue_challenge request reading g R (expire_relay g ?now st2))"
    if "admit_preauth A (cq_endpoint request) (cq_input_bytes request) ?now st = Some (st1, r)"
      "live_authority g ?now st1 = (st2, x)" for st1 r g st2 x R
    using quiet_store_trans [OF auth [OF that] expire_relay_quiet] issue_challenge_quiet by (rule leads_trans)
  show ?thesis
    unfolding begin_challenge_def Let_def
    by (auto simp: pre auth issue split: option.split prod.split sum.split)
qed

section \<open>A completed handshake\<close>

text \<open>A binding whose key is derived from the secret of its grant.\<close>

definition derived :: "hmac_fun \<Rightarrow> 'l grant_record \<Rightarrow> binding_record \<Rightarrow> bool" where
  "derived H gr b \<longleftrightarrow> (\<exists>secret candidate client_nonce server_nonce. g_secret gr = Some secret \<and>
     b_key b = binding_key H secret Revision (g_room_id gr) (g_session_id gr) (g_id gr)
       candidate client_nonce server_nonce)"

definition rebound :: "hmac_fun \<Rightarrow> 'l grant_record \<Rightarrow> 'l grant_record \<Rightarrow> bool" where
  "rebound H gr gr' \<longleftrightarrow> same_authority gr gr' \<and> g_generation gr' = g_generation gr + 1 \<and>
     (\<exists>b'. g_binding gr' = Some b' \<and> derived H gr' b')"

definition evolves :: "hmac_fun \<Rightarrow> 'l grant_record \<Rightarrow> 'l grant_record \<Rightarrow> bool" where
  "evolves H gr gr' \<longleftrightarrow> quiet gr gr' \<or> rebound H gr gr'"

text \<open>One operation on the whole store: new grants start without a binding.\<close>

definition store_evolves :: "hmac_fun \<Rightarrow> 'l store \<Rightarrow> 'l store \<Rightarrow> bool" where
  "store_evolves H st st' \<longleftrightarrow> s_next st \<le> s_next st' \<and> s_self st' = s_self st \<and>
     (\<forall>g < s_next st. evolves H (s_heap st g) (s_heap st' g)) \<and>
     (\<forall>g. s_next st \<le> g \<and> g < s_next st' \<longrightarrow> g_binding (s_heap st' g) = None)"

lemma quiet_store_evolves: "quiet_store st st' \<Longrightarrow> store_evolves H st st'"
  by (auto simp: quiet_store_def store_evolves_def evolves_def)

lemma store_evolves_refl: "store_evolves H st st"
  by (rule quiet_store_evolves) simp

lemma same_authority_trans: "same_authority a b \<Longrightarrow> same_authority b c \<Longrightarrow> same_authority a c"
  by (simp add: same_authority_def)

lemma quiet_authority: "quiet gr gr' \<Longrightarrow> grant_live gr' \<Longrightarrow> same_authority gr gr' \<and> g_generation gr' = g_generation gr"
  by (simp add: quiet_def)

text \<open>A handshake after a quiet change is a handshake.\<close>

lemma quiet_rebound:
  assumes "quiet a b" and "rebound H b c"
  shows "evolves H a c"
proof -
  have "grant_live b" using assms(2) by (simp add: rebound_def same_authority_def)
  then show ?thesis
    using assms quiet_authority [OF assms(1)] same_authority_trans by (auto simp: evolves_def rebound_def)
qed

lemma quiet_evolves:
  assumes "quiet a b" and "evolves H b c"
  shows "evolves H a c"
  using assms(2) quiet_trans [OF assms(1)] quiet_rebound [OF assms(1)] unfolding evolves_def by blast

lemma quiet_then_evolves:
  assumes "quiet_store a b" and "\<And>g. quiet (s_heap b g) (s_heap c g) \<or> rebound H (s_heap b g) (s_heap c g)"
    and "s_next c = s_next b" "s_self c = s_self b"
  shows "store_evolves H a c"
proof -
  have "evolves H (s_heap a g) (s_heap c g)" for g
    using assms(1) assms(2) [of g] by (intro quiet_evolves [of "s_heap a g" "s_heap b g"]) (auto simp: quiet_store_def evolves_def)
  then show ?thesis using assms(1,3,4) by (auto simp: quiet_store_def store_evolves_def)
qed

lemma evolves_after_quiet:
  assumes "quiet_store a b" and "store_evolves H b c"
  shows "store_evolves H a c"
proof -
  have "evolves H (s_heap a g) (s_heap c g)" if "g < s_next a" for g
  proof -
    have "quiet (s_heap a g) (s_heap b g)" "evolves H (s_heap b g) (s_heap c g)"
      using assms that by (auto simp: quiet_store_def store_evolves_def)
    then show ?thesis by (rule quiet_evolves)
  qed
  then show ?thesis using assms by (auto simp: quiet_store_def store_evolves_def)
qed

lemma cleared_quiet: "quiet_store st (cleared g st)"
  unfolding cleared_def by (rule quiet_store_trans [OF quiet_store_trans]) (rule quiet_ops)+

text \<open>The binding that \<open>Authenticate\<close> commits.\<close>

lemma with_binding_rebound:
  assumes inv: "store_inv st" and own: "g \<in> owned st" and live: "grant_live (s_heap st g)"
    and gen: "b_generation b = g_generation (s_heap st g) + 1" and key: "derived H (s_heap st g) b"
  shows "store_evolves H st (with_binding g b h (cleared g st))"
proof (rule quiet_then_evolves [OF cleared_quiet])
  let ?c = "cleared g st"
  have live': "grant_live (s_heap ?c g)" using cleared_spec(6) [OF inv own] live by simp
  then have same: "same_authority (s_heap st g) (s_heap ?c g)" "g_generation (s_heap ?c g) = g_generation (s_heap st g)"
    using cleared_quiet [of st g] quiet_authority by (auto simp: quiet_store_def)
  fix x show "quiet (s_heap ?c x) (s_heap (with_binding g b h ?c) x) \<or>
      rebound H (s_heap ?c x) (s_heap (with_binding g b h ?c) x)"
  proof (cases "x = g")
    case True
    have "rebound H (s_heap ?c g) (s_heap (with_binding g b h ?c) g)"
      using live' same gen key
      by (simp add: rebound_def with_binding_def update_grant_def same_authority_def derived_def)
    then show ?thesis by (simp add: True)
  qed (simp add: with_binding_def update_grant_def)
qed (simp_all add: with_binding_def update_grant_def)

lemma authenticate_recent_quiet: "leads st (authenticate_recent H request now g h st)"
  by (auto simp: authenticate_recent_def Let_def quiet_ops split: option.split)

lemma authenticate_pending_evolves:
  assumes inv: "store_inv st" and own: "g \<in> owned st" and live: "grant_live (s_heap st g)"
    and eq: "authenticate_pending H request reading g R p st = Some (st', res)"
  shows "store_evolves H st st'"
proof -
  have quiet: "store_evolves H st st1" if "quiet_store st st1" for st1 using that by (rule quiet_store_evolves)
  have commit: "store_evolves H st (commit_binding g b h (st\<lparr>s_random := src\<rparr>))"
    if "b_generation b = g_generation (s_heap st g) + 1" "derived H (s_heap st g) b" for b h src
    unfolding commit_binding_eq
    by (rule evolves_after_quiet [OF random_quiet with_binding_rebound]) (use that inv own live in \<open>simp_all add: owned_def\<close>)
  have "derived H (s_heap st g) b" if "g_secret (s_heap st g) = Some x"
    "b_key b = binding_key H x Revision (g_room_id (s_heap st g)) (g_session_id (s_heap st g)) (g_id (s_heap st g)) c n m"
    for b x c n m
    using that by (auto simp: derived_def)
  note key = this
  show ?thesis
    using eq unfolding authenticate_pending_def Let_def
    by (auto simp: store_evolves_refl quiet clear_pending_quiet random_quiet split: if_splits option.splits prod.splits
        intro!: commit intro: key)
qed

lemma authenticate_evolves:
  assumes inv: "store_inv st" and eq: "authenticate A H request reading st = Some (st', res)"
  shows "store_evolves H st st'"
proof -
  let ?now = "mono reading"
  obtain st1 r where ap: "admit_preauth A (aq_endpoint request) (aq_input_bytes request) ?now st = Some (st1, r)"
    using eq by (auto simp: authenticate_def Let_def split: option.splits)
  have inv1: "store_inv st1" using admit_preauth_inv(1) [OF inv ap] .
  have q1: "quiet_store st st1" by (rule admit_preauth_quiet [OF ap])
  have "store_evolves H st1 st'"
  proof (cases "st' = st1")
    case False
    then obtain g where look: "s_candidates_by_id st1 (aq_candidate_id request) = Some g"
      using eq by (auto simp: authenticate_def Let_def ap split: option.splits if_splits)
    have own: "g \<in> owned st1" using index_invD(1) [OF core_index [OF store_inv_core [OF inv1]]] look by simp
    obtain st2 la where la: "live_authority g ?now st1 = (st2, la)" by fastforce
    show ?thesis
    proof (cases la)
      case (Inl reason)
      then have "st' = st2" using eq look la False by (auto simp: authenticate_def Let_def ap split: if_splits)
      then show ?thesis using live_authority_quiet [OF la] by (simp add: quiet_store_evolves)
    next
      case (Inr R)
      note ok = live_authority_ok [OF inv1 own la [unfolded Inr]]
      have pend: "store_evolves H st1 st'"
        if "authenticate_pending H request reading g R p st1 = Some (st', res)" for p
        by (rule authenticate_pending_evolves [OF inv1 own ok(5) that])
      have recent: "store_evolves H st1 st'" if "authenticate_recent H request ?now g h st1 = Some (st', res)" for h
        using leadsD [OF authenticate_recent_quiet that] by (rule quiet_store_evolves)
      show ?thesis
        using eq look la ok(1) Inr False
        by (auto simp: authenticate_def Let_def ap split: if_splits option.splits intro: pend recent)
    qed
  qed (simp add: quiet_store_evolves)
  with q1 show ?thesis by (rule evolves_after_quiet)
qed

section \<open>Creating a room\<close>

lemma commit_room_evolves:
  assumes "\<And>gr. gr \<in> set grants \<Longrightarrow> g_binding gr = None"
  shows "store_evolves H st (commit_room rid room grants st)"
  using assms by (auto simp: store_evolves_def evolves_def commit_room_def Let_def alloc_heap_def)

lemma staged_unbound: "staged_ok A st rid staged p gr \<Longrightarrow> g_binding gr = None"
  unfolding staged_ok_def new_grant_def by (metis grant_record.select_convs(13))

lemma create_fresh_evolves:
  assumes "reading_ok reading" and "create_fresh A rid c reading st = (st', res)"
  shows "store_evolves H st st'"
proof (cases res)
  case (Inl e)
  then show ?thesis using create_fresh_failure assms(2) random_quiet quiet_store_evolves by blast
next
  case (Inr x)
  obtain al new where "res = Inr (al, new)" using Inr by (cases x) simp
  then obtain rd grants src where com: "commits A rid c reading st rd grants"
    and st': "st' = commit_room rid (new_room A (s_limits st) c (wall reading) rd) grants (st\<lparr>s_random := src\<rparr>)"
    using create_fresh_success [of A rid c reading st st' al new] assms by blast
  have stg: "list_all2 (staged_ok A st rid [])
     (map (\<lambda>p. (p, mono reading + time_sub (pd_grant_expires_at p) (wall reading))) (rd_participants c)) grants"
    using com by (simp only: commits_def)
  have "g_binding gr = None" if "gr \<in> set grants" for gr
    using list_all2_in_set2 [OF stg that] staged_unbound by blast
  then show ?thesis
    unfolding st' by (intro evolves_after_quiet [OF random_quiet commit_room_evolves])
qed

lemma create_room_evolves:
  assumes "reading_ok reading" and "create_room A rid d reading st = (st', res)"
  shows "store_evolves H st st'"
proof -
  consider "st' = st" | c where "create_fresh A rid c reading st = (st', res)"
    | c where "create_fresh A rid c reading (st\<lparr>s_rooms := fmdrop rid (s_rooms st)\<rparr>) = (st', res)"
    using assms(2) by (auto simp: create_room_def split: sum.splits option.splits room_state.splits if_splits)
  then show ?thesis
  proof cases
    case 1
    then show ?thesis by (simp add: store_evolves_refl)
  next
    case 2
    then show ?thesis by (rule create_fresh_evolves [OF assms(1)])
  next
    case 3
    then show ?thesis by (intro evolves_after_quiet [OF drop_room_quiet(1) create_fresh_evolves [OF assms(1)]])
  qed
qed

end
