(* ===== verification/Store_Machine.thy ===== *)
theory Store_Machine
  imports Transitions Room_Contract Store_Evolve
begin

text \<open>
  The store as a state machine. Every public operation of \<open>store.Store\<close> runs under its mutex, so a
  concurrent execution is a sequence of operations, each with the clock reading it takes under the
  lock: one step is one operation. The sweep of \<open>Expire\<close> meets the rooms and the sources in the
  order in which Go happens to iterate over its maps, which the step leaves open.
\<close>

section \<open>Operations and responses\<close>

datatype store_op =
    Create_Room string room_definition
  | End_Room string
  | Sweep "string list" "prefix list"
  | Preauth addr_port int
  | Challenge challenge_request
  | Handshake authenticate_request
  | Ingress client_data_request int
  | Fanout admitted_client_data int
  | Keepalive ping_request int

datatype store_response =
    Created "store_error + allocation \<times> bool"
  | Ended "store_error option"
  | Swept
  | Preauthorised reject_reason
  | Challenged "reject_reason + challenge_result"
  | Bound_As "reject_reason + bound_result"
  | Admitted "reject_reason + admitted_client_data"
  | Planned "reject_reason + relay_plan"
  | Pinged reject_reason

text \<open>One operation; \<^const>\<open>None\<close> is a panic.\<close>

fun perform :: "'l limiter_api \<Rightarrow> hmac_fun \<Rightarrow> store_op \<Rightarrow> clock_reading \<Rightarrow> 'l store \<Rightarrow> ('l store \<times> store_response) option" where
  "perform A H (Create_Room rid d) reading st = Some (map_prod id Created (create_room A rid d reading st))"
| "perform A H (End_Room rid) reading st = Some (map_prod id Ended (end_room rid reading st))"
| "perform A H (Sweep rids keys) reading st = Some (expire rids keys (mono reading) st, Swept)"
| "perform A H (Preauth endpoint n) reading st =
     map_option (map_prod id Preauthorised) (admit_preauth A endpoint n (mono reading) st)"
| "perform A H (Challenge q) reading st = map_option (map_prod id Challenged) (begin_challenge A q reading st)"
| "perform A H (Handshake q) reading st = map_option (map_prod id Bound_As) (authenticate A H q reading st)"
| "perform A H (Ingress q n) reading st = map_option (map_prod id Admitted) (admit_client_ingress A H q n reading st)"
| "perform A H (Fanout ad n) reading st = map_option (map_prod id Planned) (admit_fanout A ad n reading st)"
| "perform A H (Keepalive q n) reading st = map_option (map_prod id Pinged) (admit_ping A H q n reading st)"

fun op_fits :: "store_op \<Rightarrow> 'l store \<Rightarrow> bool" where
  "op_fits (Sweep rids keys) st \<longleftrightarrow> distinct rids \<and> set rids = fmdom' (s_rooms st) \<and>
     distinct keys \<and> set keys = fmdom' (s_preauth_sources st)"
| "op_fits _ st \<longleftrightarrow> True"

type_synonym store_event = "store_op \<times> clock_reading \<times> store_response"

inductive store_step :: "'l limiter_api \<Rightarrow> hmac_fun \<Rightarrow> 'l store \<Rightarrow> store_event \<Rightarrow> 'l store \<Rightarrow> bool" for A H where
  store_step: "reading_ok reading \<Longrightarrow> op_fits op st \<Longrightarrow> perform A H op reading st = Some (st', r) \<Longrightarrow>
    store_step A H st (op, reading, r) st'"

inductive_cases store_stepE: "store_step A H st e st'"
inductive_simps store_step_iff: "store_step A H st (op, reading, r) st'"

text \<open>The stores a program can get to from a store that \<open>New\<close> accepted.\<close>

definition store_reachable :: "'l limiter_api \<Rightarrow> hmac_fun \<Rightarrow> 'l store \<Rightarrow> bool" where
  "store_reachable A H st \<longleftrightarrow> (\<exists>self lims random st0 es. store_new A self lims random = Inr st0 \<and>
     run (store_step A H) st0 es st)"

lemma store_reachable_run: "store_reachable A H st \<Longrightarrow> run (store_step A H) st es st' \<Longrightarrow> store_reachable A H st'"
  unfolding store_reachable_def by (blast intro: run_append [THEN iffD2])

lemma store_reachable_step: "store_reachable A H st \<Longrightarrow> store_step A H st e st' \<Longrightarrow> store_reachable A H st'"
  by (rule store_reachable_run [of A H st "[e]"]) (simp_all add: run_Cons_iff)

section \<open>The invariant along a run\<close>

lemma end_room_inv:
  assumes inv: "store_inv st" and eq: "end_room rid reading st = (st', r)"
  shows "store_inv st'"
proof -
  have drop: "store_inv (st\<lparr>s_rooms := fmdrop rid (s_rooms st)\<rparr>)"
    if "fmlookup (s_rooms st) rid = Some R" "r_state R = roomStateTombstone" for R
    by (rule drop_tombstone_store_inv(1) [OF inv that])
  have tomb: "store_inv (tombstone_room rid (mono reading) GrantStateRevoked st)"
    if "fmlookup (s_rooms st) rid = Some R" "r_state R \<noteq> roomStateTombstone" for R
    using tombstone_room_spec(1) [OF inv that] by simp
  show ?thesis
    using eq inv by (auto simp: end_room_def split: option.splits if_splits intro: drop tomb)
qed

lemma fineD: "fine r \<Longrightarrow> r = Some (st', x) \<Longrightarrow> store_inv st'"
  by (auto simp: fine_def)

lemma fine_bind:
  "fine r \<Longrightarrow> (\<And>st' x. store_inv st' \<Longrightarrow> fine (f st' x)) \<Longrightarrow> fine (case r of None \<Rightarrow> None | Some (st', x) \<Rightarrow> f st' x)"
  by (auto simp: fine_def)

lemma packet_ops_fine:
  assumes "limiter_law A" and "store_inv st"
  shows "fine (admit_client_ingress A H q n reading st)" and "fine (admit_ping A H p n reading st)"
  unfolding admit_client_ingress_def admit_ping_def
  by (rule fine_bind [OF admit_authenticated_fine [OF assms]]; simp split: sum.split prod.split)+

text \<open>No operation panics, and each keeps the invariant.\<close>

lemma perform_fine:
  assumes law: "limiter_law A" and inv: "store_inv st" and r: "reading_ok reading" and fits: "op_fits op st"
  shows "fine (perform A H op reading st)"
proof -
  have fine_map: "fine (map_option (map_prod id f) x) \<longleftrightarrow> fine x" for f :: "'b \<Rightarrow> store_response" and x :: "('l store \<times> 'b) option"
    by (cases x) auto
  show ?thesis
  proof (cases op)
    case (Create_Room rid d)
    then show ?thesis using create_room_inv [OF inv r] by (cases "create_room A rid d reading st") auto
  next
    case (End_Room rid)
    then show ?thesis using end_room_inv [OF inv] by (cases "end_room rid reading st") auto
  next
    case (Sweep rids keys)
    then show ?thesis using expire_inv [OF inv] fits by simp
  next
    case (Preauth endpoint n)
    have "fine (admit_preauth A endpoint n (mono reading) st)"
      using admit_preauth_total [OF law, of endpoint n "mono reading" st] admit_preauth_inv(1) [OF inv]
      by (auto simp: fine_def)
    with Preauth show ?thesis by (simp add: fine_map)
  next
    case (Challenge q)
    then show ?thesis using begin_challenge_cases [OF law inv, of q reading] by (auto simp: fine_def)
  next
    case (Handshake q)
    then show ?thesis using authenticate_cases [OF law inv, of H q reading] by (auto simp: fine_def)
  next
    case (Ingress q n)
    then show ?thesis using packet_ops_fine(1) [OF law inv] by (simp add: fine_map)
  next
    case (Fanout ad n)
    then show ?thesis using admit_fanout_cases [OF law inv, of ad n reading] by (auto simp: fine_def)
  next
    case (Keepalive q n)
    then show ?thesis using packet_ops_fine(2) [OF law inv] by (simp add: fine_map)
  qed
qed

text \<open>The invariant, under the law of the limiter, as one predicate of the state.\<close>

definition lawful_inv :: "'l limiter_api \<Rightarrow> 'l store \<Rightarrow> bool" where
  "lawful_inv A st \<longleftrightarrow> (limiter_law A \<longrightarrow> store_inv st)"

interpretation keeps: preserved "store_step A H" "lawful_inv A" for A :: "'l limiter_api" and H
proof
  fix s s' :: "'l store" and e
  assume "store_step A H s e s'" "lawful_inv A s"
  then show "lawful_inv A s'"
    by (auto simp: lawful_inv_def elim!: store_stepE intro: fineD [OF perform_fine])
qed

lemma reachable_inv:
  assumes "limiter_law A" and "store_reachable A H st"
  shows "store_inv st"
proof -
  obtain self lims random st0 es where st0: "store_new A self lims random = Inr st0" "run (store_step A H) st0 es st"
    using assms(2) by (auto simp: store_reachable_def)
  then show ?thesis using keeps.run_inv [OF st0(2)] store_new_inv [OF st0(1)] assms(1) by (simp add: lawful_inv_def)
qed
section \<open>What a run does to a grant\<close>

lemma leads_evolves: "leads st x \<Longrightarrow> x = Some (st', y) \<Longrightarrow> store_evolves H st st'"
  by (rule quiet_store_evolves) (rule leadsD)

lemma step_evolves:
  assumes inv: "store_inv st" and step: "store_step A H st (op, reading, r) st'"
  shows "store_evolves H st st'"
proof -
  note packets = admit_client_ingress_quiet admit_ping_quiet admit_fanout_quiet begin_challenge_quiet
  have r: "reading_ok reading" and p: "perform A H op reading st = Some (st', r)"
    using step by (simp_all add: store_step_iff)
  show ?thesis
  proof (cases op)
    case (Create_Room rid d)
    then show ?thesis using p by (auto simp: map_prod_def split: prod.splits intro: create_room_evolves [OF r])
  next
    case (Handshake q)
    then show ?thesis using p by (auto intro: authenticate_evolves [OF inv])
  qed (use p in \<open>auto intro: packets [THEN leads_evolves] quiet_store_evolves dest: end_room_quiet admit_preauth_quiet
      simp: quiet_store_evolves [OF expire_quiet] map_prod_def split: prod.splits\<close>)
qed

text \<open>Generations count the handshakes of a grant that is still live at the end of a run.\<close>

definition lineage :: "nat \<Rightarrow> 'l grant_record \<Rightarrow> 'l grant_record \<Rightarrow> bool" where
  "lineage n gr gr' \<longleftrightarrow> (grant_live gr' \<longrightarrow> same_authority gr gr' \<and> (\<exists>k \<le> n. g_generation gr' = g_generation gr + of_nat k \<and>
     (k = 0 \<longrightarrow> (\<forall>b'. g_binding gr' = Some b' \<longrightarrow> (\<exists>b. g_binding gr = Some b \<and> same_binding b b')))))"

lemma lineage_refl: "lineage n gr gr"
  by (auto simp: lineage_def same_authority_def)

lemma lineage_step:
  assumes "evolves H a b" and "lineage n b c"
  shows "lineage (Suc n) a c"
  unfolding lineage_def
proof (intro impI)
  assume live: "grant_live c"
  then obtain k where bc: "same_authority b c" "k \<le> n" "g_generation c = g_generation b + of_nat k"
    and keep: "k = 0 \<longrightarrow> (\<forall>b'. g_binding c = Some b' \<longrightarrow> (\<exists>bb. g_binding b = Some bb \<and> same_binding bb b'))"
    using assms(2) by (auto simp: lineage_def)
  have "grant_live b" using bc(1) by (simp add: same_authority_def)
  show "same_authority a c \<and> (\<exists>k \<le> Suc n. g_generation c = g_generation a + of_nat k \<and>
     (k = 0 \<longrightarrow> (\<forall>b'. g_binding c = Some b' \<longrightarrow> (\<exists>bb. g_binding a = Some bb \<and> same_binding bb b'))))"
  proof (cases "quiet a b")
    case True
    then have ab: "same_authority a b" "g_generation b = g_generation a"
      "\<forall>b'. g_binding b = Some b' \<longrightarrow> (\<exists>bb. g_binding a = Some bb \<and> same_binding bb b')"
      using \<open>grant_live b\<close> by (simp_all add: quiet_def)
    show ?thesis
    proof (intro conjI exI [of _ k] impI)
      show "\<forall>b'. g_binding c = Some b' \<longrightarrow> (\<exists>bb. g_binding a = Some bb \<and> same_binding bb b')" if "k = 0"
        using that keep ab(3) same_binding_trans by metis
    qed (use ab bc same_authority_trans in auto)
  next
    case False
    then have ab: "same_authority a b" "g_generation b = g_generation a + 1"
      using assms(1) by (simp_all add: evolves_def rebound_def)
    show ?thesis
      by (intro conjI exI [of _ "Suc k"]) (use ab bc same_authority_trans in auto)
  qed
qed

lemma run_lineage:
  assumes "run (store_step A H) st es st'" and "limiter_law A" and "store_inv st" and "g < s_next st"
  shows "lineage (length es) (s_heap st g) (s_heap st' g) \<and> g < s_next st'"
  using assms
proof (induction rule: run.induct)
  case (run_Cons st e st1 es st2)
  obtain op reading r where e: "e = (op, reading, r)" by (cases e)
  have inv1: "store_inv st1" using keeps.step_inv [OF run_Cons.hyps(1)] run_Cons.prems by (simp add: lawful_inv_def)
  have ev: "store_evolves H st st1" using step_evolves run_Cons.prems(2) run_Cons.hyps(1) e by blast
  then have "evolves H (s_heap st g) (s_heap st1 g)" "g < s_next st1"
    using run_Cons.prems(3) by (auto simp: store_evolves_def)
  then show ?case using run_Cons.IH [OF run_Cons.prems(1) inv1] lineage_step by fastforce
qed (simp add: lineage_refl)

lemma owned_next: "store_inv st \<Longrightarrow> g \<in> owned st \<Longrightarrow> g < s_next st"
  using owned_room [of st g] by (auto simp: store_inv_def core_inv_def room_grant_ok_def)

text \<open>A binding still in its generation is the old one, its window advanced.\<close>

lemma lineage_binding:
  assumes "lineage n gr gr'" and "grant_live gr'" and "n < 2 ^ 64" and "g_generation gr' = g_generation gr"
    and "g_binding gr' = Some b'"
  obtains b where "g_binding gr = Some b" "same_binding b b'"
proof -
  obtain k where k: "k \<le> n" "g_generation gr' = g_generation gr + of_nat k"
    and keep: "k = 0 \<longrightarrow> (\<exists>b. g_binding gr = Some b \<and> same_binding b b')"
    using assms(1,2,5) by (auto simp: lineage_def)
  have "(of_nat k :: u64) = 0" using k(2) assms(4) by simp
  moreover have "unat (of_nat k :: u64) = k"
    using k(1) assms(3) by (simp add: unat_of_nat take_bit_nat_eq_self)
  ultimately have "k = 0" by simp
  with keep that show ?thesis by blast
qed
section \<open>Accepted packets\<close>

text \<open>The binding identifier and sequence number of a packet that a step accepted.\<close>

fun accepted :: "store_event \<Rightarrow> (bytes16 \<times> u64) option" where
  "accepted (Ingress q n, reading, Admitted (Inr ad)) = Some (dq_binding_id q, dq_sequence q)"
| "accepted (Keepalive q n, reading, Pinged RejectNone) = Some (pq_binding_id q, pq_sequence q)"
| "accepted _ = None"

lemma charge_authenticated_keeps:
  "charge_authenticated A g R n now st = Some (st', ok) \<Longrightarrow>
     g_binding (s_heap st' x) = g_binding (s_heap st x) \<and> same_identity (s_heap st x) (s_heap st' x) \<and>
     s_self st' = s_self st"
  by (auto simp: charge_authenticated_def Let_def update_grant_def same_identity_def
      split: charge_outcome.splits list.splits)

lemma packet_admitted_after:
  assumes "packet_admitted A room_id session_id i sequence endpoint tag n now expected st st' g b R"
  shows "g_binding (s_heap st' g) = Some (b\<lparr>b_replay := fst (window_accept (b_replay b) sequence)\<rparr>)"
    and "same_identity (s_heap st g) (s_heap st' g)" and "s_self st' = s_self st"
proof -
  have "charge_authenticated A g R n now
      (update_grant g (\<lambda>gr. gr\<lparr>g_binding := Some (b\<lparr>b_replay := fst (window_accept (b_replay b) sequence)\<rparr>)\<rparr>) st) =
      Some (st', True)"
    using assms by (simp add: packet_admitted_def)
  note keep = charge_authenticated_keeps [OF this, of g]
  then show "g_binding (s_heap st' g) = Some (b\<lparr>b_replay := fst (window_accept (b_replay b) sequence)\<rparr>)"
    "same_identity (s_heap st g) (s_heap st' g)" "s_self st' = s_self st"
    by (simp_all add: update_grant_def same_identity_def)
qed

text \<open>No rejection of a packet carries \<open>RejectNone\<close>.\<close>

lemma reject_with_reason:
  "r \<noteq> RejectNone \<Longrightarrow> reject_with (reject_preauth A endpoint n now r st) r cleanup \<noteq> Some (st', Inl RejectNone)"
  by (auto simp: reject_with_def reject_preauth_def split: option.split)

lemma admit_authenticated_reason:
  "admit_authenticated A room_id session_id i sequence endpoint tag n now expected st \<noteq> Some (st', Inl RejectNone)"
  unfolding admit_authenticated_def Let_def split_def
  by (simp add: reject_with_reason split: option.split bool.split)

lemma ping_accepted:
  assumes "admit_ping A H q n reading st = Some (st', RejectNone)"
  shows "\<exists>g b R. packet_admitted A (pq_room_id q) (pq_session_id q) (pq_binding_id q) (pq_sequence q)
    (pq_endpoint q) (pq_auth_tag q) n (mono reading) (\<lambda>key. ping_tag H key Revision (pq_room_id q) (pq_session_id q)
       (pq_binding_id q) (pq_sequence q)) st st' g b R"
proof -
  obtain res where r: "admit_authenticated A (pq_room_id q) (pq_session_id q) (pq_binding_id q) (pq_sequence q)
    (pq_endpoint q) (pq_auth_tag q) n (mono reading) (\<lambda>key. ping_tag H key Revision (pq_room_id q) (pq_session_id q)
       (pq_binding_id q) (pq_sequence q)) st = Some (st', res)" and res: "res = Inl RejectNone \<or> (\<exists>x. res = Inr x)"
    using assms by (auto simp: admit_ping_def split: option.splits sum.splits)
  from res show ?thesis
  proof
    assume "res = Inl RejectNone"
    then show ?thesis using r admit_authenticated_reason by blast
  next
    assume "\<exists>x. res = Inr x"
    then obtain g b where "res = Inr (g, b)" by auto
    then show ?thesis using r admit_authenticated_success by blast
  qed
qed
lemma ingress_accepted:
  assumes "admit_client_ingress A H q n reading st = Some (st', Inr ad)"
  shows "\<exists>g b R. packet_admitted A (dq_room_id q) (dq_session_id q) (dq_binding_id q) (dq_sequence q)
      (dq_endpoint q) (dq_auth_tag q) n (mono reading) (\<lambda>key. client_data_tag H key Revision (dq_room_id q)
       (dq_session_id q) (dq_binding_id q) (dq_sequence q) (dq_payload q)) st st' g b R \<and>
    ad = \<lparr>ad_store = s_self st, ad_room_id = dq_room_id q, ad_session_id = dq_session_id q,
      ad_sender_participant_id = g_participant_id (s_heap st g), ad_binding_id = dq_binding_id q,
      ad_binding_generation = b_generation b, ad_sequence = dq_sequence q\<rparr>"
proof -
  let ?auth = "admit_authenticated A (dq_room_id q) (dq_session_id q) (dq_binding_id q) (dq_sequence q)
      (dq_endpoint q) (dq_auth_tag q) n (mono reading) (\<lambda>key. client_data_tag H key Revision (dq_room_id q)
       (dq_session_id q) (dq_binding_id q) (dq_sequence q) (dq_payload q)) st"
  obtain g b' where r: "?auth = Some (st', Inr (g, b'))"
    and ad: "ad = \<lparr>ad_store = s_self st', ad_room_id = g_room_id (s_heap st' g), ad_session_id = g_session_id (s_heap st' g),
           ad_sender_participant_id = g_participant_id (s_heap st' g), ad_binding_id = b_id b',
           ad_binding_generation = b_generation b', ad_sequence = dq_sequence q\<rparr>"
    using assms by (auto simp: admit_client_ingress_def split: option.splits sum.splits)
  obtain b R where p: "packet_admitted A (dq_room_id q) (dq_session_id q) (dq_binding_id q) (dq_sequence q)
      (dq_endpoint q) (dq_auth_tag q) n (mono reading) (\<lambda>key. client_data_tag H key Revision (dq_room_id q)
       (dq_session_id q) (dq_binding_id q) (dq_sequence q) (dq_payload q)) st st' g b R"
    and b': "b' = b\<lparr>b_replay := fst (window_accept (b_replay b) (dq_sequence q))\<rparr>"
    using admit_authenticated_success [OF r] by blast
  have "ad_room_id ad = dq_room_id q" "ad_session_id ad = dq_session_id q" "b_id b = dq_binding_id q"
    "g_participant_id (s_heap st' g) = g_participant_id (s_heap st g)" "s_self st' = s_self st"
    using p packet_admitted_after(2,3) [OF p] by (simp_all add: ad packet_admitted_def same_identity_def)
  then have "ad = \<lparr>ad_store = s_self st, ad_room_id = dq_room_id q, ad_session_id = dq_session_id q,
      ad_sender_participant_id = g_participant_id (s_heap st g), ad_binding_id = dq_binding_id q,
      ad_binding_generation = b_generation b, ad_sequence = dq_sequence q\<rparr>"
    by (simp add: ad b')
  with p show ?thesis by blast
qed

lemma packet_spends:
  assumes "packet_admitted A room_id session_id i sequence endpoint tag n now expected st st' g b R"
  shows "s_bindings_by_id st i = Some g" "g_binding (s_heap st g) = Some b" "b_id b = i" "\<not> spent (b_replay b) sequence"
    "\<exists>b'. g_binding (s_heap st' g) = Some b' \<and> same_binding b b' \<and> spent (b_replay b') sequence"
proof -
  show b: "s_bindings_by_id st i = Some g" "g_binding (s_heap st g) = Some b" "b_id b = i" "\<not> spent (b_replay b) sequence"
    using assms by (auto simp: packet_admitted_def spent_def)
  then have "spent (fst (window_accept (b_replay b) sequence)) sequence" by (intro accept_spends) (simp add: spent_def)
  then show "\<exists>b'. g_binding (s_heap st' g) = Some b' \<and> same_binding b b' \<and> spent (b_replay b') sequence"
    using packet_admitted_after(1) [OF assms] by (simp add: same_binding_def spent_mono)
qed

lemma accepted_step:
  assumes "store_step A H st e st'" and "accepted e = Some (i, s)"
  obtains g b b' where "s_bindings_by_id st i = Some g" "g_binding (s_heap st g) = Some b" "b_id b = i"
    "\<not> spent (b_replay b) s" "g_binding (s_heap st' g) = Some b'" "same_binding b b'" "spent (b_replay b') s"
proof -
  from assms(2) consider q n reading ad where "e = (Ingress q n, reading, Admitted (Inr ad))" "i = dq_binding_id q" "s = dq_sequence q"
    | q n reading where "e = (Keepalive q n, reading, Pinged RejectNone)" "i = pq_binding_id q" "s = pq_sequence q"
    by (cases e rule: accepted.cases) auto
  then show thesis
  proof cases
    case 1
    then have "admit_client_ingress A H q n reading st = Some (st', Inr ad)"
      using assms(1) by (auto simp: store_step_iff)
    from ingress_accepted [OF this] obtain g b R where
      "packet_admitted A (dq_room_id q) (dq_session_id q) i s (dq_endpoint q) (dq_auth_tag q) n (mono reading)
        (\<lambda>key. client_data_tag H key Revision (dq_room_id q) (dq_session_id q) i s (dq_payload q)) st st' g b R"
      by (auto simp: 1)
    note pk = packet_spends [OF this]
    from pk(5) obtain b' where "g_binding (s_heap st' g) = Some b'" "same_binding b b'" "spent (b_replay b') s" by blast
    then show thesis by (rule that [OF pk(1-4)])
  next
    case 2
    then have "admit_ping A H q n reading st = Some (st', RejectNone)"
      using assms(1) by (auto simp: store_step_iff)
    from ping_accepted [OF this] obtain g b R where
      "packet_admitted A (pq_room_id q) (pq_session_id q) i s (pq_endpoint q) (pq_auth_tag q) n (mono reading)
        (\<lambda>key. ping_tag H key Revision (pq_room_id q) (pq_session_id q) i s) st st' g b R"
      by (auto simp: 2)
    note pk = packet_spends [OF this]
    from pk(5) obtain b' where "g_binding (s_heap st' g) = Some b'" "same_binding b b'" "spent (b_replay b') s" by blast
    then show thesis by (rule that [OF pk(1-4)])
  qed
qed

lemma perform_step:
  assumes "limiter_law A" and "store_reachable A H st" and "reading_ok reading" and "op_fits op st"
  obtains st' r where "perform A H op reading st = Some (st', r)" "store_step A H st (op, reading, r) st'"
proof -
  obtain st' r where p: "perform A H op reading st = Some (st', r)"
    using perform_fine [OF assms(1) reachable_inv [OF assms(1,2)] assms(3,4), of H] by (auto simp: fine_def)
  moreover from p have "store_step A H st (op, reading, r) st'" using assms(3,4) by (simp add: store_step_iff)
  ultimately show thesis by (rule that)
qed

end
