(* ===== verification/Store_Properties.thy ===== *)
theory Store_Properties
  imports Store_Machine
begin

text \<open>
  What holds of every store a program can get to: the invariant with the bounds it implies, progress,
  the provenance of binding keys, authenticity and at-most-once admission of packets, isolation of
  fan-out, and the silence of an ended room.
\<close>

section \<open>A run for the witnesses\<close>

definition bytes :: "nat \<Rightarrow> nat \<Rightarrow> byte list" where
  "bytes i n = map of_nat [i ..< i + n]"

definition demo_endpoint :: addr_port where
  "demo_endpoint = \<lparr>ap_addr = Addr4 1, ap_port = 9\<rparr>"

definition demo_hello :: challenge_request where
  "demo_hello = \<lparr>cq_room_id = ''room'', cq_session_id = ''s1'', cq_grant_id = bytes 0 16, cq_client_nonce = bytes 7 16,
     cq_endpoint = demo_endpoint, cq_input_bytes = 1100\<rparr>"

definition demo_auth :: authenticate_request where
  "demo_auth = \<lparr>aq_room_id = ''room'', aq_session_id = ''s1'', aq_candidate_id = bytes 96 16, aq_endpoint = demo_endpoint,
     aq_auth_tag = auth_tag hmac_message (bytes 16 32) Revision ''room'' ''s1'' (bytes 0 16) (bytes 96 16) (bytes 7 16) (bytes 112 32),
     aq_input_bytes = 100\<rparr>"

definition demo_key :: bytes32 where
  "demo_key = binding_key hmac_message (bytes 16 32) Revision ''room'' ''s1'' (bytes 0 16) (bytes 96 16) (bytes 7 16) (bytes 112 32)"

definition demo_data :: "u64 \<Rightarrow> client_data_request" where
  "demo_data s = \<lparr>dq_room_id = ''room'', dq_session_id = ''s1'', dq_binding_id = bytes 144 16, dq_sequence = s, dq_payload = [1, 2],
     dq_endpoint = demo_endpoint,
     dq_auth_tag = client_data_tag hmac_message demo_key Revision ''room'' ''s1'' (bytes 144 16) s [1, 2]\<rparr>"

text \<open>The store and the response after one operation.\<close>

definition after :: "store_op \<Rightarrow> duration \<Rightarrow> (int \<times> int) store \<Rightarrow> (int \<times> int) store" where
  "after op t st = fst (the (perform bucket hmac_message op (demo_at t) st))"

definition reply :: "store_op \<Rightarrow> duration \<Rightarrow> (int \<times> int) store \<Rightarrow> store_response" where
  "reply op t st = snd (the (perform bucket hmac_message op (demo_at t) st))"

definition demo_challenged :: "(int \<times> int) store" where
  "demo_challenged = after (Challenge demo_hello) 1 demo_open"

definition demo_bound :: "(int \<times> int) store" where
  "demo_bound = after (Handshake demo_auth) 2 demo_challenged"

definition demo_sent :: "(int \<times> int) store" where
  "demo_sent = after (Ingress (demo_data 1) 80) 3 demo_bound"

lemma after_step:
  assumes "store_reachable bucket hmac_message st" and "op_fits op st" and "in_i64 t"
  shows "store_step bucket hmac_message st (op, demo_at t, reply op t st) (after op t st)"
    and "store_reachable bucket hmac_message (after op t st)"
proof -
  have "fine (perform bucket hmac_message op (demo_at t) st)"
    using perform_fine [OF bucket_law reachable_inv [OF bucket_law assms(1)]] assms(2,3) by simp
  then have "perform bucket hmac_message op (demo_at t) st = Some (after op t st, reply op t st)"
    by (auto simp: fine_def after_def reply_def)
  then show "store_step bucket hmac_message st (op, demo_at t, reply op t st) (after op t st)"
    using assms(2,3) by (simp add: store_step_iff)
  then show "store_reachable bucket hmac_message (after op t st)" by (rule store_reachable_step [OF assms(1)])
qed

lemma demo_reachable:
  "store_reachable bucket hmac_message demo_start" "store_reachable bucket hmac_message demo_open"
  "store_reachable bucket hmac_message demo_challenged" "store_reachable bucket hmac_message demo_bound"
  "store_reachable bucket hmac_message demo_sent"
proof -
  have "store_new bucket 0 default_limits (map of_nat [0..<200]) = Inr demo_start"
    by (simp add: demo_start_def store_new_def valid_default_limits)
  then show 0: "store_reachable bucket hmac_message demo_start"
    unfolding store_reachable_def by (metis run_Nil)
  have "demo_open = after (Create_Room ''room'' demo_definition) 0 demo_start"
    by (simp add: demo_open_def after_def map_prod_def split_beta)
  with after_step(2) [OF 0, of "Create_Room ''room'' demo_definition" 0]
  show 1: "store_reachable bucket hmac_message demo_open" by (simp add: in_i64_def)
  show 2: "store_reachable bucket hmac_message demo_challenged"
    unfolding demo_challenged_def using after_step(2) [OF 1, of "Challenge demo_hello" 1] by (simp add: in_i64_def)
  show 3: "store_reachable bucket hmac_message demo_bound"
    unfolding demo_bound_def using after_step(2) [OF 2, of "Handshake demo_auth" 2] by (simp add: in_i64_def)
  show "store_reachable bucket hmac_message demo_sent"
    unfolding demo_sent_def using after_step(2) [OF 3, of "Ingress (demo_data 1) 80" 3] by (simp add: in_i64_def)
qed

section \<open>The invariant and its bounds\<close>

text \<open>C9: the bounds of every reachable store: the two counters are exactly the number of open rooms and
  of live grants, they never pass the configured limits, the room table never passes its limit and
  the table of pre-authentication sources never holds more than 4096 entries.\<close>

theorem reachable_bounds:
  assumes "limiter_law A" and "store_reachable A H st"
  shows "s_open_rooms st = int (card (open_room_ids st)) \<and> s_open_rooms st \<le> MaxOpenRooms (s_limits st) \<and>
    s_active_sessions st = int (card {g \<in> owned st. grant_live (s_heap st g)}) \<and>
    s_active_sessions st \<le> MaxActiveSessions (s_limits st) \<and>
    len_map (s_rooms st) \<le> MaxRoomRecords (s_limits st) \<and> len_map (s_preauth_sources st) \<le> 4096"
  using reachable_inv [OF assms]
  by (simp add: store_inv_def core_inv_def live_grants_def HardMaxPreauthSources_def)

theorem reachable_bounds_witness: "s_open_rooms demo_open \<le> MaxOpenRooms (s_limits demo_open)"
  using reachable_bounds [OF bucket_law demo_reachable(2)] by simp

text \<open>C8: authority in every reachable store: the binding index leads exactly to the grants of resident
  rooms that hold that binding, an indexed grant is live, live grants have their secret, and a dead
  grant has lost its secret, its binding, its challenge and its completed handshake.\<close>

theorem reachable_authority:
  assumes "limiter_law A" and "store_reachable A H st"
  shows "(\<forall>i g. s_bindings_by_id st i = Some g \<longleftrightarrow>
      g \<in> owned st \<and> (\<exists>b. g_binding (s_heap st g) = Some b \<and> b_id b = i)) \<and>
    (\<forall>i g. s_grants_by_id st i = Some g \<longrightarrow> g \<in> owned st \<and> grant_live (s_heap st g) \<and> g_id (s_heap st g) = i) \<and>
    (\<forall>g \<in> owned st. if grant_live (s_heap st g) then g_secret (s_heap st g) \<noteq> None
      else g_secret (s_heap st g) = None \<and> g_binding (s_heap st g) = None \<and>
        g_pending (s_heap st g) = None \<and> g_recent (s_heap st g) = None)"
proof -
  have inv: "store_inv st" by (rule reachable_inv [OF assms])
  note idx = index_invD [OF core_index [OF store_inv_core [OF inv]]]
  have "grant_ok (s_heap st g)" if "g \<in> owned st" for g using owned_grant_ok [OF store_inv_core [OF inv] that] .
  then have "\<forall>g \<in> owned st. if grant_live (s_heap st g) then g_secret (s_heap st g) \<noteq> None
      else g_secret (s_heap st g) = None \<and> g_binding (s_heap st g) = None \<and>
        g_pending (s_heap st g) = None \<and> g_recent (s_heap st g) = None"
    by (simp add: grant_ok_def)
  moreover have "s_bindings_by_id st i = Some g \<longleftrightarrow>
      g \<in> owned st \<and> (\<exists>b. g_binding (s_heap st g) = Some b \<and> b_id b = i)" for i g
    using idx(2) by (auto simp: binds_of_def)
  ultimately show ?thesis using idx(3) by blast
qed

theorem reachable_authority_witness:
  "s_grants_by_id demo_open (bytes 0 16) = Some 0 \<and> g_id (s_heap demo_open 0) = bytes 0 16"
proof -
  have "s_grants_by_id demo_open (bytes 0 16) = Some 0" by code_simp
  then show ?thesis using reachable_authority [OF bucket_law demo_reachable(2)] by blast
qed

text \<open>No operation of the store panics or gets stuck. With a limiter that behaves as documented,
  from every reachable store every operation, with any arguments, at any clock reading, and with a
  sweep in any iteration order, returns and leads to a reachable store.\<close>

lemma store_never_stuck:
  assumes "limiter_law A" and "store_reachable A H st" and "reading_ok reading" and "op_fits op st"
  shows "\<exists>st' r. perform A H op reading st = Some (st', r) \<and> store_step A H st (op, reading, r) st' \<and>
    store_reachable A H st'"
  using perform_step [OF assms] store_reachable_step [OF assms(2)] by metis

lemma store_never_stuck_witness:
  "\<exists>st' r. perform bucket hmac_message (Keepalive \<lparr>pq_room_id = ''x'', pq_session_id = '''', pq_binding_id = [],
     pq_sequence = 0, pq_endpoint = no_endpoint, pq_auth_tag = []\<rparr> 5) (demo_at 9) demo_open = Some (st', r)"
  using store_never_stuck [OF bucket_law demo_reachable(2), of "demo_at 9" "Keepalive \<lparr>pq_room_id = ''x'',
     pq_session_id = '''', pq_binding_id = [], pq_sequence = 0, pq_endpoint = no_endpoint, pq_auth_tag = []\<rparr> 5"]
  by (auto simp: in_i64_def)
section \<open>Provenance of binding keys\<close>

definition keys_derived :: "hmac_fun \<Rightarrow> 'l store \<Rightarrow> bool" where
  "keys_derived H st \<longleftrightarrow> (\<forall>g < s_next st. grant_live (s_heap st g) \<longrightarrow>
     (\<forall>b. g_binding (s_heap st g) = Some b \<longrightarrow> derived H (s_heap st g) b))"

lemma derived_quiet:
  assumes "quiet gr gr'" and "grant_live gr'" and "g_binding gr' = Some b'"
    and "\<forall>b. g_binding gr = Some b \<longrightarrow> derived H gr b"
  shows "derived H gr' b'"
  using assms by (auto simp: quiet_def derived_def same_authority_def same_binding_def)

lemma keys_derived_step:
  assumes ev: "store_evolves H st st'" and keys: "keys_derived H st"
  shows "keys_derived H st'"
  unfolding keys_derived_def
proof (intro allI impI)
  fix g b assume g: "g < s_next st'" "grant_live (s_heap st' g)" "g_binding (s_heap st' g) = Some b"
  show "derived H (s_heap st' g) b"
  proof (cases "g < s_next st")
    case True
    then consider "quiet (s_heap st g) (s_heap st' g)" | "rebound H (s_heap st g) (s_heap st' g)"
      using ev by (auto simp: store_evolves_def evolves_def)
    then show ?thesis
    proof cases
      case 1
      then have "grant_live (s_heap st g)" using g(2) by (simp add: quiet_def same_authority_def)
      then show ?thesis using derived_quiet [OF 1 g(2,3)] keys True by (simp add: keys_derived_def)
    next
      case 2
      then show ?thesis using g(3) by (auto simp: rebound_def)
    qed
  next
    case False
    then show ?thesis using ev g by (simp add: store_evolves_def)
  qed
qed

interpretation keys: preserved "store_step A H" "\<lambda>st. lawful_inv A st \<and> (limiter_law A \<longrightarrow> keys_derived H st)"
  for A :: "'l limiter_api" and H
proof
  fix s s' :: "'l store" and e
  assume step: "store_step A H s e s'" and inv: "lawful_inv A s \<and> (limiter_law A \<longrightarrow> keys_derived H s)"
  have "store_evolves H s s'" if "limiter_law A"
    using step_evolves step inv that by (cases e) (auto simp: lawful_inv_def)
  then show "lawful_inv A s' \<and> (limiter_law A \<longrightarrow> keys_derived H s')"
    using keeps.step_inv [OF step] inv keys_derived_step by blast
qed

lemma reachable_keys:
  assumes "limiter_law A" and "store_reachable A H st"
  shows "keys_derived H st"
proof -
  obtain self lims random st0 es where st0: "store_new A self lims random = Inr st0" "run (store_step A H) st0 es st"
    using assms(2) by (auto simp: store_reachable_def)
  have "s_next st0 = 0" using st0(1) by (auto simp: store_new_def split: if_splits)
  then have "keys_derived H st0" by (simp add: keys_derived_def)
  then show ?thesis
    using keys.run_inv [OF st0(2)] store_new_inv [OF st0(1)] assms(1) by (simp add: lawful_inv_def)
qed

lemma bound_key:
  assumes "limiter_law A" and "store_reachable A H st" and "s_bindings_by_id st i = Some g"
    and "g_binding (s_heap st g) = Some b"
  shows "derived H (s_heap st g) b"
proof -
  have inv: "store_inv st" by (rule reachable_inv [OF assms(1,2)])
  have "g < s_next st" "grant_live (s_heap st g)"
    using bound_grant [OF inv assms(3)] owned_next [OF inv] by (auto simp: grant_live_def elim!: meta_mp)+
  then show ?thesis using reachable_keys [OF assms(1,2)] assms(4) by (simp add: keys_derived_def)
qed

text \<open>C2: an admitted packet is authentic. In every reachable store, client data is admitted only when its
  binding is indexed for a grant of an open room, nothing of it has expired, the packet names that
  room and session and comes from the endpoint that was bound, and its tag is the HMAC of exactly
  this packet under a key derived from the secret of the grant; what is admitted carries the names
  of that grant and the sequence number of the packet.\<close>

theorem ingress_authentic:
  assumes "limiter_law A" and "store_reachable A H st"
    and "admit_client_ingress A H q n reading st = Some (st', Inr ad)"
  shows "\<exists>g b R secret candidate client_nonce server_nonce.
    s_bindings_by_id st (dq_binding_id q) = Some g \<and> g_binding (s_heap st g) = Some b \<and> g_secret (s_heap st g) = Some secret \<and>
    b_key b = binding_key H secret Revision (dq_room_id q) (dq_session_id q) (g_id (s_heap st g))
      candidate client_nonce server_nonce \<and>
    dq_auth_tag q = client_data_tag H (b_key b) Revision (dq_room_id q) (dq_session_id q) (dq_binding_id q)
      (dq_sequence q) (dq_payload q) \<and>
    endpoint_is_valid (dq_endpoint q) \<and> b_endpoint b = dq_endpoint q \<and> dq_sequence q \<noteq> 0 \<and>
    fmlookup (s_rooms st) (dq_room_id q) = Some R \<and> r_state R = roomStateOpen \<and>
    mono reading < min (r_mono_deadline R) (min (g_mono_deadline (s_heap st g)) (b_deadline b)) \<and>
    ad = \<lparr>ad_store = s_self st, ad_room_id = g_room_id (s_heap st g), ad_session_id = g_session_id (s_heap st g),
      ad_sender_participant_id = g_participant_id (s_heap st g), ad_binding_id = b_id b,
      ad_binding_generation = b_generation b, ad_sequence = dq_sequence q\<rparr>"
proof -
  obtain g b R where p: "packet_admitted A (dq_room_id q) (dq_session_id q) (dq_binding_id q) (dq_sequence q)
      (dq_endpoint q) (dq_auth_tag q) n (mono reading) (\<lambda>key. client_data_tag H key Revision (dq_room_id q)
       (dq_session_id q) (dq_binding_id q) (dq_sequence q) (dq_payload q)) st st' g b R"
    and ad: "ad = \<lparr>ad_store = s_self st, ad_room_id = dq_room_id q, ad_session_id = dq_session_id q,
      ad_sender_participant_id = g_participant_id (s_heap st g), ad_binding_id = dq_binding_id q,
      ad_binding_generation = b_generation b, ad_sequence = dq_sequence q\<rparr>"
    using ingress_accepted [OF assms(3)] by blast
  have ids: "g_room_id (s_heap st g) = dq_room_id q" "g_session_id (s_heap st g) = dq_session_id q" "b_id b = dq_binding_id q"
    using p by (simp_all add: packet_admitted_def)
  have look: "s_bindings_by_id st (dq_binding_id q) = Some g" "g_binding (s_heap st g) = Some b"
    using p by (simp_all add: packet_admitted_def)
  obtain secret candidate client_nonce server_nonce where "g_secret (s_heap st g) = Some secret"
    "b_key b = binding_key H secret Revision (dq_room_id q) (dq_session_id q) (g_id (s_heap st g)) candidate client_nonce server_nonce"
    using bound_key [OF assms(1,2) look] by (auto simp: derived_def ids)
  then show ?thesis
    using p look ids by (intro exI [of _ g] exI [of _ b] exI [of _ R] exI [of _ secret] exI [of _ candidate]
        exI [of _ client_nonce] exI [of _ server_nonce]) (simp add: packet_admitted_def ad)
qed

lemma demo_first: "reply (Ingress (demo_data 1) 80) 3 demo_bound = Admitted (Inr
   \<lparr>ad_store = 0, ad_room_id = ''room'', ad_session_id = ''s1'', ad_sender_participant_id = ''a'', ad_binding_id = bytes 144 16,
    ad_binding_generation = 1, ad_sequence = 1\<rparr>)"
  by code_simp

theorem ingress_authentic_witness:
  "\<exists>g b. s_bindings_by_id demo_bound (bytes 144 16) = Some g \<and> g_binding (s_heap demo_bound g) = Some b \<and>
    b_endpoint b = demo_endpoint"
proof -
  have step: "perform bucket hmac_message (Ingress (demo_data 1) 80) (demo_at 3) demo_bound =
      Some (demo_sent, reply (Ingress (demo_data 1) 80) 3 demo_bound)"
    using after_step(1) [OF demo_reachable(4), of "Ingress (demo_data 1) 80" 3]
    by (simp add: demo_sent_def store_step_iff in_i64_def)
  then obtain ad where "admit_client_ingress bucket hmac_message (demo_data 1) 80 (demo_at 3) demo_bound = Some (demo_sent, Inr ad)"
    by (auto simp: demo_first)
  then show ?thesis
    using ingress_authentic [OF bucket_law demo_reachable(4)] by (fastforce simp: demo_data_def)
qed
section \<open>At most once\<close>

lemma bound_live:
  assumes "store_inv st" and "s_bindings_by_id st i = Some g"
  shows "grant_live (s_heap st g)" and "g < s_next st"
  using bound_grant [OF assms] owned_next [OF assms(1)] by (metis grant_live_def)+

lemma accepted_quiet:
  assumes "store_step A H st e st'" and "accepted e = Some x"
  shows "quiet_store st st'"
  using assms by (cases e rule: accepted.cases)
    (auto simp: store_step_iff intro: leadsD [OF admit_client_ingress_quiet] leadsD [OF admit_ping_quiet])

text \<open>C1: each sequence number is accepted at most once per binding, over any run and whatever happens in
  between (other packets, data and pings alike, handshakes, sweeps, rooms created and ended): when a
  step has accepted a sequence number for a grant and, any number of steps below 2^64 later, a packet
  is accepted for the same grant in the same generation, then it has the same binding identifier and
  another sequence number.\<close>

theorem sequence_accepted_once:
  assumes "limiter_law A" and "store_reachable A H st"
    and "store_step A H st e st1" and "accepted e = Some (i, s)" and "s_bindings_by_id st i = Some g"
    and "run (store_step A H) st1 es st2" and "length es < 2 ^ 64"
    and "store_step A H st2 e' st3" and "accepted e' = Some (i', s')" and "s_bindings_by_id st2 i' = Some g"
    and "g_generation (s_heap st2 g) = g_generation (s_heap st g)"
  shows "i' = i \<and> s' \<noteq> s"
proof -
  have inv: "store_inv st" by (rule reachable_inv [OF assms(1,2)])
  have reach1: "store_reachable A H st1" by (rule store_reachable_step [OF assms(2,3)])
  then have inv1: "store_inv st1" by (rule reachable_inv [OF assms(1)])
  have inv2: "store_inv st2" using reachable_inv [OF assms(1) store_reachable_run [OF reach1 assms(6)]] .
  obtain b b1 where b: "g_binding (s_heap st g) = Some b" "b_id b = i"
    and b1: "g_binding (s_heap st1 g) = Some b1" "same_binding b b1" "spent (b_replay b1) s"
    using accepted_step [OF assms(3,4)] assms(5) by (metis option.inject)
  obtain b2 where b2: "g_binding (s_heap st2 g) = Some b2" "b_id b2 = i'" "\<not> spent (b_replay b2) s'"
    using accepted_step [OF assms(8,9)] assms(10) by (metis option.inject)
  have quiet: "quiet_store st st1" by (rule accepted_quiet [OF assms(3,4)])
  then have "g < s_next st1" using bound_live(2) [OF inv assms(5)] by (simp add: quiet_store_def)
  then have lin: "lineage (length es) (s_heap st1 g) (s_heap st2 g)"
    using run_lineage [OF assms(6,1) inv1] by simp
  have live2: "grant_live (s_heap st2 g)" by (rule bound_live(1) [OF inv2 assms(10)])
  then have "grant_live (s_heap st1 g)" using lin by (auto simp: lineage_def same_authority_def)
  then have "g_generation (s_heap st1 g) = g_generation (s_heap st g)"
    using quiet quiet_authority by (auto simp: quiet_store_def)
  then obtain b1' where "g_binding (s_heap st1 g) = Some b1'" "same_binding b1' b2"
    using lineage_binding [OF lin live2 assms(7) _ b2(1)] assms(11) by metis
  then have "same_binding b b2" "spent (b_replay b2) s"
    using b1 same_binding_trans by (auto simp: same_binding_def)
  then show ?thesis using b(2) b2(2,3) by (auto simp: same_binding_def)
qed

theorem sequence_accepted_once_witness:
  "accepted (Ingress (demo_data 2) 80, demo_at 4, reply (Ingress (demo_data 2) 80) 4 demo_sent) = Some (bytes 144 16, 2) \<and>
    bytes 144 16 = bytes 144 16 \<and> (2 :: u64) \<noteq> 1"
proof -
  have "let st = demo_bound; st2 = after (Ingress (demo_data 1) 80) 3 st; r = reply (Ingress (demo_data 2) 80) 4 st2
    in s_bindings_by_id st (bytes 144 16) = Some 0 \<and> s_bindings_by_id st2 (bytes 144 16) = Some 0 \<and>
      g_generation (s_heap st2 0) = g_generation (s_heap st 0) \<and>
      accepted (Ingress (demo_data 2) 80, demo_at 4, r) = Some (bytes 144 16, 2)"
    by code_simp
  note facts = this [unfolded Let_def, folded demo_sent_def]
  have first: "accepted (Ingress (demo_data 1) 80, demo_at 3, reply (Ingress (demo_data 1) 80) 3 demo_bound) = Some (bytes 144 16, 1)"
    unfolding demo_first accepted.simps by (simp add: demo_data_def)
  have step1: "store_step bucket hmac_message demo_bound (Ingress (demo_data 1) 80, demo_at 3, reply (Ingress (demo_data 1) 80) 3 demo_bound) demo_sent"
    unfolding demo_sent_def by (rule after_step(1) [OF demo_reachable(4)]) (simp_all add: in_i64_def)
  have step2: "store_step bucket hmac_message demo_sent (Ingress (demo_data 2) 80, demo_at 4, reply (Ingress (demo_data 2) 80) 4 demo_sent)
      (after (Ingress (demo_data 2) 80) 4 demo_sent)"
    by (rule after_step(1) [OF demo_reachable(5)]) (simp_all add: in_i64_def)
  from facts have "s_bindings_by_id demo_bound (bytes 144 16) = Some 0" "s_bindings_by_id demo_sent (bytes 144 16) = Some 0"
    "g_generation (s_heap demo_sent 0) = g_generation (s_heap demo_bound 0)"
    and second: "accepted (Ingress (demo_data 2) 80, demo_at 4, reply (Ingress (demo_data 2) 80) 4 demo_sent) = Some (bytes 144 16, 2)"
    by blast+
  from sequence_accepted_once [OF bucket_law demo_reachable(4) step1 first this(1) run_Nil _ step2 second this(2,3)] second
  show ?thesis by simp
qed

section \<open>An ended room\<close>

lemma indexed_live:
  assumes "store_inv st" and "s_grants_by_id st i = Some g \<or> s_candidates_by_id st i = Some g \<or> s_bindings_by_id st i = Some g"
  shows "grant_live (s_heap st g)"
proof -
  note idx = index_invD [OF core_index [OF store_inv_core [OF assms(1)]]]
  have "grant_ok (s_heap st g)" if "g \<in> owned st" using owned_grant_ok [OF store_inv_core [OF assms(1)] that] .
  then show ?thesis
    using assms(2) idx(1) idx(2) idx(3) by (auto simp: grant_ok_def cands_of_def binds_of_def split: if_splits)
qed

text \<open>The grants of a room that has been ended stay dead, and no index leads to them again.\<close>

lemma ended_room_dead:
  assumes "limiter_law A" and "store_reachable A H st" and "reading_ok reading"
    and "fmlookup (s_rooms st) rid = Some R" and "r_state R \<noteq> roomStateTombstone" and "g \<in> set (r_grants R)"
    and "valid_id rid" and "end_room rid reading st = (st1, r)" and "run (store_step A H) st1 es st2"
  shows "\<not> grant_live (s_heap st2 g) \<and> (\<forall>i. s_grants_by_id st2 i \<noteq> Some g \<and> s_candidates_by_id st2 i \<noteq> Some g \<and>
    s_bindings_by_id st2 i \<noteq> Some g)"
proof -
  have inv: "store_inv st" by (rule reachable_inv [OF assms(1,2)])
  have step: "store_step A H st (End_Room rid, reading, Ended r) st1" using assms(3,8) by (simp add: store_step_iff)
  have reach1: "store_reachable A H st1" by (rule store_reachable_step [OF assms(2) step])
  have inv1: "store_inv st1" by (rule reachable_inv [OF assms(1) reach1])
  have inv2: "store_inv st2" using reachable_inv [OF assms(1) store_reachable_run [OF reach1 assms(9)]] .
  have st1: "st1 = tombstone_room rid (mono reading) GrantStateRevoked st"
    using assms(4,5,7,8) by (simp add: end_room_def)
  have dead1: "\<not> grant_live (s_heap st1 g)"
    unfolding st1 by (rule tombstone_room_spec(4) [OF inv assms(4,5) terminal_state_simps(2) assms(6)])
  have "g < s_next st" by (rule owned_next [OF inv ownedI [OF assms(4,6)]])
  then have "g < s_next st1" using end_room_quiet [OF assms(8)] by (simp add: quiet_store_def)
  then have "lineage (length es) (s_heap st1 g) (s_heap st2 g)" using run_lineage [OF assms(9,1) inv1] by simp
  then have dead: "\<not> grant_live (s_heap st2 g)" using dead1 by (auto simp: lineage_def same_authority_def)
  then show ?thesis using indexed_live [OF inv2] by blast
qed

text \<open>C5: an ended room is silent for good. After \<open>EndRoom\<close> of a room that was not yet ended, along any
  run, no index leads to a grant of that room any more: no packet, no handshake and
  no challenge can use it, even when the room identifier is later used again.\<close>

theorem ended_room_silent:
  assumes "limiter_law A" and "store_reachable A H st" and "reading_ok reading"
    and "fmlookup (s_rooms st) rid = Some R" and "r_state R \<noteq> roomStateTombstone" and "g \<in> set (r_grants R)"
    and "valid_id rid" and "end_room rid reading st = (st1, r)" and "run (store_step A H) st1 es st2"
  shows "\<not> grant_live (s_heap st2 g) \<and> (\<forall>i. s_grants_by_id st2 i \<noteq> Some g \<and> s_candidates_by_id st2 i \<noteq> Some g \<and>
    s_bindings_by_id st2 i \<noteq> Some g)"
  using assms by (rule ended_room_dead)

theorem ended_room_silent_witness:
  "\<forall>i. s_bindings_by_id (after (End_Room ''room'') 5 demo_bound) i \<noteq> Some 0"
proof -
  have "fmlookup (s_rooms demo_bound) ''room'' = Some (the (fmlookup (s_rooms demo_bound) ''room'')) \<and>
    r_state (the (fmlookup (s_rooms demo_bound) ''room'')) \<noteq> roomStateTombstone \<and>
    0 \<in> set (r_grants (the (fmlookup (s_rooms demo_bound) ''room''))) \<and> valid_id ''room''"
    by code_simp
  then have R: "fmlookup (s_rooms demo_bound) ''room'' = Some (the (fmlookup (s_rooms demo_bound) ''room''))"
    "r_state (the (fmlookup (s_rooms demo_bound) ''room'')) \<noteq> roomStateTombstone"
    "0 \<in> set (r_grants (the (fmlookup (s_rooms demo_bound) ''room'')))" "valid_id ''room''" by blast+
  obtain r where "end_room ''room'' (demo_at 5) demo_bound = (after (End_Room ''room'') 5 demo_bound, r)"
    by (simp add: after_def map_prod_def split_beta) (metis prod.collapse)
  from ended_room_silent [OF bucket_law demo_reachable(4) demo_reading_ok R(1-4) this run_Nil]
  show ?thesis by (simp add: in_i64_def)
qed
section \<open>Fan-out\<close>

lemma recipients_of_set:
  "e \<in> set (recipients_of sender now gs heap) \<longleftrightarrow>
    (\<exists>g \<in> set gs. g \<noteq> sender \<and> (\<exists>b. reachable_binding now (heap g) = Some b \<and> b_endpoint b = e))"
  by (induction gs) (auto split: option.split)

lemma recipients_of_length:
  assumes "sender \<in> set gs"
  shows "length (recipients_of sender now gs heap) < length gs"
proof -
  have "length (List.map_filter f xs) \<le> length xs" for f :: "gref \<Rightarrow> binding_record option" and xs
    by (induction xs) (auto simp: List.map_filter_simps split: option.split)
  then have "length (recipients_of sender now gs heap) \<le> length (filter (\<lambda>g. g \<noteq> sender) gs)"
    by (simp add: recipients_of_def)
  also have "\<dots> < length gs" by (rule length_filter_less [OF assms]) simp
  finally show ?thesis .
qed

text \<open>C4: fan-out is isolated and complete. A plan is made only for a sender whose binding is the one that
  was admitted, in an open room with nothing expired; its recipients are exactly the endpoints bound by the
  other grants of that very room that are live and have an unexpired binding. The sender gets nothing back,
  no other room is reached, there are fewer recipients than the room has participants, and the plan carries
  the sender's names and the packet's sequence number.\<close>

theorem fanout_isolated:
  assumes "limiter_law A" and "store_reachable A H st"
    and "admit_fanout A ad n reading st = Some (st', Inr plan)"
  shows "\<exists>g b R. ad_store ad = s_self st \<and> s_bindings_by_id st (ad_binding_id ad) = Some g \<and>
    g_binding (s_heap st g) = Some b \<and> b_generation b = ad_binding_generation ad \<and>
    fmlookup (s_rooms st) (ad_room_id ad) = Some R \<and> r_state R = roomStateOpen \<and> g \<in> set (r_grants R) \<and>
    mono reading < min (r_mono_deadline R) (min (g_mono_deadline (s_heap st g)) (b_deadline b)) \<and>
    (\<forall>e. e \<in> set (rp_recipients plan) \<longleftrightarrow> (\<exists>g' b'. g' \<in> set (r_grants R) \<and> g' \<noteq> g \<and> grant_live (s_heap st g') \<and>
       g_room_id (s_heap st g') = ad_room_id ad \<and> g_binding (s_heap st g') = Some b' \<and> b_endpoint b' = e \<and>
       mono reading < min (g_mono_deadline (s_heap st g')) (b_deadline b'))) \<and>
    length (rp_recipients plan) < unat (r_capacity R) \<and> n \<le> int MaxDatagramBytes \<and>
    rp_room_id plan = ad_room_id ad \<and> rp_session_id plan = ad_session_id ad \<and>
    rp_sender_participant_id plan = ad_sender_participant_id ad \<and> rp_sequence plan = ad_sequence ad"
proof -
  have inv: "store_inv st" by (rule reachable_inv [OF assms(1,2)])
  obtain g b R where s: "fanout_sender ad (mono reading) st g b R" and n: "n \<le> int MaxDatagramBytes"
    and plan: "plan = fanout_plan ad (recipients_of g (mono reading) (r_grants R) (s_heap st))"
    using admit_fanout_cases [OF assms(1) inv, of ad n reading] assms(3) by auto
  have R: "fmlookup (s_rooms st) (ad_room_id ad) = Some R" "r_state R = roomStateOpen" "g \<in> set (r_grants R)"
    using s by (simp_all add: fanout_sender_def)
  have rooms: "room_ok R" "\<And>g'. g' \<in> set (r_grants R) \<Longrightarrow> g_room_id (s_heap st g') = ad_room_id ad"
    using core_inv_rooms [OF store_inv_core [OF inv]] R(1) by (auto simp: rooms_inv_def room_grant_ok_def)
  then have "length (r_grants R) = unat (r_capacity R)" using R(2) by (simp add: room_ok_def)
  then have "length (rp_recipients plan) < unat (r_capacity R)"
    using recipients_of_length [OF R(3), of "mono reading" "s_heap st"] by (simp add: plan fanout_plan_def)
  moreover have "e \<in> set (rp_recipients plan) \<longleftrightarrow> (\<exists>g' b'. g' \<in> set (r_grants R) \<and> g' \<noteq> g \<and> grant_live (s_heap st g') \<and>
       g_room_id (s_heap st g') = ad_room_id ad \<and> g_binding (s_heap st g') = Some b' \<and> b_endpoint b' = e \<and>
       mono reading < min (g_mono_deadline (s_heap st g')) (b_deadline b'))" for e
    using rooms(2) by (auto simp: plan fanout_plan_def recipients_of_set reachable_binding_def unexpired_Some_iff split: if_splits)
  ultimately show ?thesis
    using s n by (intro exI [of _ g] exI [of _ b] exI [of _ R]) (simp add: fanout_sender_def plan fanout_plan_def)
qed

definition demo_admitted :: admitted_client_data where
  "demo_admitted = \<lparr>ad_store = 0, ad_room_id = ''room'', ad_session_id = ''s1'', ad_sender_participant_id = ''a'',
     ad_binding_id = bytes 144 16, ad_binding_generation = 1, ad_sequence = 1\<rparr>"

theorem fanout_isolated_witness:
  "\<exists>st' plan R. admit_fanout bucket demo_admitted 90 (demo_at 4) demo_bound = Some (st', Inr plan) \<and>
    fmlookup (s_rooms demo_bound) ''room'' = Some R \<and> length (rp_recipients plan) < unat (r_capacity R)"
proof -
  have "(case map_option snd (admit_fanout bucket demo_admitted 90 (demo_at 4) demo_bound) of Some (Inr plan) \<Rightarrow> True | _ \<Rightarrow> False)"
    by code_simp
  then obtain st' plan where "admit_fanout bucket demo_admitted 90 (demo_at 4) demo_bound = Some (st', Inr plan)"
    by (auto split: option.splits sum.splits)
  with fanout_isolated [OF bucket_law demo_reachable(4) this] show ?thesis by (auto simp: demo_admitted_def)
qed

section \<open>Handshakes\<close>

text \<open>C3: a handshake is authentic. \<open>Authenticate\<close> answers with a binding only when the candidate belongs to a
  live, unexpired grant of the open room and the session that the request names, and the tag of the request is
  the HMAC of the handshake under the secret of that grant. The binding it reports is then the grant's: bound to
  the endpoint of the request and indexed for the grant. It is either an old one (nothing but the charge of the
  budget has changed) or a new one, with a fresh replay window, the next generation, and the key derived from
  the same secret and nonces.\<close>

theorem handshake_authentic:
  assumes "limiter_law A" and "store_reachable A H st"
    and "authenticate A H request reading st = Some (st', Inr br)"
  shows "\<exists>g R secret client_nonce server_nonce b. s_candidates_by_id st (aq_candidate_id request) = Some g \<and>
    grant_live (s_heap st g) \<and> g_room_id (s_heap st g) = aq_room_id request \<and>
    g_session_id (s_heap st g) = aq_session_id request \<and> fmlookup (s_rooms st) (aq_room_id request) = Some R \<and>
    r_state R = roomStateOpen \<and> mono reading < min (r_mono_deadline R) (g_mono_deadline (s_heap st g)) \<and>
    g_secret (s_heap st g) = Some secret \<and>
    aq_auth_tag request = auth_tag H secret Revision (aq_room_id request) (aq_session_id request)
      (g_id (s_heap st g)) (aq_candidate_id request) client_nonce server_nonce \<and>
    s_bindings_by_id st' (br_binding_id br) = Some g \<and> g_binding (s_heap st' g) = Some b \<and> b_id b = br_binding_id br \<and>
    b_endpoint b = aq_endpoint request \<and> endpoint_is_valid (aq_endpoint request) \<and>
    (same_core st st' \<or> b_replay b = fresh_window \<and> b_generation b = g_generation (s_heap st g) + 1 \<and>
       b_key b = binding_key H secret Revision (aq_room_id request) (aq_session_id request)
         (g_id (s_heap st g)) (aq_candidate_id request) client_nonce server_nonce)"
proof -
  have inv: "store_inv st" by (rule reachable_inv [OF assms(1,2)])
  obtain st1 g R where core: "same_core st st1" and pre: "endpoint_is_valid (aq_endpoint request)"
      "s_candidates_by_id st (aq_candidate_id request) = Some g"
      "grant_live (s_heap st g)" "mono reading < g_mono_deadline (s_heap st g)"
      "g_room_id (s_heap st g) = aq_room_id request" "g_session_id (s_heap st g) = aq_session_id request"
      "fmlookup (s_rooms st) (aq_room_id request) = Some R" "r_state R = roomStateOpen" "mono reading < r_mono_deadline R"
    and au: "authenticated H request st1 g st' br"
    using authenticate_cases [OF assms(1) inv, of H request reading] assms(3) by auto
  obtain secret client_nonce server_nonce b where
    "g_secret (s_heap st g) = Some secret"
    "aq_auth_tag request = auth_tag H secret Revision (aq_room_id request) (aq_session_id request)
      (g_id (s_heap st g)) (aq_candidate_id request) client_nonce server_nonce"
    "g_binding (s_heap st' g) = Some b" "b_id b = br_binding_id br" "b_endpoint b = aq_endpoint request"
    "s_bindings_by_id st' (br_binding_id br) = Some g"
    "st' = st1 \<or> b_key b = binding_key H secret Revision (aq_room_id request) (aq_session_id request)
       (g_id (s_heap st g)) (aq_candidate_id request) client_nonce server_nonce \<and> b_replay b = fresh_window \<and>
       b_generation b = g_generation (s_heap st g) + 1"
    using au pre(5,6) unfolding authenticated_def same_core_facts(1) [OF core] by auto
  then show ?thesis using pre core
    by (intro exI [of _ g] exI [of _ R] exI [of _ secret] exI [of _ client_nonce] exI [of _ server_nonce] exI [of _ b]) auto
qed

theorem handshake_authentic_witness:
  "\<exists>st' br. authenticate bucket hmac_message demo_auth (demo_at 2) demo_challenged = Some (st', Inr br) \<and>
    s_bindings_by_id st' (br_binding_id br) \<noteq> None"
proof -
  have "(case map_option snd (authenticate bucket hmac_message demo_auth (demo_at 2) demo_challenged) of
      Some (Inr br) \<Rightarrow> True | _ \<Rightarrow> False)"
    by code_simp
  then obtain st' br where "authenticate bucket hmac_message demo_auth (demo_at 2) demo_challenged = Some (st', Inr br)"
    by (auto split: option.splits sum.splits)
  with handshake_authentic [OF bucket_law demo_reachable(3) this] show ?thesis by auto
qed

text \<open>A challenge is bound to the request that asked for it. \<open>BeginChallenge\<close> answers only for the identifier
  of a live, unexpired grant whose room and session the request names; the challenge it returns is the pending
  one of that grant, made for the endpoint and the client nonce of the request, and its candidate is indexed
  for the grant.\<close>

lemma challenge_bound_to_request:
  assumes "limiter_law A" and "store_reachable A H st"
    and "begin_challenge A request reading st = Some (st', Inr cr)"
  shows "\<exists>g p. s_grants_by_id st (cq_grant_id request) = Some g \<and> grant_live (s_heap st g) \<and>
    mono reading < g_mono_deadline (s_heap st g) \<and> g_room_id (s_heap st g) = cq_room_id request \<and>
    g_session_id (s_heap st g) = cq_session_id request \<and> endpoint_is_valid (cq_endpoint request) \<and>
    g_pending (s_heap st' g) = Some p \<and> c_result p = cr \<and> c_candidate_id p = cr_candidate_id cr \<and>
    c_server_nonce p = cr_server_nonce cr \<and> c_endpoint p = cq_endpoint request \<and>
    c_client_nonce p = cq_client_nonce request \<and> c_deadline p \<le> g_mono_deadline (s_heap st g) \<and>
    s_candidates_by_id st' (cr_candidate_id cr) = Some g"
proof -
  have inv: "store_inv st" by (rule reachable_inv [OF assms(1,2)])
  show ?thesis
    using begin_challenge_cases [OF assms(1) inv, of request reading] assms(3) by (auto simp: challenge_issued_def)
qed

lemma challenge_bound_to_request_witness:
  "\<exists>st' cr. begin_challenge bucket demo_hello (demo_at 1) demo_open = Some (st', Inr cr) \<and>
    s_candidates_by_id st' (cr_candidate_id cr) \<noteq> None"
proof -
  have "(case map_option snd (begin_challenge bucket demo_hello (demo_at 1) demo_open) of Some (Inr cr) \<Rightarrow> True | _ \<Rightarrow> False)"
    by code_simp
  then obtain st' cr where "begin_challenge bucket demo_hello (demo_at 1) demo_open = Some (st', Inr cr)"
    by (auto split: option.splits sum.splits)
  with challenge_bound_to_request [OF bucket_law demo_reachable(2) this] show ?thesis by auto
qed

end
