(* ===== verification/Base64.thy ===== *)
theory Base64
  imports Prelude
begin

text \<open>
  The part of Go's standard library that turns bytes into text in this repository:
  \<open>base64.RawURLEncoding\<close> (URL alphabet, no padding) with the strict decoder, and the big-endian
  \<open>uint64\<close> of \<open>encoding/binary\<close>. Encoding and decoding are inverse to each other.
\<close>

section \<open>The alphabet\<close>

definition b64_alphabet :: string where
  "b64_alphabet = ''ABCDEFGHIJKLMNOPQRSTUVWXYZabcdefghijklmnopqrstuvwxyz0123456789-_''"

definition b64_char :: "nat \<Rightarrow> char" where
  "b64_char n = b64_alphabet ! n"

fun index_from :: "nat \<Rightarrow> 'a \<Rightarrow> 'a list \<Rightarrow> nat option" where
  "index_from i x [] = None"
| "index_from i x (y # ys) = (if x = y then Some i else index_from (Suc i) x ys)"

definition b64_digit :: "char \<Rightarrow> nat option" where
  "b64_digit c = index_from 0 c b64_alphabet"

lemma length_alphabet: "length b64_alphabet = 64"
  by (simp add: b64_alphabet_def)

lemma distinct_alphabet: "distinct b64_alphabet"
  unfolding b64_alphabet_def by code_simp

lemma index_from_nth: "distinct ys \<Longrightarrow> n < length ys \<Longrightarrow> index_from i (ys ! n) ys = Some (i + n)"
  by (induction ys arbitrary: i n) (auto simp: nth_Cons split: nat.split)

lemma index_from_Some: "index_from i x ys = Some k \<Longrightarrow> i \<le> k \<and> k - i < length ys \<and> ys ! (k - i) = x"
proof (induction ys arbitrary: i)
  case (Cons y ys)
  show ?case
  proof (cases "x = y")
    case False
    then have "Suc i \<le> k \<and> k - Suc i < length ys \<and> ys ! (k - Suc i) = x" using Cons by simp
    then show ?thesis by (auto simp: nth_Cons split: nat.split) (metis Suc_diff_Suc Suc_le_eq diff_Suc_1)+
  qed (use Cons.prems in simp)
qed simp

lemma digit_char [simp]: "n < 64 \<Longrightarrow> b64_digit (b64_char n) = Some n"
  using index_from_nth [OF distinct_alphabet, of n 0] by (simp add: b64_digit_def b64_char_def length_alphabet)

lemma char_digit: "b64_digit c = Some n \<Longrightarrow> n < 64 \<and> b64_char n = c"
  using index_from_Some [of 0 c b64_alphabet n] by (simp add: b64_digit_def b64_char_def length_alphabet)

section \<open>Encoding and decoding\<close>

text \<open>\<open>EncodeToString\<close>, three bytes at a time.\<close>

fun b64_digits :: "byte list \<Rightarrow> nat list" where
  "b64_digits [] = []"
| "b64_digits [a] = [unat a div 4, unat a mod 4 * 16]"
| "b64_digits [a, b] = [unat a div 4, unat a mod 4 * 16 + unat b div 16, unat b mod 16 * 4]"
| "b64_digits (a # b # c # rest) =
     [unat a div 4, unat a mod 4 * 16 + unat b div 16, unat b mod 16 * 4 + unat c div 64, unat c mod 64] @ b64_digits rest"

definition b64_encode :: "byte list \<Rightarrow> string" where
  "b64_encode bs = map b64_char (b64_digits bs)"

definition b64_encoded_len :: "nat \<Rightarrow> nat" where
  "b64_encoded_len n = n div 3 * 4 + (n mod 3 * 8 + 5) div 6"

text \<open>\<open>Strict().DecodeString\<close>: carriage returns and line feeds are skipped, any other character outside
  the alphabet is an error, a single trailing digit is an error, and so are trailing bits that are not zero.\<close>

fun b64_bytes :: "nat list \<Rightarrow> byte list option" where
  "b64_bytes [] = Some []"
| "b64_bytes [w] = None"
| "b64_bytes [w, x] = (if x mod 16 \<noteq> 0 then None else Some [of_nat (w * 4 + x div 16)])"
| "b64_bytes [w, x, y] = (if y mod 4 \<noteq> 0 then None
     else Some [of_nat (w * 4 + x div 16), of_nat (x mod 16 * 16 + y div 4)])"
| "b64_bytes (w # x # y # z # rest) = map_option
     (\<lambda>bs. of_nat (w * 4 + x div 16) # of_nat (x mod 16 * 16 + y div 4) # of_nat (y mod 4 * 64 + z) # bs) (b64_bytes rest)"

definition b64_decode_strict :: "string \<Rightarrow> byte list option" where
  "b64_decode_strict s =
     (let digits = map b64_digit (filter (\<lambda>c. c \<notin> {CHR 0x0A, CHR 0x0D}) s)
      in if None \<in> set digits then None else b64_bytes (map the digits))"

section \<open>They are inverse\<close>

lemma unat_byte_lt: "unat (a :: byte) < 256"
  by (rule order_less_le_trans [OF unsigned_less]) simp

lemma digits_bound: "d \<in> set (b64_digits bs) \<Longrightarrow> d < 64"
proof (induction bs rule: b64_digits.induct)
  case (2 a)
  then show ?case using unat_byte_lt [of a] by auto
next
  case (3 a b)
  then show ?case using unat_byte_lt [of a] unat_byte_lt [of b] by auto
next
  case (4 a b c rest)
  then show ?case using unat_byte_lt [of a] unat_byte_lt [of b] unat_byte_lt [of c] by auto
qed simp

lemma join_byte [simp]:
  "(word_of_nat (unat (a :: byte) div 4) * 4 + word_of_nat (unat a mod 4) :: byte) = a"
  "(word_of_nat (unat a div 16) * 16 + word_of_nat (unat a mod 16) :: byte) = a"
  "(word_of_nat (unat a div 64) * 64 + word_of_nat (unat a mod 64) :: byte) = a"
proof -
  have join: "(word_of_nat (unat a div m) * word_of_nat m + word_of_nat (unat a mod m) :: byte) = a" for m
    unfolding of_nat_mult [symmetric] of_nat_add [symmetric] div_mult_mod_eq by simp
  show "(word_of_nat (unat a div 4) * 4 + word_of_nat (unat a mod 4) :: byte) = a"
    "(word_of_nat (unat a div 16) * 16 + word_of_nat (unat a mod 16) :: byte) = a"
    "(word_of_nat (unat a div 64) * 64 + word_of_nat (unat a mod 64) :: byte) = a"
    using join [of 4] join [of 16] join [of 64] by (simp_all only: of_nat_numeral)
qed

lemma bytes_digits: "b64_bytes (b64_digits bs) = Some bs"
proof (induction bs rule: b64_digits.induct)
  case (2 a)
  then show ?case by simp
next
  case (3 a b)
  have "(unat a mod 4 * 16 + unat b div 16) div 16 = unat a mod 4"
    "(unat a mod 4 * 16 + unat b div 16) mod 16 = unat b div 16"
    using unat_byte_lt [of b] by auto
  then show ?case by simp
next
  case (4 a b c rest)
  have "(unat a mod 4 * 16 + unat b div 16) div 16 = unat a mod 4"
    "(unat a mod 4 * 16 + unat b div 16) mod 16 = unat b div 16"
    "(unat b mod 16 * 4 + unat c div 64) div 4 = unat b mod 16"
    "(unat b mod 16 * 4 + unat c div 64) mod 4 = unat c div 64"
    using unat_byte_lt [of b] unat_byte_lt [of c] by auto
  then show ?case using 4 by simp
qed simp

lemma length_digits: "length (b64_digits bs) = b64_encoded_len (length bs)"
proof (induction bs rule: b64_digits.induct)
  case (4 a b c rest)
  have "b64_encoded_len (Suc (Suc (Suc n))) = 4 + b64_encoded_len n" for n
    by (simp add: b64_encoded_len_def)
  then show ?case using 4 by simp
qed (simp_all add: b64_encoded_len_def)

lemma length_encode: "length (b64_encode bs) = b64_encoded_len (length bs)"
  by (simp add: b64_encode_def length_digits)

lemma b64_encoded_len_eq: "b64_encoded_len n = (n * 8 + 5) div 6"
proof -
  have "n * 8 + 5 = (n mod 3 * 8 + 5) + n div 3 * 4 * 6" using div_mult_mod_eq [of n 3] by linarith
  then show ?thesis by (simp add: b64_encoded_len_def)
qed

lemma b64_encoded_len_mono: "m \<le> n \<Longrightarrow> b64_encoded_len m \<le> b64_encoded_len n"
  unfolding b64_encoded_len_eq by (intro div_le_mono) simp

lemma encode_no_newline: "n < 64 \<Longrightarrow> b64_char n \<notin> {CHR 0x0A, CHR 0x0D}"
proof -
  have "\<forall>c \<in> set b64_alphabet. c \<notin> {CHR 0x0A, CHR 0x0D}" unfolding b64_alphabet_def by code_simp
  moreover assume "n < 64"
  then have "b64_char n \<in> set b64_alphabet" by (simp add: b64_char_def length_alphabet)
  ultimately show ?thesis by blast
qed

lemma b64_round_trip: "b64_decode_strict (b64_encode bs) = Some bs"
proof -
  have "filter (\<lambda>c. c \<notin> {CHR 0x0A, CHR 0x0D}) (b64_encode bs) = b64_encode bs"
    using encode_no_newline digits_bound by (intro filter_True) (auto simp: b64_encode_def)
  moreover have "map b64_digit (b64_encode bs) = map Some (b64_digits bs)"
    using digits_bound by (auto simp: b64_encode_def)
  ultimately show ?thesis by (simp add: b64_decode_strict_def bytes_digits comp_def)
qed

lemma b64_encode_inject: "b64_encode bs = b64_encode cs \<longleftrightarrow> bs = cs"
  using b64_round_trip by (metis option.inject)

text \<open>Decoding is strict: what decodes is, without its line breaks, the encoding of the result.\<close>

lemma unat_of_nat_byte: "n < 256 \<Longrightarrow> unat (of_nat n :: byte) = n"
  by (simp add: unat_of_nat take_bit_nat_eq_self)

lemma digits_bytes: "b64_bytes ds = Some bs \<Longrightarrow> \<forall>d \<in> set ds. d < 64 \<Longrightarrow> b64_digits bs = ds"
proof (induction ds arbitrary: bs rule: b64_bytes.induct)
  case (3 w x)
  then have "x mod 16 = 0" "w * 4 + x div 16 < 256" "bs = [of_nat (w * 4 + x div 16)]" by (auto split: if_splits)
  moreover have "(w * 4 + x div 16) div 4 = w" "(w * 4 + x div 16) mod 4 * 16 = x div 16 * 16" using 3 by auto
  ultimately show ?case by (simp add: unat_of_nat_byte del: of_nat_add of_nat_mult) (metis div_mult_mod_eq add_0_right)
next
  case (4 w x y)
  then have b: "y mod 4 = 0" "w * 4 + x div 16 < 256" "x mod 16 * 16 + y div 4 < 256"
    "bs = [of_nat (w * 4 + x div 16), of_nat (x mod 16 * 16 + y div 4)]" by (auto split: if_splits)
  have "(w * 4 + x div 16) div 4 = w" "(w * 4 + x div 16) mod 4 = x div 16"
    "(x mod 16 * 16 + y div 4) div 16 = x mod 16" "(x mod 16 * 16 + y div 4) mod 16 = y div 4" using 4 by auto
  then show ?case using b by (simp add: unat_of_nat_byte del: of_nat_add of_nat_mult) (metis div_mult_mod_eq add_0_right)
next
  case (5 w x y z rest)
  then obtain bs' where bs: "b64_bytes rest = Some bs'"
    "bs = of_nat (w * 4 + x div 16) # of_nat (x mod 16 * 16 + y div 4) # of_nat (y mod 4 * 64 + z) # bs'" by auto
  have lt: "w * 4 + x div 16 < 256" "x mod 16 * 16 + y div 4 < 256" "y mod 4 * 64 + z < 256" using 5 by auto
  have "(w * 4 + x div 16) div 4 = w" "(w * 4 + x div 16) mod 4 = x div 16"
    "(x mod 16 * 16 + y div 4) div 16 = x mod 16" "(x mod 16 * 16 + y div 4) mod 16 = y div 4"
    "(y mod 4 * 64 + z) div 64 = y mod 4" "(y mod 4 * 64 + z) mod 64 = z" using 5 by auto
  then show ?case using bs lt 5 by (simp add: unat_of_nat_byte del: of_nat_add of_nat_mult)
qed auto

lemma b64_decode_strict_Some:
  "b64_decode_strict s = Some bs \<longleftrightarrow> filter (\<lambda>c. c \<notin> {CHR 0x0A, CHR 0x0D}) s = b64_encode bs"
proof
  define t where "t = filter (\<lambda>c. c \<notin> {CHR 0x0A, CHR 0x0D}) s"
  assume "b64_decode_strict s = Some bs"
  then have eq: "(if None \<in> set (map b64_digit t) then None else b64_bytes (map the (map b64_digit t))) = Some bs"
    by (simp only: b64_decode_strict_def Let_def t_def)
  then have "None \<notin> set (map b64_digit t)" by (metis option.distinct(1))
  then have ok: "\<forall>c \<in> set t. b64_digit c \<noteq> None" by (metis image_eqI set_map)
  have bs: "b64_bytes (map (the \<circ> b64_digit) t) = Some bs" using eq by (simp split: if_splits)
  have char: "the (b64_digit c) < 64 \<and> b64_char (the (b64_digit c)) = c" if "c \<in> set t" for c
    using ok that char_digit by fastforce
  have "b64_digits bs = map (the \<circ> b64_digit) t" by (rule digits_bytes [OF bs]) (use char in auto)
  then have "b64_encode bs = t" by (simp add: b64_encode_def char map_idI)
  then show "filter (\<lambda>c. c \<notin> {CHR 0x0A, CHR 0x0D}) s = b64_encode bs" by (simp add: t_def)
next
  assume "filter (\<lambda>c. c \<notin> {CHR 0x0A, CHR 0x0D}) s = b64_encode bs"
  moreover have "filter (\<lambda>c. c \<notin> {CHR 0x0A, CHR 0x0D}) (b64_encode bs) = b64_encode bs"
    using encode_no_newline digits_bound by (intro filter_True) (auto simp: b64_encode_def)
  ultimately show "b64_decode_strict s = Some bs"
    using b64_round_trip [of bs] by (simp add: b64_decode_strict_def)
qed

section \<open>Big-endian numbers\<close>

definition be64_value :: "byte list \<Rightarrow> u64" where
  "be64_value bs = of_nat (foldl (\<lambda>acc b. acc * 256 + unat b) 0 bs)"

text \<open>The number that the bytes spell, and that it determines them.\<close>

abbreviation spelled :: "byte list \<Rightarrow> nat" where
  "spelled \<equiv> foldl (\<lambda>acc b. acc * 256 + unat b) 0"

lemma horner_inject: "(a :: nat) * 256 + b = c * 256 + d \<Longrightarrow> b < 256 \<Longrightarrow> d < 256 \<Longrightarrow> a = c \<and> b = d"
proof -
  assume eq: "a * 256 + b = c * 256 + d" and lt: "b < 256" "d < 256"
  then have "(a * 256 + b) div 256 = a" "(c * 256 + d) div 256 = c" by simp_all
  then show ?thesis using eq by simp
qed

lemma spelled_inject: "length bs = length cs \<Longrightarrow> spelled bs = spelled cs \<Longrightarrow> bs = cs"
proof (induction bs arbitrary: cs rule: rev_induct)
  case (snoc b bs)
  then obtain c cs' where cs: "cs = cs' @ [c]" "length cs' = length bs" by (cases cs rule: rev_cases) auto
  have "spelled bs * 256 + unat b = spelled cs' * 256 + unat c" using snoc.prems(2) cs by simp
  then have "spelled bs = spelled cs' \<and> unat b = unat c" by (rule horner_inject) (rule unat_byte_lt)+
  then show ?case using snoc.IH [of cs'] cs by (simp add: word_unat_eq_iff)
qed simp

lemma horner_bound: "(a :: nat) < n \<Longrightarrow> b < 256 \<Longrightarrow> a * 256 + b < 256 * n"
  by linarith

lemma spelled_bound: "spelled bs < 256 ^ length bs"
proof (induction bs rule: rev_induct)
  case (snoc b bs)
  from horner_bound [OF this unat_byte_lt [of b]] show ?case by simp
qed simp

lemma unat_ucast_byte: "unat (ucast (drop_bit k (w :: u64)) :: byte) = unat w div 2 ^ k mod 256"
  by (simp only: unsigned_ucast_eq unat_drop_bit_eq) (simp add: drop_bit_eq_div take_bit_eq_mod)

lemma horner_step: "n div (k * 256) * 256 + n div k mod 256 = (n div k :: nat)"
  by (simp add: div_mult2_eq)

lemma be64_value_be64 [simp]: "be64_value (be64 w) = w"
proof -
  let ?n = "unat w"
  have "?n < 2 ^ 64" by (rule order_less_le_trans [OF unsigned_less]) simp
  then have top: "?n div 72057594037927936 mod 256 = ?n div 72057594037927936" by simp
  have "unat (ucast w :: byte) = ?n mod 256" using unat_ucast_byte [of 0 w] by simp
  then have "spelled (be64 w) = ?n"
    using horner_step [of ?n 281474976710656] horner_step [of ?n 1099511627776] horner_step [of ?n 4294967296]
      horner_step [of ?n 16777216] horner_step [of ?n 65536] horner_step [of ?n 256] horner_step [of ?n 1]
    by (simp add: be64_def unat_ucast_byte top)
  then show ?thesis by (simp add: be64_value_def)
qed

lemma be64_be64_value:
  assumes "length bs = 8"
  shows "be64 (be64_value bs) = bs"
proof (rule spelled_inject)
  show "length (be64 (be64_value bs)) = length bs" using assms by simp
  have "unat (be64_value cs) = spelled cs" if "length cs = 8" for cs
    using spelled_bound [of cs] that by (simp add: be64_value_def unat_of_nat take_bit_nat_eq_self)
  from this [of bs] this [of "be64 (be64_value bs)"] assms
  show "spelled (be64 (be64_value bs)) = spelled bs" by simp
qed

end
