(* ===== verification/Lobby_State.thy ===== *)
theory Lobby_State
  imports Base64 Store_Rooms "HOL-Library.AList"
begin

text \<open>
  \<open>internal/lobby/lobby.go\<close> and \<open>internal/lobby/match.go\<close>: lobbies that players gather in and tickets that
  queue for a match, both of which end in a room of the store. Everything runs under the manager's mutex,
  so an operation is a state transformation.

  The table of lobbies and the table of tickets are finite maps; their iteration order, which Go leaves
  open, is an argument of the operations that iterate (a list of the keys). The members of a lobby and the
  assignments of a match are association lists. The manager reads its own clock once per operation (the
  argument \<open>reading\<close>); every call of the store reads the clock of the store, an input of the model
  (\<open>m_store_clock\<close>) that is consumed one reading per call.
\<close>

section \<open>Records\<close>

datatype lobby_error = LobbyInvalid | LobbyNotFound | LobbyConflict | LobbyForbidden | LobbyCapacity
  | LobbyUnavailable | LobbyFatalRandom

datatype visibility = VisibilityPublic | VisibilityPrivate

datatype lobby_state = LobbyStateOpen | LobbyStateMatched | LobbyStateClosed

datatype ticket_state = TicketStateQueued | TicketStateMatched | TicketStateCancelled | TicketStateExpired

definition HardMaxOpenLobbies :: int where "HardMaxOpenLobbies = 256"
definition HardMaxMembers :: u32 where "HardMaxMembers = 16"
definition HardMaxListPage :: int where "HardMaxListPage = 50"
definition DefaultLobbyTTL :: duration where "DefaultLobbyTTL = 30 * minute"
definition MatchTTL :: duration where "MatchTTL = 2 * minute"
definition HardMaxTickets :: int where "HardMaxTickets = 4096"
definition TicketTTL :: duration where "TicketTTL = 2 * minute"

abbreviation max_uint64 :: u64 where "max_uint64 \<equiv> 18446744073709551615"

text \<open>The visibility of a request is any string of the client: \<^const>\<open>None\<close> is neither of the two.\<close>

record create_request =
  lq_visibility :: "visibility option"
  lq_queue_key :: string
  lq_capacity :: u32

record enqueue_request =
  eq_queue_key :: string
  eq_capacity :: u32

record member_snapshot =
  ms_player_id :: string
  ms_ready :: bool

record assignment =
  as_match_id :: string
  as_room_id :: string
  as_player_id :: string
  as_session_id :: string
  as_grant_id :: bytes16
  as_grant_secret :: bytes32
  as_grant_expires_at :: time

record lobby_summary =
  lsum_lobby_id :: string
  lsum_owner_player_id :: string
  lsum_queue_key :: string
  lsum_visibility :: visibility
  lsum_capacity :: u32
  lsum_member_count :: u32
  lsum_revision :: u64
  lsum_expires_at :: time

record lobby_snapshot =
  lsn_lobby_id :: string
  lsn_owner_player_id :: string
  lsn_queue_key :: string
  lsn_visibility :: visibility
  lsn_capacity :: u32
  lsn_revision :: u64
  lsn_state :: lobby_state
  lsn_members :: "member_snapshot list"
  lsn_expires_at :: time
  lsn_assignment :: "assignment option"

record lobby_page =
  lp_lobbies :: "lobby_summary list"
  lp_next_cursor :: string

record ticket_snapshot =
  ts_ticket_id :: string
  ts_player_id :: string
  ts_queue_key :: string
  ts_state :: ticket_state
  ts_capacity :: u32
  ts_revision :: u64
  ts_expires_at :: time
  ts_assignment :: "assignment option"

record member_record =
  mr_player_id :: string
  mr_ready :: bool
  mr_join_sequence :: u64

record lobby_record =
  lr_id :: string
  lr_owner_player_id :: string
  lr_queue_key :: string
  lr_visibility :: visibility
  lr_capacity :: u32
  lr_state :: lobby_state
  lr_revision :: u64
  lr_sequence :: u64
  lr_created_at :: time
  lr_expires_at :: time
  lr_mono_deadline :: duration
  lr_members :: "(string \<times> member_record) list"
  lr_assignments :: "(string \<times> assignment) list"

record queue_key =
  qk_queue_key :: string
  qk_capacity :: u32

record ticket_record =
  tr_id :: string
  tr_player_id :: string
  tr_queue_key :: string
  tr_capacity :: u32
  tr_state :: ticket_state
  tr_revision :: u64
  tr_sequence :: u64
  tr_expires_at :: time
  tr_mono_deadline :: duration
  tr_assignment :: "assignment option"

record 'l manager =
  m_limiter :: "'l limiter_api"
  m_relay :: "'l store"
  m_store_clock :: "nat \<Rightarrow> clock_reading"
  m_calls :: nat
  m_random :: "byte list"
  m_lobbies :: "(string, lobby_record) fmap"
  m_lobby_by_player :: "(string, string) fmap"
  m_match_ids :: "string fset"
  m_tickets :: "(string, ticket_record) fmap"
  m_queues :: "(queue_key, string list) fmap"
  m_next_sequence :: u64

text \<open>\<open>New\<close>; a nil relay is \<^const>\<open>None\<close>.\<close>

definition manager_new ::
    "'l limiter_api \<Rightarrow> 'l store option \<Rightarrow> (nat \<Rightarrow> clock_reading) \<Rightarrow> byte list \<Rightarrow> lobby_error + 'l manager" where
  "manager_new A relay clock random = (case relay of
     None \<Rightarrow> Inl LobbyInvalid
   | Some st \<Rightarrow> Inr \<lparr>m_limiter = A, m_relay = st, m_store_clock = clock, m_calls = 0, m_random = random,
       m_lobbies = fmempty, m_lobby_by_player = fmempty, m_match_ids = {||}, m_tickets = fmempty,
       m_queues = fmempty, m_next_sequence = 1\<rparr>)"

section \<open>Calls of the store\<close>

definition relay_create_room ::
    "string \<Rightarrow> room_definition \<Rightarrow> 'l manager \<Rightarrow> 'l manager \<times> (store_error + allocation \<times> bool)" where
  "relay_create_room room_id d m =
     (case create_room (m_limiter m) room_id d (m_store_clock m (m_calls m)) (m_relay m) of
        (st, res) \<Rightarrow> (m\<lparr>m_relay := st, m_calls := m_calls m + 1\<rparr>, res))"

definition relay_end_room :: "string \<Rightarrow> 'l manager \<Rightarrow> 'l manager" where
  "relay_end_room room_id m =
     m\<lparr>m_relay := fst (end_room room_id (m_store_clock m (m_calls m)) (m_relay m)), m_calls := m_calls m + 1\<rparr>"

section \<open>Helpers\<close>

definition valid_create_request :: "create_request \<Rightarrow> bool" where
  "valid_create_request request \<longleftrightarrow> lq_visibility request \<noteq> None \<and> valid_id (lq_queue_key request) \<and>
     lq_capacity request \<ge> 2 \<and> lq_capacity request \<le> HardMaxMembers"

definition valid_enqueue_request :: "enqueue_request \<Rightarrow> bool" where
  "valid_enqueue_request request \<longleftrightarrow> valid_id (eq_queue_key request) \<and>
     eq_capacity request \<ge> 2 \<and> eq_capacity request \<le> HardMaxMembers"

definition lobby_deadline_after :: "duration \<Rightarrow> duration \<Rightarrow> duration option" where
  "lobby_deadline_after now ttl =
     (if ttl \<le> 0 \<or> now > i64 (max_int64 - ttl) then None else Some (i64 (now + ttl)))"

definition take_sequence :: "'l manager \<Rightarrow> u64 \<times> 'l manager" where
  "take_sequence m = (m_next_sequence m, m\<lparr>m_next_sequence := m_next_sequence m + 1\<rparr>)"

text \<open>\<open>drawIDLocked\<close> and \<open>uniqueIDLocked\<close>, with the number of draws left.\<close>

definition draw_id :: "string \<Rightarrow> byte list \<Rightarrow> (lobby_error + string) \<times> byte list" where
  "draw_id prefix src = (case read_full 16 src of
     (None, src') \<Rightarrow> (Inl LobbyFatalRandom, src')
   | (Some raw, src') \<Rightarrow> (Inr (prefix @ b64_encode raw), src'))"

fun unique_draw :: "nat \<Rightarrow> string \<Rightarrow> (string \<Rightarrow> bool) \<Rightarrow> byte list \<Rightarrow> (lobby_error + string) \<times> byte list" where
  "unique_draw 0 prefix taken src = (Inl LobbyFatalRandom, src)"
| "unique_draw (Suc n) prefix taken src = (case draw_id prefix src of
     (Inl err, src') \<Rightarrow> (Inl err, src')
   | (Inr candidate, src') \<Rightarrow>
       if \<not> taken candidate then (Inr candidate, src') else unique_draw n prefix taken src')"

definition unique_id_locked :: "string \<Rightarrow> (string \<Rightarrow> bool) \<Rightarrow> byte list \<Rightarrow> (lobby_error + string) \<times> byte list" where
  "unique_id_locked = unique_draw 9"

text \<open>\<open>strconv.FormatUint\<close> and \<open>strconv.ParseUint\<close> in base 10 and 64 bits.\<close>

fun format_uint :: "nat \<Rightarrow> string" where
  "format_uint n = (if n < 10 then [char_of (48 + n)] else format_uint (n div 10) @ [char_of (48 + n mod 10)])"

definition decimal_digit :: "char \<Rightarrow> nat option" where
  "decimal_digit c = (let n = of_char c in if 48 \<le> n \<and> n \<le> (57 :: nat) then Some (n - 48) else None)"

fun parse_digits :: "nat \<Rightarrow> string \<Rightarrow> nat option" where
  "parse_digits acc [] = Some acc"
| "parse_digits acc (c # cs) = (case decimal_digit c of
     None \<Rightarrow> None
   | Some d \<Rightarrow> parse_digits (acc * 10 + d) cs)"

definition parse_uint :: "string \<Rightarrow> nat option" where
  "parse_uint s = (if s = [] then None else (case parse_digits 0 s of
     None \<Rightarrow> None | Some n \<Rightarrow> if n < 2 ^ 64 then Some n else None))"

definition parse_cursor :: "string \<Rightarrow> lobby_error + u64" where
  "parse_cursor cursor =
     (if cursor = [] then Inr 0
      else (case parse_uint cursor of
          None \<Rightarrow> Inl LobbyInvalid
        | Some v \<Rightarrow> if v = 0 \<or> format_uint v \<noteq> cursor then Inl LobbyInvalid else Inr (of_nat v)))"

definition members_in_join_order :: "lobby_record \<Rightarrow> string list" where
  "members_in_join_order r = map mr_player_id (sort_key mr_join_sequence (map snd (lr_members r)))"

definition reset_ready :: "lobby_record \<Rightarrow> lobby_record" where
  "reset_ready r = r\<lparr>lr_members := map (\<lambda>(p, mr). (p, mr\<lparr>mr_ready := False\<rparr>)) (lr_members r)\<rparr>"

definition all_ready :: "lobby_record \<Rightarrow> bool" where
  "all_ready r \<longleftrightarrow> (\<forall>(p, mr) \<in> set (lr_members r). mr_ready mr)"

definition first_assignment :: "lobby_record \<Rightarrow> assignment" where
  "first_assignment r = snd (hd (lr_assignments r))"

definition snapshot_for :: "lobby_record \<Rightarrow> string \<Rightarrow> lobby_snapshot" where
  "snapshot_for r player_id =
     \<lparr>lsn_lobby_id = lr_id r, lsn_owner_player_id = lr_owner_player_id r, lsn_queue_key = lr_queue_key r,
      lsn_visibility = lr_visibility r, lsn_capacity = lr_capacity r, lsn_revision = lr_revision r,
      lsn_state = lr_state r,
      lsn_members = map (\<lambda>p. (let mr = the (map_of (lr_members r) p) in
        \<lparr>ms_player_id = mr_player_id mr, ms_ready = mr_ready mr\<rparr>)) (members_in_join_order r),
      lsn_expires_at = lr_expires_at r, lsn_assignment = map_of (lr_assignments r) player_id\<rparr>"

definition summary_for :: "lobby_record \<Rightarrow> lobby_summary" where
  "summary_for r =
     \<lparr>lsum_lobby_id = lr_id r, lsum_owner_player_id = lr_owner_player_id r, lsum_queue_key = lr_queue_key r,
      lsum_visibility = lr_visibility r, lsum_capacity = lr_capacity r,
      lsum_member_count = of_nat (length (lr_members r)), lsum_revision = lr_revision r,
      lsum_expires_at = lr_expires_at r\<rparr>"

definition ticket_snapshot_of :: "ticket_record \<Rightarrow> ticket_snapshot" where
  "ticket_snapshot_of t =
     \<lparr>ts_ticket_id = tr_id t, ts_player_id = tr_player_id t, ts_queue_key = tr_queue_key t, ts_state = tr_state t,
      ts_capacity = tr_capacity t, ts_revision = tr_revision t, ts_expires_at = tr_expires_at t,
      ts_assignment = tr_assignment t\<rparr>"

definition map_store_error :: "store_error \<Rightarrow> lobby_error" where
  "map_store_error err = (if err = ErrFatalRandom then LobbyFatalRandom
     else if err = ErrCapacity then LobbyUnavailable else LobbyUnavailable)"

text \<open>Decimal numbers round-trip.\<close>

lemma decimal_digit_char: "d < 10 \<Longrightarrow> decimal_digit (char_of (48 + d)) = Some d"
  by (simp add: decimal_digit_def Let_def)

lemma parse_digits_append: "parse_digits acc (xs @ ys) = (case parse_digits acc xs of None \<Rightarrow> None | Some n \<Rightarrow> parse_digits n ys)"
  by (induction acc xs rule: parse_digits.induct) (auto split: option.split)

declare format_uint.simps [simp del]

lemma format_uint_nonempty: "format_uint n \<noteq> []"
  by (subst format_uint.simps) simp

lemma parse_format_uint: "parse_digits 0 (format_uint n) = Some n"
proof (induction n rule: format_uint.induct)
  case (1 n)
  show ?case
  proof (cases "n < 10")
    case True
    then show ?thesis by (simp add: format_uint.simps [of n] decimal_digit_char)
  next
    case False
    then show ?thesis
      using 1 decimal_digit_char [of "n mod 10"] by (simp add: format_uint.simps [of n] parse_digits_append)
  qed
qed

lemma parse_uint_format: "n < 2 ^ 64 \<Longrightarrow> parse_uint (format_uint n) = Some n"
  by (simp add: parse_uint_def format_uint_nonempty parse_format_uint)

lemma parse_uint_bound: "parse_uint s = Some n \<Longrightarrow> n < 2 ^ 64"
  by (auto simp: parse_uint_def split: if_splits option.splits)

end
