(* ===== verification/Lobby_Ops.thy ===== *)
theory Lobby_Ops
  imports Lobby_State
begin

text \<open>
  The operations of \<open>lobby.Manager\<close> in \<open>lobby.go\<close>: the sweep of expired lobbies and tickets that opens every
  one of them (with \<open>expireTicketsLocked\<close> of \<open>match.go\<close>), the allocation of a match in the store, and the
  operations on lobbies.
\<close>

section \<open>Expiry\<close>

definition remove_queued_player :: "queue_key \<Rightarrow> string \<Rightarrow> 'l manager \<Rightarrow> 'l manager" where
  "remove_queued_player key player_id m = (case fmlookup (m_queues m) key of
     None \<Rightarrow> m
   | Some queued \<Rightarrow>
       if player_id \<in> set queued
       then (let rest = remove1 player_id queued
             in m\<lparr>m_queues := (if rest = [] then fmdrop key (m_queues m) else fmupd key rest (m_queues m))\<rparr>)
       else m)"

definition ticket_key :: "ticket_record \<Rightarrow> queue_key" where
  "ticket_key t = \<lparr>qk_queue_key = tr_queue_key t, qk_capacity = tr_capacity t\<rparr>"

definition expire_ticket :: "clock_reading \<Rightarrow> string \<Rightarrow> 'l manager \<Rightarrow> 'l manager" where
  "expire_ticket reading player_id m = (case fmlookup (m_tickets m) player_id of
     None \<Rightarrow> m
   | Some t \<Rightarrow>
       if mono reading < tr_mono_deadline t then m
       else (let m1 = (if tr_state t = TicketStateQueued then remove_queued_player (ticket_key t) player_id m else m);
                 m2 = (if tr_state t = TicketStateMatched then (case tr_assignment t of
                     None \<Rightarrow> m1
                   | Some a \<Rightarrow> (relay_end_room (as_room_id a) m1)\<lparr>m_match_ids := m_match_ids m1 |-| {|as_match_id a|}\<rparr>) else m1)
             in m2\<lparr>m_tickets := fmdrop player_id (m_tickets m2)\<rparr>))"

definition expire_lobby :: "clock_reading \<Rightarrow> string \<Rightarrow> 'l manager \<Rightarrow> 'l manager" where
  "expire_lobby reading lobby_id m = (case fmlookup (m_lobbies m) lobby_id of
     None \<Rightarrow> m
   | Some r \<Rightarrow>
       if mono reading < lr_mono_deadline r then m
       else (let m1 = (if lr_state r = LobbyStateMatched \<and> lr_assignments r \<noteq> []
                 then (relay_end_room (as_room_id (first_assignment r)) m)
                   \<lparr>m_match_ids := m_match_ids m |-| {|as_match_id (first_assignment r)|}\<rparr> else m)
             in m1\<lparr>m_lobby_by_player := fold fmdrop (map fst (lr_members r)) (m_lobby_by_player m1),
                   m_lobbies := fmdrop lobby_id (m_lobbies m1)\<rparr>))"

text \<open>\<open>expireTicketsLocked\<close> and \<open>expireLocked\<close>; the orders in which the two maps are met.\<close>

type_synonym sweep_order = "string list \<times> string list"

definition expire_tickets :: "clock_reading \<Rightarrow> string list \<Rightarrow> 'l manager \<Rightarrow> 'l manager" where
  "expire_tickets reading players m = fold (expire_ticket reading) players m"

definition expire_locked :: "clock_reading \<Rightarrow> sweep_order \<Rightarrow> 'l manager \<Rightarrow> 'l manager" where
  "expire_locked reading ord m =
     expire_tickets reading (snd ord) (fold (expire_lobby reading) (fst ord) m)"

section \<open>Allocating a match\<close>

text \<open>The loop that draws one session per player; \<open>Inr None\<close> is an attempt that is not valid.\<close>

fun draw_sessions :: "time \<Rightarrow> string list \<Rightarrow> string list \<Rightarrow> byte list \<Rightarrow> (lobby_error + participant_definition list option) \<times> byte list" where
  "draw_sessions expires_at sessions [] src = (Inr (Some []), src)"
| "draw_sessions expires_at sessions (player # players) src =
     (case unique_id_locked ''s-'' (\<lambda>candidate. candidate \<in> set sessions) src of
        (Inl err, src1) \<Rightarrow> (Inl err, src1)
      | (Inr session_id, src1) \<Rightarrow>
          if session_id \<in> set sessions then (Inr None, src1)
          else (case draw_sessions expires_at (session_id # sessions) players src1 of
              (Inr (Some ps), src2) \<Rightarrow>
                (Inr (Some (\<lparr>pd_participant_id = player, pd_session_id = session_id, pd_grant_expires_at = expires_at\<rparr> # ps)), src2)
            | (res, src2) \<Rightarrow> (res, src2)))"

text \<open>The assignments of an allocation, or \<^const>\<open>None\<close> at a grant without a secret.\<close>

fun grant_assignments :: "string \<Rightarrow> string \<Rightarrow> grant_allocation list \<Rightarrow> (string \<times> assignment) list \<Rightarrow> (string \<times> assignment) list option" where
  "grant_assignments match_id room_id [] acc = Some acc"
| "grant_assignments match_id room_id (g # gs) acc = (case ga_grant_secret g of
     None \<Rightarrow> None
   | Some secret \<Rightarrow> grant_assignments match_id room_id gs (AList.update (ga_participant_id g)
       \<lparr>as_match_id = match_id, as_room_id = room_id, as_player_id = ga_participant_id g, as_session_id = ga_session_id g,
        as_grant_id = ga_grant_id g, as_grant_secret = secret, as_grant_expires_at = ga_grant_expires_at g\<rparr> acc))"

type_synonym match_allocation = "string \<times> string \<times> (string \<times> assignment) list \<times> time \<times> duration"

text \<open>One turn of the loop of \<open>allocateMatchLocked\<close>, and the loop.\<close>

datatype attempt_outcome = Attempt_Failed lobby_error | Attempt_Again | Attempt_Done match_allocation

definition commit_attempt ::
    "string list \<Rightarrow> time \<Rightarrow> duration \<Rightarrow> string \<Rightarrow> string \<Rightarrow> participant_definition list \<Rightarrow> 'l manager \<Rightarrow> 'l manager \<times> attempt_outcome" where
  "commit_attempt players expires_at deadline match_id room_id participants m =
     (case relay_create_room room_id \<lparr>rd_capacity = of_nat (length players), rd_expires_at = expires_at,
         rd_participants = participants\<rparr> m of
        (m1, Inl err) \<Rightarrow>
          (m1, if err = ErrConflict then Attempt_Again else Attempt_Failed (map_store_error err))
      | (m1, Inr (allocation, created)) \<Rightarrow>
          if \<not> created then (m1, Attempt_Again)
          else (case grant_assignments match_id room_id (al_grants allocation) [] of
              None \<Rightarrow> (relay_end_room room_id m1, Attempt_Failed LobbyUnavailable)
            | Some assignments \<Rightarrow>
                if length assignments \<noteq> length players then (relay_end_room room_id m1, Attempt_Failed LobbyUnavailable)
                else (m1, Attempt_Done (match_id, room_id, assignments, expires_at, deadline))))"

definition allocate_attempt ::
    "string list \<Rightarrow> time \<Rightarrow> duration \<Rightarrow> 'l manager \<Rightarrow> 'l manager \<times> attempt_outcome" where
  "allocate_attempt players expires_at deadline m =
     (case unique_id_locked ''m-'' (\<lambda>candidate. candidate |\<in>| m_match_ids m) (m_random m) of
        (Inl err, src1) \<Rightarrow> (m\<lparr>m_random := src1\<rparr>, Attempt_Failed err)
      | (Inr match_id, src1) \<Rightarrow> (case draw_id ''r-'' src1 of
          (Inl err, src2) \<Rightarrow> (m\<lparr>m_random := src2\<rparr>, Attempt_Failed err)
        | (Inr room_id, src2) \<Rightarrow> (case draw_sessions expires_at [] players src2 of
            (Inl err, src3) \<Rightarrow> (m\<lparr>m_random := src3\<rparr>, Attempt_Failed err)
          | (Inr None, src3) \<Rightarrow> (m\<lparr>m_random := src3\<rparr>, Attempt_Again)
          | (Inr (Some participants), src3) \<Rightarrow>
              commit_attempt players expires_at deadline match_id room_id participants (m\<lparr>m_random := src3\<rparr>))))"

fun allocate_attempts :: "nat \<Rightarrow> string list \<Rightarrow> time \<Rightarrow> duration \<Rightarrow> 'l manager \<Rightarrow> 'l manager \<times> (lobby_error + match_allocation)" where
  "allocate_attempts 0 players expires_at deadline m = (m, Inl LobbyFatalRandom)"
| "allocate_attempts (Suc n) players expires_at deadline m =
     (case allocate_attempt players expires_at deadline m of
        (m1, Attempt_Failed err) \<Rightarrow> (m1, Inl err)
      | (m1, Attempt_Again) \<Rightarrow> allocate_attempts n players expires_at deadline m1
      | (m1, Attempt_Done allocation) \<Rightarrow> (m1, Inr allocation))"

definition allocate_match :: "string list \<Rightarrow> clock_reading \<Rightarrow> 'l manager \<Rightarrow> 'l manager \<times> (lobby_error + match_allocation)" where
  "allocate_match players reading m =
     (case lobby_deadline_after (mono reading) MatchTTL of
        None \<Rightarrow> (m, Inl LobbyUnavailable)
      | Some deadline \<Rightarrow> allocate_attempts 9 players (wall reading + MatchTTL) deadline m)"

section \<open>Lobbies\<close>

definition lobby_create ::
    "string \<Rightarrow> create_request \<Rightarrow> clock_reading \<Rightarrow> sweep_order \<Rightarrow> 'l manager \<Rightarrow> 'l manager \<times> (lobby_error + lobby_snapshot)" where
  "lobby_create player_id request reading ord m0 =
     (if \<not> valid_id player_id \<or> \<not> valid_create_request request then (m0, Inl LobbyInvalid)
      else (let m = expire_locked reading ord m0 in
        if fmlookup (m_lobby_by_player m) player_id \<noteq> None then (m, Inl LobbyConflict)
        else if fmlookup (m_tickets m) player_id \<noteq> None then (m, Inl LobbyConflict)
        else if len_map (m_lobbies m) \<ge> HardMaxOpenLobbies \<or> m_next_sequence m = max_uint64 then (m, Inl LobbyCapacity)
        else (case unique_id_locked ''l-'' (\<lambda>candidate. fmlookup (m_lobbies m) candidate \<noteq> None) (m_random m) of
            (Inl err, src) \<Rightarrow> (m\<lparr>m_random := src\<rparr>, Inl err)
          | (Inr lobby_id, src) \<Rightarrow> (case lobby_deadline_after (mono reading) DefaultLobbyTTL of
              None \<Rightarrow> (m\<lparr>m_random := src\<rparr>, Inl LobbyInvalid)
            | Some deadline \<Rightarrow>
                (let (sequence, m1) = take_sequence (m\<lparr>m_random := src\<rparr>);
                     r = \<lparr>lr_id = lobby_id, lr_owner_player_id = player_id, lr_queue_key = lq_queue_key request,
                          lr_visibility = the (lq_visibility request), lr_capacity = lq_capacity request,
                          lr_state = LobbyStateOpen, lr_revision = 1, lr_sequence = sequence,
                          lr_created_at = wall reading, lr_expires_at = wall reading + DefaultLobbyTTL,
                          lr_mono_deadline = deadline,
                          lr_members = [(player_id, \<lparr>mr_player_id = player_id, mr_ready = False, mr_join_sequence = sequence\<rparr>)],
                          lr_assignments = []\<rparr>
                 in (m1\<lparr>m_lobbies := fmupd lobby_id r (m_lobbies m1),
                        m_lobby_by_player := fmupd player_id lobby_id (m_lobby_by_player m1)\<rparr>,
                     Inr (snapshot_for r player_id)))))))"

text \<open>\<open>List\<close>; \<open>ids\<close> is the order in which it meets the lobbies that are left after the sweep.\<close>

definition page_records :: "string \<Rightarrow> u64 \<Rightarrow> string list \<Rightarrow> 'l manager \<Rightarrow> lobby_record list" where
  "page_records queue_key after ids m = sort_key lr_sequence
     (filter (\<lambda>r. lr_state r = LobbyStateOpen \<and> lr_visibility r = VisibilityPublic \<and> lr_queue_key r = queue_key \<and>
        lr_sequence r > after) (List.map_filter (fmlookup (m_lobbies m)) ids))"

definition lobby_list ::
    "string \<Rightarrow> string \<Rightarrow> int \<Rightarrow> clock_reading \<Rightarrow> sweep_order \<Rightarrow> string list \<Rightarrow> 'l manager \<Rightarrow> 'l manager \<times> (lobby_error + lobby_page)" where
  "lobby_list queue_key cursor limit reading ord ids m0 =
     (if \<not> valid_id queue_key \<or> limit \<le> 0 \<or> limit > HardMaxListPage then (m0, Inl LobbyInvalid)
      else (case parse_cursor cursor of
          Inl err \<Rightarrow> (m0, Inl LobbyInvalid)
        | Inr after \<Rightarrow>
            (let m = expire_locked reading ord m0;
                 records = page_records queue_key after ids m;
                 has_more = int (length records) > limit;
                 page = (if has_more then take (nat limit) records else records)
             in (m, Inr \<lparr>lp_lobbies = map summary_for page,
                   lp_next_cursor = (if has_more then format_uint (unat (lr_sequence (last page))) else [])\<rparr>))))"

definition lobby_get ::
    "string \<Rightarrow> string \<Rightarrow> clock_reading \<Rightarrow> sweep_order \<Rightarrow> 'l manager \<Rightarrow> 'l manager \<times> (lobby_error + lobby_snapshot)" where
  "lobby_get player_id lobby_id reading ord m0 =
     (if \<not> valid_id player_id \<or> \<not> valid_id lobby_id then (m0, Inl LobbyInvalid)
      else (let m = expire_locked reading ord m0 in
        case fmlookup (m_lobbies m) lobby_id of
          None \<Rightarrow> (m, Inl LobbyNotFound)
        | Some r \<Rightarrow>
            if (lr_visibility r = VisibilityPrivate \<or> lr_state r = LobbyStateMatched) \<and> map_of (lr_members r) player_id = None
            then (m, Inl LobbyNotFound) else (m, Inr (snapshot_for r player_id))))"

text \<open>The opening of \<open>Join\<close>, \<open>Leave\<close>, \<open>SetReady\<close> and \<open>Start\<close>: the checks on the arguments, the sweep, the
  lookup, and the check of state and revision.\<close>

definition with_open_lobby ::
    "string \<Rightarrow> string \<Rightarrow> u64 \<Rightarrow> clock_reading \<Rightarrow> sweep_order \<Rightarrow> 'l manager \<Rightarrow>
     (lobby_record \<Rightarrow> 'l manager \<Rightarrow> 'l manager \<times> (lobby_error + 'r)) \<Rightarrow> 'l manager \<times> (lobby_error + 'r)" where
  "with_open_lobby player_id lobby_id revision reading ord m0 body =
     (if \<not> valid_id player_id \<or> \<not> valid_id lobby_id \<or> revision = 0 then (m0, Inl LobbyInvalid)
      else (let m = expire_locked reading ord m0 in
        case fmlookup (m_lobbies m) lobby_id of
          None \<Rightarrow> (m, Inl LobbyNotFound)
        | Some r \<Rightarrow>
            if lr_state r \<noteq> LobbyStateOpen \<or> lr_revision r \<noteq> revision then (m, Inl LobbyConflict)
            else body r m))"

definition set_lobby :: "string \<Rightarrow> lobby_record \<Rightarrow> 'l manager \<Rightarrow> 'l manager" where
  "set_lobby lobby_id r m = m\<lparr>m_lobbies := fmupd lobby_id r (m_lobbies m)\<rparr>"

definition lobby_join ::
    "string \<Rightarrow> string \<Rightarrow> u64 \<Rightarrow> clock_reading \<Rightarrow> sweep_order \<Rightarrow> 'l manager \<Rightarrow> 'l manager \<times> (lobby_error + lobby_snapshot)" where
  "lobby_join player_id lobby_id revision reading ord m0 =
     with_open_lobby player_id lobby_id revision reading ord m0 (\<lambda>r m.
       if fmlookup (m_lobby_by_player m) player_id \<noteq> None then (m, Inl LobbyConflict)
       else if fmlookup (m_tickets m) player_id \<noteq> None then (m, Inl LobbyConflict)
       else if length (lr_members r) \<ge> unat (lr_capacity r) then (m, Inl LobbyCapacity)
       else if m_next_sequence m = max_uint64 \<or> lr_revision r = max_uint64 then (m, Inl LobbyCapacity)
       else (let (join_sequence, m1) = take_sequence m;
                 r1 = r\<lparr>lr_members := AList.update player_id
                   \<lparr>mr_player_id = player_id, mr_ready = False, mr_join_sequence = join_sequence\<rparr> (lr_members r)\<rparr>;
                 r2 = (reset_ready r1)\<lparr>lr_revision := lr_revision r + 1\<rparr>
             in ((set_lobby lobby_id r2 m1)\<lparr>m_lobby_by_player := fmupd player_id lobby_id (m_lobby_by_player m1)\<rparr>,
                 Inr (snapshot_for r2 player_id))))"

definition lobby_leave ::
    "string \<Rightarrow> string \<Rightarrow> u64 \<Rightarrow> clock_reading \<Rightarrow> sweep_order \<Rightarrow> 'l manager \<Rightarrow> 'l manager \<times> (lobby_error + lobby_snapshot)" where
  "lobby_leave player_id lobby_id revision reading ord m0 =
     with_open_lobby player_id lobby_id revision reading ord m0 (\<lambda>r m.
       if map_of (lr_members r) player_id = None then (m, Inl LobbyNotFound)
       else if lr_revision r = max_uint64 then (m, Inl LobbyCapacity)
       else (let r1 = r\<lparr>lr_members := AList.delete player_id (lr_members r), lr_revision := lr_revision r + 1\<rparr>;
                 m1 = m\<lparr>m_lobby_by_player := fmdrop player_id (m_lobby_by_player m)\<rparr>
             in if lr_members r1 = []
                then (m1\<lparr>m_lobbies := fmdrop lobby_id (m_lobbies m1)\<rparr>,
                      Inr (snapshot_for (r1\<lparr>lr_state := LobbyStateClosed, lr_owner_player_id := []\<rparr>) player_id))
                else (let r2 = (if lr_owner_player_id r1 = player_id
                            then r1\<lparr>lr_owner_player_id := hd (members_in_join_order r1)\<rparr> else r1);
                          r3 = reset_ready r2
                      in (set_lobby lobby_id r3 m1, Inr (snapshot_for r3 player_id)))))"

definition lobby_set_ready ::
    "string \<Rightarrow> string \<Rightarrow> u64 \<Rightarrow> bool \<Rightarrow> clock_reading \<Rightarrow> sweep_order \<Rightarrow> 'l manager \<Rightarrow> 'l manager \<times> (lobby_error + lobby_snapshot)" where
  "lobby_set_ready player_id lobby_id revision ready reading ord m0 =
     with_open_lobby player_id lobby_id revision reading ord m0 (\<lambda>r m.
       case map_of (lr_members r) player_id of
         None \<Rightarrow> (m, Inl LobbyNotFound)
       | Some member \<Rightarrow>
           if mr_ready member = ready then (m, Inr (snapshot_for r player_id))
           else if lr_revision r = max_uint64 then (m, Inl LobbyCapacity)
           else (let r1 = r\<lparr>lr_members := AList.update player_id (member\<lparr>mr_ready := ready\<rparr>) (lr_members r),
                            lr_revision := lr_revision r + 1\<rparr>
                 in (set_lobby lobby_id r1 m, Inr (snapshot_for r1 player_id))))"

definition zero_assignment :: assignment where
  "zero_assignment = \<lparr>as_match_id = [], as_room_id = [], as_player_id = [], as_session_id = [],
     as_grant_id = replicate 16 0, as_grant_secret = replicate 32 0, as_grant_expires_at = zero_time\<rparr>"

text \<open>A lookup in a Go map of assignments.\<close>

definition assignment_for :: "(string \<times> assignment) list \<Rightarrow> string \<Rightarrow> assignment" where
  "assignment_for assignments player_id = (case map_of assignments player_id of None \<Rightarrow> zero_assignment | Some a \<Rightarrow> a)"

definition lobby_start ::
    "string \<Rightarrow> string \<Rightarrow> u64 \<Rightarrow> clock_reading \<Rightarrow> sweep_order \<Rightarrow> 'l manager \<Rightarrow> 'l manager \<times> (lobby_error + assignment)" where
  "lobby_start player_id lobby_id revision reading ord m0 =
     with_open_lobby player_id lobby_id revision reading ord m0 (\<lambda>r m.
       if lr_owner_player_id r \<noteq> player_id then (m, Inl LobbyForbidden)
       else if length (lr_members r) \<noteq> unat (lr_capacity r) \<or> \<not> all_ready r \<or> lr_revision r = max_uint64
       then (m, Inl LobbyConflict)
       else (case allocate_match (members_in_join_order r) reading m of
           (m1, Inl err) \<Rightarrow> (m1, Inl err)
         | (m1, Inr (match_id, room_id, assignments, expires_at, deadline)) \<Rightarrow>
             ((set_lobby lobby_id (r\<lparr>lr_state := LobbyStateMatched, lr_revision := lr_revision r + 1,
                 lr_expires_at := expires_at, lr_mono_deadline := deadline, lr_assignments := assignments\<rparr>) m1)
               \<lparr>m_match_ids := finsert match_id (m_match_ids m1)\<rparr>,
              Inr (assignment_for assignments player_id))))"

definition lobby_expire :: "clock_reading \<Rightarrow> sweep_order \<Rightarrow> 'l manager \<Rightarrow> 'l manager" where
  "lobby_expire reading ord m = expire_locked reading ord m"

end
