(* ===== verification/Lobby_Rooms.thy ===== *)
theory Lobby_Rooms
  imports Lobby_Ops Store_Machine
begin

text \<open>
  What the lobby manager relies on when it calls the store (locale \<open>room_service\<close>), and what follows for
  \<open>allocateMatchLocked\<close>: every allocation that succeeds gives each of its players one assignment, and the
  store that the manager holds keeps its invariant through every call.
\<close>

section \<open>The interface\<close>

text \<open>The assignment of a grant that carries its secret.\<close>

definition assignment_of :: "string \<Rightarrow> string \<Rightarrow> grant_allocation \<Rightarrow> assignment" where
  "assignment_of match_id room_id g =
     \<lparr>as_match_id = match_id, as_room_id = room_id, as_player_id = ga_participant_id g, as_session_id = ga_session_id g,
      as_grant_id = ga_grant_id g, as_grant_secret = the (ga_grant_secret g), as_grant_expires_at = ga_grant_expires_at g\<rparr>"

lemma alist_update_new: "k \<notin> fst ` set al \<Longrightarrow> AList.update k v al = al @ [(k, v)]"
  by (induction al) auto

lemma grant_assignments_map:
  assumes "\<forall>g \<in> set gs. ga_grant_secret g \<noteq> None" and "distinct (map ga_participant_id gs)"
    and "fst ` set acc \<inter> ga_participant_id ` set gs = {}"
  shows "grant_assignments mid rid gs acc = Some (acc @ map (\<lambda>g. (ga_participant_id g, assignment_of mid rid g)) gs)"
  using assms
proof (induction mid rid gs acc rule: grant_assignments.induct)
  case (2 mid rid g gs acc)
  then obtain secret where s: "ga_grant_secret g = Some secret" by auto
  have new: "ga_participant_id g \<notin> fst ` set acc" using 2(4) by auto
  have "grant_assignments mid rid (g # gs) acc =
      grant_assignments mid rid gs (acc @ [(ga_participant_id g, assignment_of mid rid g)])"
    by (simp add: s alist_update_new [OF new] assignment_of_def)
  also have "\<dots> = Some ((acc @ [(ga_participant_id g, assignment_of mid rid g)]) @
      map (\<lambda>g. (ga_participant_id g, assignment_of mid rid g)) gs)"
    using 2(1) [OF s] 2(2-4) new by (auto simp: s alist_update_new [OF new] assignment_of_def)
  finally show ?case by simp
qed simp

locale room_service =
  fixes ok :: "'s \<Rightarrow> bool"
    and create :: "string \<Rightarrow> room_definition \<Rightarrow> clock_reading \<Rightarrow> 's \<Rightarrow> 's \<times> (store_error + allocation \<times> bool)"
    and close :: "string \<Rightarrow> clock_reading \<Rightarrow> 's \<Rightarrow> 's \<times> store_error option"
  assumes create_ok: "ok s \<Longrightarrow> reading_ok r \<Longrightarrow> create rid d r s = (s', res) \<Longrightarrow> ok s'"
    and close_ok: "ok s \<Longrightarrow> close rid r s = (s', err) \<Longrightarrow> ok s'"
    and create_distinct: "ok s \<Longrightarrow> create rid d r s = (s', Inr x) \<Longrightarrow> distinct (map pd_participant_id (rd_participants d))"
    and create_grants: "ok s \<Longrightarrow> reading_ok r \<Longrightarrow> create rid d r s = (s', Inr (al, True)) \<Longrightarrow>
      map ga_participant_id (al_grants al) = map pd_participant_id (sort_key participant_key (rd_participants d)) \<and>
      (\<forall>g \<in> set (al_grants al). ga_grant_secret g \<noteq> None)"
begin

text \<open>A room that was created has one grant with a secret for every player that asked for it: the two
  branches of \<open>allocateMatchLocked\<close> that end the room again are never taken.\<close>

lemma created_assignments:
  assumes "ok s" and "reading_ok r" and "create rid d r s = (s', Inr (al, True))"
  shows "grant_assignments mid rid (al_grants al) [] =
      Some (map (\<lambda>g. (ga_participant_id g, assignment_of mid rid g)) (al_grants al)) \<and>
    distinct (map ga_participant_id (al_grants al)) \<and>
    ga_participant_id ` set (al_grants al) = pd_participant_id ` set (rd_participants d) \<and>
    length (al_grants al) = length (rd_participants d)"
proof -
  note g = create_grants [OF assms]
  have "distinct (map pd_participant_id (sort_key participant_key (rd_participants d)))"
    using create_distinct [OF assms(1,3)] by (simp add: distinct_map)
  moreover have "ga_participant_id ` set (al_grants al) = pd_participant_id ` set (rd_participants d)"
    using arg_cong [OF conjunct1 [OF g], of set] by simp
  moreover have "length (al_grants al) = length (rd_participants d)"
    using arg_cong [OF conjunct1 [OF g], of length] by simp
  ultimately show ?thesis using g by (simp add: grant_assignments_map)
qed

end

lemma create_room_distinct:
  assumes "store_inv s" and "create_room A rid d r s = (s', Inr x)"
  shows "distinct (map pd_participant_id (rd_participants d))"
proof -
  obtain c where "canonical_definition rid d (s_limits s) = Inr c"
    using assms(2) by (auto simp: create_room_def split: sum.splits)
  moreover have "valid_limits (s_limits s)" using assms(1) by (simp add: store_inv_def)
  ultimately show ?thesis by (simp add: canonical_definition_Inr_iff definition_ok_def)
qed

interpretation rooms: room_service store_inv "create_room A" end_room for A :: "'l limiter_api"
proof
  show "store_inv s'" if "store_inv s" "reading_ok r" "create_room A rid d r s = (s', res)"
    for s s' :: "'l store" and r rid d res using that by (rule create_room_inv)
  show "store_inv s'" if "store_inv s" "end_room rid r s = (s', err)"
    for s s' :: "'l store" and r rid err using that by (rule end_room_inv)
  show "distinct (map pd_participant_id (rd_participants d))" if "store_inv s" "create_room A rid d r s = (s', Inr x)"
    for s s' :: "'l store" and r rid d x using that by (rule create_room_distinct)
  show "map ga_participant_id (al_grants al) = map pd_participant_id (sort_key participant_key (rd_participants d)) \<and>
      (\<forall>g \<in> set (al_grants al). ga_grant_secret g \<noteq> None)"
    if "store_inv s" "reading_ok r" "create_room A rid d r s = (s', Inr (al, True))"
    for s s' :: "'l store" and r rid d al using create_room_spec [OF that] by auto
qed

section \<open>The manager's store\<close>

definition relay_inv :: "'l manager \<Rightarrow> bool" where
  "relay_inv m \<longleftrightarrow> store_inv (m_relay m) \<and> (\<forall>k. reading_ok (m_store_clock m k))"

lemma relay_inv_random [simp]: "relay_inv (m\<lparr>m_random := src\<rparr>) = relay_inv m"
  by (simp add: relay_inv_def)

lemma relay_create_room_relay:
  assumes "relay_inv m" and "relay_create_room rid d m = (m', res)"
  shows "relay_inv m'"
  using assms rooms.create_ok by (fastforce simp: relay_inv_def relay_create_room_def split: prod.splits)

lemma relay_end_room_relay: "relay_inv m \<Longrightarrow> relay_inv (relay_end_room rid m)"
  using rooms.close_ok [OF _ surjective_pairing] by (auto simp: relay_inv_def relay_end_room_def)

lemma commit_attempt_relay: "commit_attempt players e d mid rid ps m = (m', res) \<Longrightarrow> relay_inv m \<Longrightarrow> relay_inv m'"
  unfolding commit_attempt_def
  by (auto split: prod.splits sum.splits option.splits if_splits intro: relay_end_room_relay dest: relay_create_room_relay)

lemma allocate_attempt_relay: "allocate_attempt players e d m = (m', res) \<Longrightarrow> relay_inv m \<Longrightarrow> relay_inv m'"
  unfolding allocate_attempt_def
  by (auto split: prod.splits sum.splits option.splits dest!: commit_attempt_relay)

lemma allocate_attempts_relay: "allocate_attempts n players e d m = (m', res) \<Longrightarrow> relay_inv m \<Longrightarrow> relay_inv m'"
  by (induction n players e d m arbitrary: m' res rule: allocate_attempts.induct)
    (auto split: prod.splits attempt_outcome.splits dest: allocate_attempt_relay)

lemma allocate_match_relay: "allocate_match players reading m = (m', res) \<Longrightarrow> relay_inv m \<Longrightarrow> relay_inv m'"
  by (auto simp: allocate_match_def split: option.splits dest: allocate_attempts_relay)

section \<open>What an allocation does\<close>

text \<open>An allocation touches the store, the random source and the clock only.\<close>

definition relay_only :: "'l manager \<Rightarrow> 'l manager \<Rightarrow> bool" where
  "relay_only m m' \<longleftrightarrow> m_limiter m' = m_limiter m \<and> m_store_clock m' = m_store_clock m \<and> m_lobbies m' = m_lobbies m \<and>
     m_lobby_by_player m' = m_lobby_by_player m \<and> m_match_ids m' = m_match_ids m \<and> m_tickets m' = m_tickets m \<and>
     m_queues m' = m_queues m \<and> m_next_sequence m' = m_next_sequence m"

lemma relay_only_simps [simp]:
  "relay_only m m" "relay_only m (m\<lparr>m_random := src\<rparr>)" "relay_only m (relay_end_room rid m)"
  by (simp_all add: relay_only_def relay_end_room_def)

lemma relay_only_trans: "relay_only a b \<Longrightarrow> relay_only b c \<Longrightarrow> relay_only a c"
  by (simp add: relay_only_def)

lemma relay_create_room_only: "relay_create_room rid d m = (m', res) \<Longrightarrow> relay_only m m'"
  by (auto simp: relay_create_room_def relay_only_def split: prod.splits)

lemma relay_only_random: "relay_only (m\<lparr>m_random := src\<rparr>) m' \<longleftrightarrow> relay_only m m'"
  by (simp add: relay_only_def)

lemma commit_attempt_only: "commit_attempt players e d mid rid ps m = (m', res) \<Longrightarrow> relay_only m m'"
  unfolding commit_attempt_def
  by (auto split: prod.splits sum.splits option.splits if_splits dest!: relay_create_room_only
      intro: relay_only_trans relay_only_simps)

lemma allocate_attempt_only: "allocate_attempt players e d m = (m', res) \<Longrightarrow> relay_only m m'"
  unfolding allocate_attempt_def
  by (auto split: prod.splits sum.splits option.splits dest!: commit_attempt_only simp: relay_only_random)

lemma allocate_attempts_only: "allocate_attempts n players e d m = (m', res) \<Longrightarrow> relay_only m m'"
  by (induction n players e d m arbitrary: m' res rule: allocate_attempts.induct)
    (auto split: prod.splits attempt_outcome.splits dest!: allocate_attempt_only intro: relay_only_trans)

lemma allocate_match_only: "allocate_match players reading m = (m', res) \<Longrightarrow> relay_only m m'"
  by (auto simp: allocate_match_def split: option.splits dest: allocate_attempts_only)

text \<open>What a successful allocation has done: one room of the store with one participant per player, in the
  order of the players, each with a session of its own.\<close>

lemma unique_draw_fresh: "unique_draw n prefix taken src = (Inr x, src') \<Longrightarrow> \<not> taken x"
  by (induction n prefix taken src rule: unique_draw.induct) (auto split: prod.splits sum.splits if_splits)

lemma unique_id_locked_fresh: "unique_id_locked prefix taken src = (Inr x, src') \<Longrightarrow> \<not> taken x"
  by (simp add: unique_id_locked_def unique_draw_fresh)

lemma draw_sessions_spec:
  "draw_sessions e sessions players src = (Inr (Some ps), src') \<Longrightarrow>
    map pd_participant_id ps = players \<and> (\<forall>p \<in> set ps. pd_grant_expires_at p = e) \<and>
    distinct (map pd_session_id ps) \<and> set (map pd_session_id ps) \<inter> set sessions = {}"
proof (induction e sessions players src arbitrary: ps src' rule: draw_sessions.induct)
  case (2 e sessions player players src)
  obtain sid src1 where u: "unique_id_locked ''s-'' (\<lambda>c. c \<in> set sessions) src = (Inr sid, src1)"
    using 2(2) by (auto split: prod.splits sum.splits)
  have new: "sid \<notin> set sessions" using unique_id_locked_fresh [OF u] by simp
  obtain qs where qs: "draw_sessions e (sid # sessions) players src1 = (Inr (Some qs), src')"
    "ps = \<lparr>pd_participant_id = player, pd_session_id = sid, pd_grant_expires_at = e\<rparr> # qs"
    using 2(2) u new by (auto split: prod.splits sum.splits option.splits)
  show ?case using 2(1) [OF u [symmetric] refl new qs(1)] new qs(2) by auto
qed simp

definition allocated ::
    "string list \<Rightarrow> time \<Rightarrow> 'l manager \<Rightarrow> 'l manager \<Rightarrow> string \<Rightarrow> string \<Rightarrow> (string \<times> assignment) list \<Rightarrow> bool" where
  "allocated players e m m' match_id room_id assignments \<longleftrightarrow> match_id |\<notin>| m_match_ids m \<and>
     (\<exists>m1 ps al. relay_only m m1 \<and> (relay_inv m \<longrightarrow> relay_inv m1) \<and> relay_create_room room_id \<lparr>rd_capacity = of_nat (length players), rd_expires_at = e,
        rd_participants = ps\<rparr> m1 = (m', Inr (al, True)) \<and> map pd_participant_id ps = players \<and>
        (\<forall>p \<in> set ps. pd_grant_expires_at p = e) \<and> distinct (map pd_session_id ps) \<and>
        grant_assignments match_id room_id (al_grants al) [] = Some assignments \<and> length assignments = length players)"

lemma allocated_before: "relay_only m0 m \<Longrightarrow> (relay_inv m0 \<Longrightarrow> relay_inv m) \<Longrightarrow> allocated players e m m' mid rid asg \<Longrightarrow> allocated players e m0 m' mid rid asg"
proof -
  assume only: "relay_only m0 m" and r: "relay_inv m0 \<Longrightarrow> relay_inv m" and al: "allocated players e m m' mid rid asg"
  have "m_match_ids m0 = m_match_ids m" using only by (simp add: relay_only_def)
  then show ?thesis using al relay_only_trans [OF only] r unfolding allocated_def by auto
qed

lemma commit_attempt_done:
  assumes "commit_attempt players e d mid rid ps m = (m', Attempt_Done (mid', rid', asg, e', d'))"
  shows "mid' = mid \<and> rid' = rid \<and> e' = e \<and> d' = d \<and> (\<exists>al. relay_create_room rid \<lparr>rd_capacity = of_nat (length players),
    rd_expires_at = e, rd_participants = ps\<rparr> m = (m', Inr (al, True)) \<and>
    grant_assignments mid rid (al_grants al) [] = Some asg \<and> length asg = length players)"
  using assms unfolding commit_attempt_def by (auto split: prod.splits sum.splits option.splits if_splits)

lemma allocate_attempt_done:
  assumes "allocate_attempt players e d m = (m', Attempt_Done (mid, rid, asg, e', d'))"
  shows "allocated players e m m' mid rid asg \<and> e' = e \<and> d' = d"
proof -
  obtain mid0 src1 rid0 src2 ps src3 where u: "unique_id_locked ''m-'' (\<lambda>c. c |\<in>| m_match_ids m) (m_random m) = (Inr mid0, src1)"
    and dr: "draw_sessions e [] players src2 = (Inr (Some ps), src3)"
    and c: "commit_attempt players e d mid0 rid0 ps (m\<lparr>m_random := src3\<rparr>) = (m', Attempt_Done (mid, rid, asg, e', d'))"
    using assms unfolding allocate_attempt_def by (auto split: prod.splits sum.splits option.splits)
  have "mid0 |\<notin>| m_match_ids m" using unique_id_locked_fresh [OF u] by simp
  then show ?thesis
    using commit_attempt_done [OF c] draw_sessions_spec [OF dr] relay_only_simps(2) relay_inv_random unfolding allocated_def by blast
qed

lemma allocate_attempts_done:
  "allocate_attempts n players e d m = (m', Inr (mid, rid, asg, e', d')) \<Longrightarrow>
     allocated players e m m' mid rid asg \<and> e' = e \<and> d' = d"
proof (induction n players e d m rule: allocate_attempts.induct)
  case (2 n players e d m)
  obtain m1 out where a: "allocate_attempt players e d m = (m1, out)" by fastforce
  show ?case
  proof (cases out)
    case Attempt_Again
    then show ?thesis using 2 a allocated_before [OF allocate_attempt_only [OF a] allocate_attempt_relay [OF a]] by fastforce
  next
    case (Attempt_Done x)
    then have "allocate_attempt players e d m = (m', Attempt_Done (mid, rid, asg, e', d'))" using 2(2) a by simp
    then show ?thesis by (rule allocate_attempt_done)
  qed (use 2(2) a in simp)
qed simp

lemma create_room_some_participant:
  assumes "create_room A rid d reading st = (st', Inr x)"
  shows "rd_participants d \<noteq> []"
  using assms by (auto simp: create_room_def canonical_definition_def split: sum.splits if_splits)

text \<open>The store accepts no room without participants: the loop of \<open>matchQueueLocked\<close> shrinks the queue.\<close>

lemma allocated_nonempty:
  assumes "allocated players e m m' mid rid asg"
  shows "players \<noteq> []"
proof -
  obtain m1 ps al where "relay_create_room rid \<lparr>rd_capacity = of_nat (length players), rd_expires_at = e,
      rd_participants = ps\<rparr> m1 = (m', Inr (al, True))" and ps: "map pd_participant_id ps = players"
    using assms unfolding allocated_def by blast
  then have "ps \<noteq> []"
    using create_room_some_participant by (fastforce simp: relay_create_room_def split: prod.splits)
  then show ?thesis using ps by auto
qed

lemma allocate_match_done:
  assumes "allocate_match players reading m = (m', Inr (mid, rid, asg, e, d))"
  shows "allocated players (wall reading + MatchTTL) m m' mid rid asg \<and> e = wall reading + MatchTTL \<and>
    lobby_deadline_after (mono reading) MatchTTL = Some d"
  using assms by (auto simp: allocate_match_def split: option.splits dest: allocate_attempts_done)

lemma allocate_match_nonempty:
  assumes "allocate_match players reading m = (m', Inr x)"
  shows "players \<noteq> []"
proof -
  obtain mid rid asg e d where "x = (mid, rid, asg, e, d)" by (cases x)
  then show ?thesis using allocate_match_done assms allocated_nonempty by metis
qed

section \<open>The assignments of a match\<close>

definition assigned :: "string list \<Rightarrow> string \<Rightarrow> string \<Rightarrow> (string \<times> assignment) list \<Rightarrow> bool" where
  "assigned players match_id room_id assignments \<longleftrightarrow> distinct (map fst assignments) \<and> fst ` set assignments = set players \<and>
     distinct players \<and> length assignments = length players \<and>
     (\<forall>(p, a) \<in> set assignments. as_player_id a = p \<and> as_match_id a = match_id \<and> as_room_id a = room_id)"

lemma assignment_for_assigned:
  assumes "assigned players mid rid asg" and "p \<in> set players"
  shows "(p, assignment_for asg p) \<in> set asg" and "as_player_id (assignment_for asg p) = p"
    and "as_match_id (assignment_for asg p) = mid" and "as_room_id (assignment_for asg p) = rid"
proof -
  have "p \<in> fst ` set asg" using assms by (simp add: assigned_def)
  then obtain a where a: "map_of asg p = Some a" by (auto simp: map_of_eq_None_iff [symmetric] image_iff
      dest: weak_map_of_SomeI)
  then have "(p, a) \<in> set asg" by (rule map_of_SomeD)
  then show "(p, assignment_for asg p) \<in> set asg" "as_player_id (assignment_for asg p) = p"
    "as_match_id (assignment_for asg p) = mid" "as_room_id (assignment_for asg p) = rid"
    using assms(1) a by (auto simp: assignment_for_def assigned_def)
qed

lemma allocate_match_assigned:
  assumes inv: "relay_inv m" and al: "allocate_match players reading m = (m', Inr (mid, rid, asg, e, d))"
  shows "assigned players mid rid asg"
proof -
  have "allocated players (wall reading + MatchTTL) m m' mid rid asg" using allocate_match_done [OF al] by simp
  then obtain m1 ps alc where r1: "relay_inv m1" and ps: "map pd_participant_id ps = players"
    and cr: "relay_create_room rid \<lparr>rd_capacity = of_nat (length players), rd_expires_at = wall reading + MatchTTL,
      rd_participants = ps\<rparr> m1 = (m', Inr (alc, True))"
    and ga: "grant_assignments mid rid (al_grants alc) [] = Some asg"
    using inv unfolding allocated_def by blast
  obtain st where "create_room (m_limiter m1) rid \<lparr>rd_capacity = of_nat (length players),
      rd_expires_at = wall reading + MatchTTL, rd_participants = ps\<rparr> (m_store_clock m1 (m_calls m1)) (m_relay m1) =
      (st, Inr (alc, True))"
    using cr by (auto simp: relay_create_room_def split: prod.splits)
  note made = rooms.created_assignments [OF _ _ this, where mid = mid] and dist = rooms.create_distinct [OF _ this]
  have "asg = map (\<lambda>g. (ga_participant_id g, assignment_of mid rid g)) (al_grants alc)"
    and "distinct (map ga_participant_id (al_grants alc))" "ga_participant_id ` set (al_grants alc) = set players"
    and "length (al_grants alc) = length players"
    using r1 made ga ps by (auto simp: relay_inv_def)
  moreover have "distinct players" using r1 dist ps by (simp add: relay_inv_def)
  ultimately show ?thesis by (auto simp: assigned_def comp_def assignment_of_def image_image)
qed
section \<open>The credentials of a match\<close>

text \<open>The credentials of an assignment are those of an issued grant of an open room of the store.\<close>

definition assignment_live :: "'l store \<Rightarrow> assignment \<Rightarrow> bool" where
  "assignment_live st a \<longleftrightarrow> (\<exists>g room. s_grants_by_id st (as_grant_id a) = Some g \<and>
     fmlookup (s_rooms st) (as_room_id a) = Some room \<and> r_state room = roomStateOpen \<and> g \<in> set (r_grants room) \<and>
     g_room_id (s_heap st g) = as_room_id a \<and> g_participant_id (s_heap st g) = as_player_id a \<and>
     g_session_id (s_heap st g) = as_session_id a \<and> g_secret (s_heap st g) = Some (as_grant_secret a) \<and>
     g_state (s_heap st g) = GrantStateIssued \<and> g_expires_at (s_heap st g) = as_grant_expires_at a)"

lemma create_room_live:
  assumes pre: "store_inv st" "reading_ok reading" and cr: "create_room A rid d reading st = (st', Inr (al, True))"
    and ga: "ga \<in> set (al_grants al)"
  shows "assignment_live st' (assignment_of mid rid ga)"
proof -
  obtain c st0 rd grants src where c: "canonical_definition rid d (s_limits st) = Inr c" and st0: "st0 = st\<lparr>s_rooms := fmdrop rid (s_rooms st)\<rparr>"
    and com: "commits A rid c reading st0 rd grants" and st': "st' = commit_room rid (new_room A (s_limits st) c (wall reading) rd) grants (st0\<lparr>s_random := src\<rparr>)"
    and al: "al = allocation_at (s_heap st') rid (new_room A (s_limits st) c (wall reading) rd
       [s_next st ..< s_next st + length grants]) (mono reading)"
    using create_room_success [OF pre cr] by (elim exE conjE)
  have nx: "s_next st0 = s_next st" by (simp add: st0)
  define refs where "refs = [s_next st ..< s_next st + length grants]"
  note heap = created_heap [where rid = rid and room = "new_room A (s_limits st) c (wall reading) rd" and
      grants = grants and ?st0.0 = st0 and src = src, folded st', unfolded nx, folded refs_def]
  obtain g where g: "g \<in> set refs" "ga = grant_allocation_at (s_heap st' g) (mono reading)"
    using ga by (auto simp: al allocation_at_def new_room_def refs_def)
  have gr: "s_heap st' g \<in> set grants" using g(1) arg_cong [OF heap(1), of set] by (metis image_eqI list.set_map)
  have stg: "list_all2 (staged_ok A st0 rid [])
     (map (\<lambda>p. (p, mono reading + time_sub (pd_grant_expires_at p) (wall reading))) (rd_participants c)) grants"
    using com by (simp only: commits_def)
  obtain pd where "staged_ok A st0 rid [] pd (s_heap st' g)" using list_all2_in_set2 [OF stg gr] by blast
  then obtain i s where new: "s_heap st' g = new_grant A (s_limits st0) rid (fst pd) (snd pd) i s"
    by (auto simp: staged_ok_def)
  have "map (\<lambda>g. g_id (s_heap st' g)) refs = map g_id (map (s_heap st') refs)" by simp
  then have "distinct (map (\<lambda>g. g_id (s_heap st' g)) refs)"
    using commits_participants(3) [OF com] by (simp only: heap(1))
  from index_fold_upd [OF this, of "s_grants_by_id st0" "g_id (s_heap st' g)" g]
  have idx: "s_grants_by_id st' (g_id (s_heap st' g)) = Some g"
    using g(1) by (simp add: st' commit_room_def Let_def refs_def nx)
  have "ga_state ga = GrantStateIssued" using create_room_spec [OF pre cr] ga by blast
  then have "ga_grant_secret ga = g_secret (s_heap st' g)" by (simp add: g(2) grant_allocation_at_def Let_def)
  then have "the (ga_grant_secret ga) = s" by (simp add: new new_grant_def)
  moreover have "fmlookup (s_rooms st') rid = Some (new_room A (s_limits st) c (wall reading) rd refs)"
    by (simp add: heap(2))
  ultimately show ?thesis
    unfolding assignment_live_def using idx g
    by (intro exI [of _ g] exI [of _ "new_room A (s_limits st) c (wall reading) rd refs"])
      (simp add: assignment_of_def grant_allocation_at_def Let_def new new_grant_def new_room_def)
qed

lemma allocate_match_live:
  assumes inv: "relay_inv m" and al: "allocate_match players reading m = (m', Inr (mid, rid, asg, e, d))"
    and a: "(p, a) \<in> set asg"
  shows "assignment_live (m_relay m') a"
proof -
  have "allocated players (wall reading + MatchTTL) m m' mid rid asg" using allocate_match_done [OF al] by simp
  then obtain m1 ps alc where r1: "relay_inv m1"
    and cr: "relay_create_room rid \<lparr>rd_capacity = of_nat (length players), rd_expires_at = wall reading + MatchTTL,
      rd_participants = ps\<rparr> m1 = (m', Inr (alc, True))"
    and ga: "grant_assignments mid rid (al_grants alc) [] = Some asg"
    using inv unfolding allocated_def by blast
  have pre: "store_inv (m_relay m1)" "reading_ok (m_store_clock m1 (m_calls m1))" using r1 by (simp_all add: relay_inv_def)
  have cr': "create_room (m_limiter m1) rid \<lparr>rd_capacity = of_nat (length players),
      rd_expires_at = wall reading + MatchTTL, rd_participants = ps\<rparr> (m_store_clock m1 (m_calls m1)) (m_relay m1) =
      (m_relay m', Inr (alc, True))"
    using cr by (auto simp: relay_create_room_def split: prod.splits)
  obtain g where "g \<in> set (al_grants alc)" "a = assignment_of mid rid g"
    using a ga rooms.created_assignments [OF pre cr', where mid = mid] by auto
  then show ?thesis using create_room_live [OF pre cr'] by simp
qed

end
