(* ===== verification/Lobby_Match.thy ===== *)
theory Lobby_Match
  imports Lobby_Rooms
begin

text \<open>
  \<open>internal/lobby/match.go\<close>: tickets and queues. A queue is matched from its head, as long as it holds at
  least as many players as its capacity asks for; a match allocates a room of the store.
  \<open>Enqueue\<close> dereferences the tickets of the players it matches: it returns \<^const>\<open>None\<close> if one were nil (a panic).
\<close>

section \<open>The queue\<close>

definition compact_queue :: "queue_key \<Rightarrow> 'l manager \<Rightarrow> 'l manager" where
  "compact_queue key m = (case fmlookup (m_queues m) key of
     None \<Rightarrow> m
   | Some queued \<Rightarrow>
       (let kept = filter (\<lambda>p. case fmlookup (m_tickets m) p of
              None \<Rightarrow> False
            | Some t \<Rightarrow> tr_state t = TicketStateQueued \<and> tr_queue_key t = qk_queue_key key \<and> tr_capacity t = qk_capacity key) queued
        in m\<lparr>m_queues := (if kept = [] then fmdrop key (m_queues m) else fmupd key kept (m_queues m))\<rparr>))"

text \<open>The loop that marks the tickets of the matched players.\<close>

fun mark_matched :: "(string \<times> assignment) list \<Rightarrow> time \<Rightarrow> duration \<Rightarrow> string list \<Rightarrow> 'l manager \<Rightarrow> 'l manager option" where
  "mark_matched assignments expires_at deadline [] m = Some m"
| "mark_matched assignments expires_at deadline (p # ps) m = (case fmlookup (m_tickets m) p of
     None \<Rightarrow> None
   | Some t \<Rightarrow> mark_matched assignments expires_at deadline ps
       (m\<lparr>m_tickets := fmupd p (t\<lparr>tr_state := TicketStateMatched, tr_revision := tr_revision t + 1,
            tr_expires_at := expires_at, tr_mono_deadline := deadline,
            tr_assignment := Some (assignment_for assignments p)\<rparr>) (m_tickets m)\<rparr>))"

text \<open>The loop of \<open>matchQueueLocked\<close>; \<open>queue\<close> is what the queue of the key holds.\<close>

function (sequential) match_loop ::
    "queue_key \<Rightarrow> clock_reading \<Rightarrow> string list \<Rightarrow> 'l manager \<Rightarrow> ('l manager \<times> lobby_error option) option" where
  "match_loop key reading queue m =
     (if length queue < unat (qk_capacity key) then Some (m, None)
      else (let players = take (unat (qk_capacity key)) queue in
        case allocate_match players reading m of
          (m1, Inl err) \<Rightarrow> Some (m1, Some err)
        | (m1, Inr (match_id, room_id, assignments, expires_at, deadline)) \<Rightarrow>
            (case mark_matched assignments expires_at deadline players m1 of
               None \<Rightarrow> None
             | Some m2 \<Rightarrow>
                 (let remaining = drop (unat (qk_capacity key)) queue;
                      m3 = m2\<lparr>m_match_ids := finsert match_id (m_match_ids m2)\<rparr>
                  in if remaining = [] then Some (m3\<lparr>m_queues := fmdrop key (m_queues m3)\<rparr>, None)
                     else match_loop key reading remaining (m3\<lparr>m_queues := fmupd key remaining (m_queues m3)\<rparr>)))))"
  by pat_completeness auto
termination
  apply (relation "measure (\<lambda>(key, reading, queue, m). length queue)")
   apply simp
  subgoal premises prems for key reading queue m
  proof -
    have "take (unat (qk_capacity key)) queue \<noteq> []"
      using allocate_match_nonempty prems by (metis old.prod.exhaust)
    then show ?thesis using prems by (auto simp: not_less)
  qed
  done
declare match_loop.simps [simp del]

definition match_queue :: "queue_key \<Rightarrow> clock_reading \<Rightarrow> 'l manager \<Rightarrow> ('l manager \<times> lobby_error option) option" where
  "match_queue key reading m0 =
     (let m = compact_queue key m0 in
      match_loop key reading (case fmlookup (m_queues m) key of None \<Rightarrow> [] | Some q \<Rightarrow> q) m)"

section \<open>Tickets\<close>

text \<open>\<open>Enqueue\<close>. A failed match leaves the ticket in its queue: only the answer is an error.\<close>

definition enqueue ::
    "string \<Rightarrow> enqueue_request \<Rightarrow> clock_reading \<Rightarrow> sweep_order \<Rightarrow> 'l manager \<Rightarrow> ('l manager \<times> (lobby_error + ticket_snapshot)) option" where
  "enqueue player_id request reading ord m0 =
     (if \<not> valid_id player_id \<or> \<not> valid_enqueue_request request then Some (m0, Inl LobbyInvalid)
      else (let m = expire_locked reading ord m0 in
        if fmlookup (m_lobby_by_player m) player_id \<noteq> None then Some (m, Inl LobbyConflict)
        else if fmlookup (m_tickets m) player_id \<noteq> None then Some (m, Inl LobbyConflict)
        else if len_map (m_tickets m) \<ge> HardMaxTickets \<or> m_next_sequence m = max_uint64 then Some (m, Inl LobbyCapacity)
        else (case unique_id_locked ''t-'' (\<lambda>candidate. \<not> fmpred (\<lambda>p t. tr_id t \<noteq> candidate) (m_tickets m)) (m_random m) of
            (Inl err, src) \<Rightarrow> Some (m\<lparr>m_random := src\<rparr>, Inl err)
          | (Inr ticket_id, src) \<Rightarrow> (case lobby_deadline_after (mono reading) TicketTTL of
              None \<Rightarrow> Some (m\<lparr>m_random := src\<rparr>, Inl LobbyInvalid)
            | Some deadline \<Rightarrow>
                (let (sequence, m1) = take_sequence (m\<lparr>m_random := src\<rparr>);
                     t = \<lparr>tr_id = ticket_id, tr_player_id = player_id, tr_queue_key = eq_queue_key request,
                          tr_capacity = eq_capacity request, tr_state = TicketStateQueued, tr_revision = 1,
                          tr_sequence = sequence, tr_expires_at = wall reading + TicketTTL, tr_mono_deadline = deadline,
                          tr_assignment = None\<rparr>;
                     key = \<lparr>qk_queue_key = eq_queue_key request, qk_capacity = eq_capacity request\<rparr>;
                     queued = (case fmlookup (m_queues m1) key of None \<Rightarrow> [] | Some q \<Rightarrow> q);
                     m2 = m1\<lparr>m_tickets := fmupd player_id t (m_tickets m1),
                             m_queues := fmupd key (queued @ [player_id]) (m_queues m1)\<rparr>
                 in case match_queue key reading m2 of
                      None \<Rightarrow> None
                    | Some (m3, Some err) \<Rightarrow> Some (m3, Inl err)
                    | Some (m3, None) \<Rightarrow> map_option (\<lambda>record. (m3, Inr (ticket_snapshot_of record)))
                        (fmlookup (m_tickets m3) player_id))))))"

definition get_ticket ::
    "string \<Rightarrow> clock_reading \<Rightarrow> sweep_order \<Rightarrow> 'l manager \<Rightarrow> 'l manager \<times> (lobby_error + ticket_snapshot)" where
  "get_ticket player_id reading ord m0 =
     (if \<not> valid_id player_id then (m0, Inl LobbyInvalid)
      else (let m = expire_locked reading ord m0 in
        case fmlookup (m_tickets m) player_id of
          None \<Rightarrow> (m, Inl LobbyNotFound)
        | Some t \<Rightarrow> (m, Inr (ticket_snapshot_of t))))"

definition cancel_ticket ::
    "string \<Rightarrow> u64 \<Rightarrow> clock_reading \<Rightarrow> sweep_order \<Rightarrow> 'l manager \<Rightarrow> 'l manager \<times> (lobby_error + ticket_snapshot)" where
  "cancel_ticket player_id revision reading ord m0 =
     (if \<not> valid_id player_id \<or> revision = 0 then (m0, Inl LobbyInvalid)
      else (let m = expire_locked reading ord m0 in
        case fmlookup (m_tickets m) player_id of
          None \<Rightarrow> (m, Inl LobbyNotFound)
        | Some t \<Rightarrow>
            if tr_state t \<noteq> TicketStateQueued \<or> tr_revision t \<noteq> revision \<or> tr_revision t = max_uint64
            then (m, Inl LobbyConflict)
            else (let t' = t\<lparr>tr_state := TicketStateCancelled, tr_revision := tr_revision t + 1\<rparr>
                  in (remove_queued_player (ticket_key t') player_id (m\<lparr>m_tickets := fmdrop player_id (m_tickets m)\<rparr>),
                      Inr (ticket_snapshot_of t')))))"

end
