(* ===== verification/Lobby_Inv.thy ===== *)
theory Lobby_Inv
  imports Lobby_Match
begin

text \<open>
  The invariant of \<open>lobby.Manager\<close>, and its preservation by every operation: the lobbies and the index of
  players agree, nobody is in two lobbies or both in a lobby and in a queue, every queued ticket stands
  exactly once in the queue of its key, and the bounds of the two tables hold.
\<close>

section \<open>The invariant\<close>

definition players_of :: "lobby_record \<Rightarrow> string set" where
  "players_of r = fst ` set (lr_members r)"

definition assignments_ok :: "lobby_record \<Rightarrow> bool" where
  "assignments_ok r \<longleftrightarrow> (case lr_state r of
     LobbyStateOpen \<Rightarrow> lr_assignments r = []
   | LobbyStateMatched \<Rightarrow> fst ` set (lr_assignments r) = players_of r \<and>
       (\<exists>match_id room_id. \<forall>(p, a) \<in> set (lr_assignments r).
          as_match_id a = match_id \<and> as_room_id a = room_id \<and> as_player_id a = p)
   | LobbyStateClosed \<Rightarrow> False)"

definition lobby_ok :: "(string, string) fmap \<Rightarrow> u64 \<Rightarrow> string \<Rightarrow> lobby_record \<Rightarrow> bool" where
  "lobby_ok B n lobby_id r \<longleftrightarrow> lr_id r = lobby_id \<and> lr_revision r \<noteq> 0 \<and> lr_sequence r < n \<and>
     2 \<le> unat (lr_capacity r) \<and> unat (lr_capacity r) \<le> 16 \<and>
     lr_members r \<noteq> [] \<and> length (lr_members r) \<le> unat (lr_capacity r) \<and>
     distinct (map fst (lr_members r)) \<and> distinct (map (mr_join_sequence \<circ> snd) (lr_members r)) \<and>
     (\<forall>(p, mr) \<in> set (lr_members r). mr_player_id mr = p \<and> mr_join_sequence mr < n \<and> fmlookup B p = Some lobby_id) \<and>
     lr_owner_player_id r \<in> players_of r \<and> assignments_ok r"

definition lobbies_inv :: "(string, string) fmap \<Rightarrow> (string, lobby_record) fmap \<Rightarrow> u64 \<Rightarrow> bool" where
  "lobbies_inv B L n \<longleftrightarrow>
     (\<forall>i r. fmlookup L i = Some r \<longrightarrow> lobby_ok B n i r) \<and>
     (\<forall>p i. fmlookup B p = Some i \<longrightarrow> (\<exists>r. fmlookup L i = Some r \<and> p \<in> players_of r)) \<and>
     (\<forall>i r j s. fmlookup L i = Some r \<and> fmlookup L j = Some s \<and> lr_sequence r = lr_sequence s \<longrightarrow> i = j)"

definition ticket_ok :: "u64 \<Rightarrow> string \<Rightarrow> ticket_record \<Rightarrow> bool" where
  "ticket_ok n p t \<longleftrightarrow> tr_player_id t = p \<and> tr_revision t \<noteq> 0 \<and> tr_sequence t < n \<and>
     2 \<le> unat (tr_capacity t) \<and> unat (tr_capacity t) \<le> 16 \<and>
     (case tr_state t of
        TicketStateQueued \<Rightarrow> tr_assignment t = None \<and> tr_revision t = 1
      | TicketStateMatched \<Rightarrow> (\<exists>a. tr_assignment t = Some a \<and> as_player_id a = p)
      | _ \<Rightarrow> False)"

definition queue_of :: "(queue_key, string list) fmap \<Rightarrow> queue_key \<Rightarrow> string list" where
  "queue_of Q key = (case fmlookup Q key of None \<Rightarrow> [] | Some q \<Rightarrow> q)"

definition tickets_inv :: "(string, ticket_record) fmap \<Rightarrow> (queue_key, string list) fmap \<Rightarrow> u64 \<Rightarrow> bool" where
  "tickets_inv T Q n \<longleftrightarrow>
     (\<forall>p t. fmlookup T p = Some t \<longrightarrow> ticket_ok n p t) \<and>
     (\<forall>key p. p \<in> set (queue_of Q key) \<longleftrightarrow>
        (\<exists>t. fmlookup T p = Some t \<and> tr_state t = TicketStateQueued \<and> ticket_key t = key)) \<and>
     (\<forall>key. distinct (queue_of Q key)) \<and> (\<forall>key. fmlookup Q key \<noteq> Some [])"

definition exclusive :: "(string, string) fmap \<Rightarrow> (string, ticket_record) fmap \<Rightarrow> bool" where
  "exclusive B T \<longleftrightarrow> (\<forall>p. fmlookup B p = None \<or> fmlookup T p = None)"

definition tables_inv :: "'l manager \<Rightarrow> bool" where
  "tables_inv m \<longleftrightarrow> lobbies_inv (m_lobby_by_player m) (m_lobbies m) (m_next_sequence m) \<and>
     tickets_inv (m_tickets m) (m_queues m) (m_next_sequence m) \<and> exclusive (m_lobby_by_player m) (m_tickets m) \<and>
     len_map (m_lobbies m) \<le> HardMaxOpenLobbies \<and> len_map (m_tickets m) \<le> HardMaxTickets"

definition manager_inv :: "'l manager \<Rightarrow> bool" where
  "manager_inv m \<longleftrightarrow> tables_inv m \<and> relay_inv m"

lemma relay_only_tables: "relay_only m m' \<Longrightarrow> tables_inv m' = tables_inv m"
  by (simp add: relay_only_def tables_inv_def)

lemma relay_end_room_inv: "manager_inv m \<Longrightarrow> manager_inv (relay_end_room rid m)"
  by (simp add: manager_inv_def relay_end_room_relay relay_only_tables [OF relay_only_simps(3)])

lemma manager_inv_fields [simp]:
  "manager_inv (m\<lparr>m_match_ids := ids\<rparr>) = manager_inv m" "manager_inv (m\<lparr>m_random := src\<rparr>) = manager_inv m"
  by (simp_all add: manager_inv_def tables_inv_def relay_inv_def)

lemma manager_new_inv:
  assumes "manager_new A relay clock random = Inr m" and "\<And>st. relay = Some st \<Longrightarrow> store_inv st" and "\<And>k. reading_ok (clock k)"
  shows "manager_inv m"
  using assms
  by (auto simp: manager_new_def manager_inv_def tables_inv_def relay_inv_def lobbies_inv_def tickets_inv_def exclusive_def
      queue_of_def HardMaxOpenLobbies_def HardMaxTickets_def split: option.splits)

section \<open>Changing one lobby\<close>

lemma lobby_member_index: "lobby_ok B n i r \<Longrightarrow> q \<in> players_of r \<Longrightarrow> fmlookup B q = Some i"
  by (fastforce simp: lobby_ok_def players_of_def)

lemma lobby_ok_reindex: "lobby_ok B n i r \<Longrightarrow> (\<And>q. q \<in> players_of r \<Longrightarrow> fmlookup B' q = Some i) \<Longrightarrow> lobby_ok B' n i r"
proof -
  assume ok: "lobby_ok B n i r" and at: "\<And>q. q \<in> players_of r \<Longrightarrow> fmlookup B' q = Some i"
  have "fmlookup B' p = Some i" if "(p, mr) \<in> set (lr_members r)" for p mr
    using at [of p] that by (force simp: players_of_def)
  then have "\<forall>(p, mr) \<in> set (lr_members r). fmlookup B' p = Some i" by blast
  then show ?thesis using ok unfolding lobby_ok_def by (auto simp: case_prod_unfold)
qed

lemma lobbies_inv_lookup: "lobbies_inv B L n \<Longrightarrow> fmlookup L i = Some r \<Longrightarrow> lobby_ok B n i r"
  by (simp add: lobbies_inv_def)

lemma lobbies_inv_indexed: "lobbies_inv B L n \<Longrightarrow> fmlookup B p = Some i \<Longrightarrow> \<exists>r. fmlookup L i = Some r \<and> p \<in> players_of r"
  by (simp add: lobbies_inv_def)

lemma lobby_ok_later: "lobby_ok B n i r \<Longrightarrow> n \<le> n' \<Longrightarrow> lobby_ok B n' i r"
  unfolding lobby_ok_def by (auto intro: less_le_trans)

lemma lobbies_inv_sequence:
  assumes "lobbies_inv B L n" and "fmlookup L i = Some r" "fmlookup L j = Some s" "lr_sequence r = lr_sequence s"
  shows "i = j"
  using assms(1) [unfolded lobbies_inv_def, THEN conjunct2, THEN conjunct2, rule_format, of i r j s] assms(2-4) by simp

lemma lobbies_invI:
  assumes "\<And>i r. fmlookup L i = Some r \<Longrightarrow> lobby_ok B n i r"
    and "\<And>p i. fmlookup B p = Some i \<Longrightarrow> \<exists>r. fmlookup L i = Some r \<and> p \<in> players_of r"
    and "\<And>i r j s. fmlookup L i = Some r \<Longrightarrow> fmlookup L j = Some s \<Longrightarrow> lr_sequence r = lr_sequence s \<Longrightarrow> i = j"
  shows "lobbies_inv B L n"
  unfolding lobbies_inv_def using assms(1,2) by (intro conjI allI impI) (simp_all, blast intro: assms(3))

text \<open>A lobby written under its identifier; only the players that it gains or loses change in the index.\<close>

lemma lobbies_inv_set:
  assumes inv: "lobbies_inv B L n" and n: "n \<le> n'" and ok: "lobby_ok B' n' i r'"
    and old: "old = (case fmlookup L i of None \<Rightarrow> {} | Some r \<Rightarrow> players_of r)"
    and gain: "\<And>q. q \<in> players_of r' - old \<Longrightarrow> fmlookup B q = None"
    and lose: "\<And>q. q \<in> old - players_of r' \<Longrightarrow> fmlookup B' q = None"
    and frame: "\<And>q. q \<notin> old \<union> players_of r' \<Longrightarrow> fmlookup B' q = fmlookup B q"
    and seq: "\<And>j s. fmlookup L j = Some s \<Longrightarrow> lr_sequence s = lr_sequence r' \<Longrightarrow> j = i"
  shows "lobbies_inv B' (fmupd i r' L) n'"
proof -
  have B_old: "fmlookup B q = Some i" if "q \<in> old" for q
    using that lobbies_inv_lookup [OF inv] lobby_member_index by (fastforce simp: old split: option.splits)
  have other: "fmlookup B' q = fmlookup B q" if "fmlookup B q = Some j" "j \<noteq> i" for q j
    using that B_old gain [of q] frame [of q] by force
  have others: "lobby_ok B' n' j s" if "fmlookup L j = Some s" "j \<noteq> i" for j s
  proof -
    have s: "lobby_ok B n' j s" using lobby_ok_later [OF lobbies_inv_lookup [OF inv that(1)] n] .
    show ?thesis
    proof (rule lobby_ok_reindex [OF s])
      fix q assume "q \<in> players_of s"
      then have "fmlookup B q = Some j" by (rule lobby_member_index [OF lobbies_inv_lookup [OF inv that(1)]])
      then show "fmlookup B' q = Some j" using other \<open>j \<noteq> i\<close> by simp
    qed
  qed
  have indexed: "\<exists>r. fmlookup (fmupd i r' L) j = Some r \<and> p \<in> players_of r" if "fmlookup B' p = Some j" for p j
  proof (cases "p \<in> players_of r'")
    case True
    then have "fmlookup B' p = Some i" using lobby_member_index [OF ok] by simp
    then show ?thesis using that True by simp
  next
    case False
    then have "p \<notin> old" using lose [of p] that by auto
    then have B: "fmlookup B p = Some j" using frame [of p] False that by simp
    then obtain s where s: "fmlookup L j = Some s" "p \<in> players_of s" using lobbies_inv_indexed [OF inv] by blast
    have "j \<noteq> i" using s \<open>p \<notin> old\<close> by (auto simp: old)
    with s show ?thesis by simp
  qed
  have sequences: "j = k" if "fmlookup (fmupd i r' L) j = Some r" "fmlookup (fmupd i r' L) k = Some s"
      "lr_sequence r = lr_sequence s" for j k r s
  proof -
    have at: "if j = i then r = r' else fmlookup L j = Some r" "if k = i then s = r' else fmlookup L k = Some s"
      using that(1,2) by (auto split: if_splits)
    consider "j = i" "k = i" | "j = i" "k \<noteq> i" | "j \<noteq> i" "k = i" | "j \<noteq> i" "k \<noteq> i" by blast
    then show ?thesis
    proof cases
      case 2
      then have "k = i" using at that(3) by (intro seq [of k s]) simp_all
      then show ?thesis using 2 by simp
    next
      case 3
      then have "j = i" using at that(3) by (intro seq [of j r]) simp_all
      then show ?thesis using 3 by simp
    next
      case 4
      then show ?thesis using at that(3) by (intro lobbies_inv_sequence [OF inv, of j r k s]) simp_all
    qed simp
  qed
  have "lobby_ok B' n' j s" if "fmlookup (fmupd i r' L) j = Some s" for j s
    using that ok others [of j s] by (cases "j = i") simp_all
  then show ?thesis using indexed sequences by (rule lobbies_invI)
qed

lemma lobbies_inv_drop:
  assumes inv: "lobbies_inv B L n" and i: "fmlookup L i = Some r"
    and B': "\<And>q. fmlookup B' q = (if q \<in> players_of r then None else fmlookup B q)"
  shows "lobbies_inv B' (fmdrop i L) n"
proof -
  have "fmlookup B q = Some i" if "q \<in> players_of r" for q
    using lobby_member_index [OF lobbies_inv_lookup [OF inv i] that] .
  moreover have "q \<in> players_of r" if "fmlookup B q = Some i" for q
    using lobbies_inv_indexed [OF inv that] i by auto
  ultimately have at: "fmlookup B' q = (if fmlookup B q = Some i then None else fmlookup B q)" for q using B' by auto
  have others: "lobby_ok B' n j s" if "fmlookup L j = Some s" "j \<noteq> i" for j s
    using lobby_member_index [OF lobbies_inv_lookup [OF inv that(1)]] \<open>j \<noteq> i\<close>
    by (intro lobby_ok_reindex [OF lobbies_inv_lookup [OF inv that(1)]]) (simp add: at)
  have indexed: "\<exists>r. fmlookup (fmdrop i L) j = Some r \<and> p \<in> players_of r" if "fmlookup B' p = Some j" for p j
    using that lobbies_inv_indexed [OF inv, of p j] by (auto simp: at split: if_splits)
  have "lobby_ok B' n j s" if "fmlookup (fmdrop i L) j = Some s" for j s
    using that others [of j s] by (cases "j = i") simp_all
  then show ?thesis using indexed
  proof (rule lobbies_invI)
    show "j = k" if "fmlookup (fmdrop i L) j = Some r" "fmlookup (fmdrop i L) k = Some s" "lr_sequence r = lr_sequence s" for j k r s
      using that by (intro lobbies_inv_sequence [OF inv, of j r k s]) (auto split: if_splits)
  qed
qed

lemma fold_fmdrop: "fmlookup (fold fmdrop ks m) k = (if k \<in> set ks then None else fmlookup m k)"
  by (induction ks arbitrary: m) auto

section \<open>The sweep\<close>

lemma tables_inv_drop_lobby:
  assumes inv: "tables_inv m" and i: "fmlookup (m_lobbies m) i = Some r"
    and B': "\<And>q. fmlookup B' q = (if q \<in> players_of r then None else fmlookup (m_lobby_by_player m) q)"
  shows "tables_inv (m\<lparr>m_lobby_by_player := B', m_lobbies := fmdrop i (m_lobbies m)\<rparr>)"
proof -
  have "lobbies_inv B' (fmdrop i (m_lobbies m)) (m_next_sequence m)"
    using inv i B' by (intro lobbies_inv_drop) (auto simp: tables_inv_def)
  moreover have "exclusive B' (m_tickets m)" using inv by (auto simp: tables_inv_def exclusive_def B')
  ultimately show ?thesis using inv len_map_fmdrop_le [of i "m_lobbies m"] by (simp add: tables_inv_def)
qed

lemma expire_lobby_inv:
  assumes inv: "manager_inv m"
  shows "manager_inv (expire_lobby reading i m)"
proof (cases "fmlookup (m_lobbies m) i")
  case (Some r)
  show ?thesis
  proof (cases "mono reading < lr_mono_deadline r")
    case False
    define m1 where "m1 = (if lr_state r = LobbyStateMatched \<and> lr_assignments r \<noteq> []
       then (relay_end_room (as_room_id (first_assignment r)) m)\<lparr>m_match_ids := m_match_ids m |-| {|as_match_id (first_assignment r)|}\<rparr>
       else m)"
    have m1: "m_lobbies m1 = m_lobbies m" "m_lobby_by_player m1 = m_lobby_by_player m" and inv1: "manager_inv m1"
      using inv by (simp_all add: m1_def relay_end_room_inv) (simp_all add: relay_end_room_def)
    have "tables_inv (m1\<lparr>m_lobby_by_player := fold fmdrop (map fst (lr_members r)) (m_lobby_by_player m),
        m_lobbies := fmdrop i (m_lobbies m1)\<rparr>)"
      using inv1 Some by (intro tables_inv_drop_lobby) (auto simp: manager_inv_def m1 fold_fmdrop players_of_def)
    then show ?thesis
      using inv1 Some False by (simp add: expire_lobby_def Let_def m1_def [symmetric] manager_inv_def m1 relay_inv_def)
  qed (simp add: expire_lobby_def Some inv)
qed (simp add: expire_lobby_def inv)

lemma remove_queued_player_fields [simp]:
  "m_lobbies (remove_queued_player key p m) = m_lobbies m" "m_lobby_by_player (remove_queued_player key p m) = m_lobby_by_player m"
  "m_tickets (remove_queued_player key p m) = m_tickets m" "m_next_sequence (remove_queued_player key p m) = m_next_sequence m"
  "m_relay (remove_queued_player key p m) = m_relay m" "m_store_clock (remove_queued_player key p m) = m_store_clock m"
  "m_match_ids (remove_queued_player key p m) = m_match_ids m"
  by (simp_all add: remove_queued_player_def Let_def split: option.split)

lemma queue_of_remove: "queue_of (m_queues (remove_queued_player key p m)) k =
    (if k = key then remove1 p (queue_of (m_queues m) key) else queue_of (m_queues m) k)"
  by (auto simp: remove_queued_player_def queue_of_def Let_def remove1_idem split: option.split)

lemma remove_queued_nonempty: "\<forall>k. fmlookup (m_queues m) k \<noteq> Some [] \<Longrightarrow>
    fmlookup (m_queues (remove_queued_player key p m)) k \<noteq> Some []"
  by (auto simp: remove_queued_player_def Let_def split: option.splits if_splits)

text \<open>A ticket leaves, and its queue if it stands in one.\<close>

lemma tickets_inv_drop:
  assumes inv: "tickets_inv T Q n" and t: "fmlookup T p = Some t" and ne: "\<forall>k. fmlookup Q' k \<noteq> Some []"
    and Q': "\<And>k. queue_of Q' k = (if tr_state t = TicketStateQueued \<and> k = ticket_key t then remove1 p (queue_of Q k) else queue_of Q k)"
  shows "tickets_inv (fmdrop p T) Q' n"
proof -
  have dist: "distinct (queue_of Q k)" for k using inv by (simp add: tickets_inv_def)
  have "p \<in> set (queue_of Q k) \<longleftrightarrow> tr_state t = TicketStateQueued \<and> ticket_key t = k" for k
    using inv t by (simp add: tickets_inv_def)
  then have "set (queue_of Q' k) = set (queue_of Q k) - {p}" for k by (auto simp: Q' dist)
  then show ?thesis using inv ne by (auto simp: tickets_inv_def Q')
qed

lemma expire_ticket_inv:
  assumes inv: "manager_inv m"
  shows "manager_inv (expire_ticket reading p m)"
proof (cases "fmlookup (m_tickets m) p")
  case (Some t)
  show ?thesis
  proof (cases "mono reading < tr_mono_deadline t")
    case False
    define m1 where "m1 = (if tr_state t = TicketStateQueued then remove_queued_player (ticket_key t) p m else m)"
    define m2 where "m2 = (if tr_state t = TicketStateMatched then (case tr_assignment t of None \<Rightarrow> m1
        | Some a \<Rightarrow> (relay_end_room (as_room_id a) m1)\<lparr>m_match_ids := m_match_ids m1 |-| {|as_match_id a|}\<rparr>) else m1)"
    have Q: "queue_of (m_queues m1) k = (if tr_state t = TicketStateQueued \<and> k = ticket_key t
        then remove1 p (queue_of (m_queues m) k) else queue_of (m_queues m) k)" for k
      by (simp add: m1_def queue_of_remove)
    have "\<forall>k. fmlookup (m_queues m1) k \<noteq> Some []"
      using inv remove_queued_nonempty [of m] by (auto simp: m1_def manager_inv_def tables_inv_def tickets_inv_def)
    then have T: "tickets_inv (fmdrop p (m_tickets m)) (m_queues m1) (m_next_sequence m)"
      using inv Some Q by (intro tickets_inv_drop) (auto simp: manager_inv_def tables_inv_def)
    have m2: "m_queues m2 = m_queues m1" "m_lobbies m2 = m_lobbies m" "m_lobby_by_player m2 = m_lobby_by_player m"
      "m_tickets m2 = m_tickets m" "m_next_sequence m2 = m_next_sequence m"
      by (simp_all add: m2_def m1_def relay_end_room_def split: option.split)
    have "relay_inv m1" using inv by (simp add: m1_def manager_inv_def relay_inv_def)
    then have "relay_inv m2" using relay_end_room_relay by (auto simp: m2_def relay_inv_def split: option.split)
    moreover have "tables_inv (m2\<lparr>m_tickets := fmdrop p (m_tickets m)\<rparr>)"
      using inv T len_map_fmdrop_le [of p "m_tickets m"] by (auto simp: manager_inv_def tables_inv_def m2 exclusive_def)
    moreover have "expire_ticket reading p m = m2\<lparr>m_tickets := fmdrop p (m_tickets m)\<rparr>"
      using Some False by (simp add: expire_ticket_def Let_def m1_def [symmetric] m2_def [symmetric] m2)
    ultimately show ?thesis by (simp add: manager_inv_def relay_inv_def)
  qed (simp add: expire_ticket_def Some inv)
qed (simp add: expire_ticket_def inv)

lemma fold_inv: "(\<And>x s. P s \<Longrightarrow> P (f x s)) \<Longrightarrow> P s \<Longrightarrow> P (fold f xs s)"
  by (induction xs arbitrary: s) auto

lemma expire_locked_inv: "manager_inv m \<Longrightarrow> manager_inv (expire_locked reading ord m)"
  by (simp add: expire_locked_def expire_tickets_def fold_inv [where P = manager_inv] expire_lobby_inv expire_ticket_inv)

end
