(* ===== verification/Lobby_Keeps.thy ===== *)
theory Lobby_Keeps
  imports Lobby_Inv
begin

text \<open>
  Every operation on lobbies keeps the invariant of the manager, whatever it answers.
\<close>

section \<open>Sequences and revisions\<close>

lemma u64_succ:
  fixes n :: u64
  assumes "n \<noteq> max_uint64"
  shows "unat (n + 1) = unat n + 1" and "n < n + 1" and "n \<le> n + 1" and "n + 1 \<noteq> 0"
proof -
  have "unat n \<noteq> unat (max_uint64 :: u64)" using assms by (simp add: word_unat_eq_iff)
  moreover have "unat n < 2 ^ LENGTH(64)" by (rule unsigned_less)
  ultimately have "unat n + unat (1 :: u64) < 2 ^ LENGTH(64)" by simp
  then have "unat (n + 1) = unat n + unat (1 :: u64)" by (rule unat_add_lem [THEN iffD1])
  then show s: "unat (n + 1) = unat n + 1" by simp
  then show "n < n + 1" "n \<le> n + 1" by (simp_all add: word_less_nat_alt word_le_nat_alt)
  show "n + 1 \<noteq> 0" using s by (metis add_is_0 one_neq_zero unat_0)
qed

section \<open>The members of a lobby\<close>

lemma reset_ready_members [simp]:
  "map fst (lr_members (reset_ready r)) = map fst (lr_members r)"
  "map (mr_join_sequence \<circ> snd) (lr_members (reset_ready r)) = map (mr_join_sequence \<circ> snd) (lr_members r)"
  "lr_members (reset_ready r) = [] \<longleftrightarrow> lr_members r = []" "length (lr_members (reset_ready r)) = length (lr_members r)"
  by (simp_all add: reset_ready_def comp_def case_prod_unfold)

lemma players_of_map: "players_of r = set (map fst (lr_members r))"
  by (simp add: players_of_def)

lemma reset_ready_players [simp]: "players_of (reset_ready r) = players_of r"
  by (simp add: players_of_map del: set_map)

lemma reset_ready_fields [simp]:
  "lr_id (reset_ready r) = lr_id r" "lr_revision (reset_ready r) = lr_revision r" "lr_sequence (reset_ready r) = lr_sequence r"
  "lr_capacity (reset_ready r) = lr_capacity r" "lr_owner_player_id (reset_ready r) = lr_owner_player_id r"
  "lr_state (reset_ready r) = lr_state r" "lr_assignments (reset_ready r) = lr_assignments r"
  by (simp_all add: reset_ready_def)

text \<open>What the invariant says of the members does not depend on who is ready.\<close>

definition skeleton :: "lobby_record \<Rightarrow> (string \<times> string \<times> u64) list" where
  "skeleton r = map (\<lambda>(p, mr). (p, mr_player_id mr, mr_join_sequence mr)) (lr_members r)"

lemma length_skeleton [simp]: "length (skeleton r) = length (lr_members r)"
  by (simp add: skeleton_def)

lemma players_of_skeleton: "players_of r = fst ` set (skeleton r)"
  by (force simp: players_of_def skeleton_def)

lemma lobby_ok_skeleton:
  "lobby_ok B n i r \<longleftrightarrow> lr_id r = i \<and> lr_revision r \<noteq> 0 \<and> lr_sequence r < n \<and>
     2 \<le> unat (lr_capacity r) \<and> unat (lr_capacity r) \<le> 16 \<and>
     skeleton r \<noteq> [] \<and> length (skeleton r) \<le> unat (lr_capacity r) \<and>
     distinct (map fst (skeleton r)) \<and> distinct (map (snd \<circ> snd) (skeleton r)) \<and>
     (\<forall>(p, q, j) \<in> set (skeleton r). q = p \<and> j < n \<and> fmlookup B p = Some i) \<and>
     lr_owner_player_id r \<in> players_of r \<and> assignments_ok r"
  by (simp add: lobby_ok_def skeleton_def comp_def case_prod_unfold)

lemma reset_ready_skeleton [simp]: "skeleton (reset_ready r) = skeleton r"
  by (simp add: skeleton_def reset_ready_def comp_def case_prod_unfold)

lemma assignments_ok_cong: "lr_state r' = lr_state r \<Longrightarrow> lr_assignments r' = lr_assignments r \<Longrightarrow> players_of r' = players_of r \<Longrightarrow>
    assignments_ok r' = assignments_ok r"
  by (cases "lr_state r") (simp_all add: assignments_ok_def)

lemma reset_ready_ok: "lobby_ok B n i (reset_ready r) = lobby_ok B n i r"
  by (simp add: lobby_ok_skeleton assignments_ok_cong [of "reset_ready r" r])

lemma reset_ready_unready: "(p, mr) \<in> set (lr_members (reset_ready r)) \<Longrightarrow> \<not> mr_ready mr"
  by (auto simp: reset_ready_def)

lemma lobby_ok_member: "lobby_ok B n i r \<Longrightarrow> (p, mr) \<in> set (lr_members r) \<Longrightarrow> mr_player_id mr = p \<and> mr_join_sequence mr < n"
  by (auto simp: lobby_ok_def)

lemma members_in_join_order_set:
  assumes "\<And>p mr. (p, mr) \<in> set (lr_members r) \<Longrightarrow> mr_player_id mr = p"
  shows "set (members_in_join_order r) = players_of r"
proof -
  have "mr_player_id (snd x) = fst x" if "x \<in> set (lr_members r)" for x using assms [of "fst x" "snd x"] that by simp
  then show ?thesis by (auto simp: members_in_join_order_def players_of_def image_image)
qed

lemma length_members_in_join_order [simp]: "length (members_in_join_order r) = length (lr_members r)"
  by (simp add: members_in_join_order_def)

lemma lobby_ok_order: "lobby_ok B n i r \<Longrightarrow> set (members_in_join_order r) = players_of r"
  using lobby_ok_member by (intro members_in_join_order_set) blast

lemma alist_update_member:
  "distinct (map fst al) \<Longrightarrow> map_of al p = Some x \<Longrightarrow> AList.update p y al = map (\<lambda>(q, z). if q = p then (p, y) else (q, z)) al"
proof (induction al)
  case (Cons e al)
  have "map (\<lambda>(q, z). if q = p then (p, y) else (q, z)) al = al" if "p \<notin> fst ` set al"
    using that by (intro map_idI) force
  then show ?case using Cons by (cases e) auto
qed simp

section \<open>Writing one lobby\<close>

lemma tables_inv_set:
  assumes inv: "tables_inv m" and n: "m_next_sequence m \<le> n'" and ok: "lobby_ok B' n' i r'"
    and old: "old = (case fmlookup (m_lobbies m) i of None \<Rightarrow> {} | Some r \<Rightarrow> players_of r)"
    and gain: "\<And>q. q \<in> players_of r' - old \<Longrightarrow> fmlookup (m_lobby_by_player m) q = None \<and> fmlookup (m_tickets m) q = None"
    and lose: "\<And>q. q \<in> old - players_of r' \<Longrightarrow> fmlookup B' q = None"
    and frame: "\<And>q. q \<notin> old \<union> players_of r' \<Longrightarrow> fmlookup B' q = fmlookup (m_lobby_by_player m) q"
    and seq: "\<And>j s. fmlookup (m_lobbies m) j = Some s \<Longrightarrow> lr_sequence s = lr_sequence r' \<Longrightarrow> j = i"
    and size: "fmlookup (m_lobbies m) i = None \<Longrightarrow> len_map (m_lobbies m) < HardMaxOpenLobbies"
  shows "tables_inv (m\<lparr>m_lobbies := fmupd i r' (m_lobbies m), m_lobby_by_player := B', m_next_sequence := n'\<rparr>)"
proof -
  have L: "lobbies_inv (m_lobby_by_player m) (m_lobbies m) (m_next_sequence m)" using inv by (simp add: tables_inv_def)
  have "lobbies_inv B' (fmupd i r' (m_lobbies m)) n'"
    by (rule lobbies_inv_set [OF L n ok old]) (use gain lose frame seq in blast)+
  moreover have "exclusive B' (m_tickets m)"
    unfolding exclusive_def
  proof
    fix p
    have "fmlookup (m_lobby_by_player m) p = Some i" if "p \<in> old"
      using that lobby_member_index lobbies_inv_lookup [OF L] by (fastforce simp: old split: option.splits)
    then have "p \<in> old \<Longrightarrow> fmlookup (m_tickets m) p = None" using inv by (force simp: tables_inv_def exclusive_def)
    moreover have "fmlookup (m_lobby_by_player m) p = None \<or> fmlookup (m_tickets m) p = None"
      using inv by (simp add: tables_inv_def exclusive_def)
    ultimately show "fmlookup B' p = None \<or> fmlookup (m_tickets m) p = None"
      using gain [of p] lose [of p] frame [of p] by (cases "p \<in> old"; cases "p \<in> players_of r'") simp_all
  qed
  moreover have "tickets_inv (m_tickets m) (m_queues m) n'"
    using inv n by (auto simp: tables_inv_def tickets_inv_def ticket_ok_def intro: less_le_trans)
  ultimately show ?thesis using inv size by (auto simp: tables_inv_def len_map_fmupd)
qed

lemma lobby_record_inv:
  "tables_inv m \<Longrightarrow> fmlookup (m_lobbies m) i = Some r \<Longrightarrow> lobby_ok (m_lobby_by_player m) (m_next_sequence m) i r"
  using lobbies_inv_lookup by (auto simp: tables_inv_def)

lemma lobby_sequence_inv:
  "tables_inv m \<Longrightarrow> fmlookup (m_lobbies m) i = Some r \<Longrightarrow> fmlookup (m_lobbies m) j = Some s \<Longrightarrow> lr_sequence s = lr_sequence r \<Longrightarrow> j = i"
  by (rule lobbies_inv_sequence [of "m_lobby_by_player m" "m_lobbies m" "m_next_sequence m" j s i r]) (simp_all add: tables_inv_def)

text \<open>A lobby that keeps its players.\<close>

lemma tables_inv_same_players:
  assumes inv: "tables_inv m" and i: "fmlookup (m_lobbies m) i = Some r"
    and ok: "lobby_ok (m_lobby_by_player m) (m_next_sequence m) i r'"
    and same: "players_of r' = players_of r" "lr_sequence r' = lr_sequence r"
  shows "tables_inv (set_lobby i r' m)"
proof -
  have "tables_inv (m\<lparr>m_lobbies := fmupd i r' (m_lobbies m), m_lobby_by_player := m_lobby_by_player m,
      m_next_sequence := m_next_sequence m\<rparr>)"
    using lobby_sequence_inv [OF inv i]
    by (intro tables_inv_set [where old = "players_of r"]) (simp_all add: inv ok i same)
  then show ?thesis by (simp add: set_lobby_def tables_inv_def)
qed

lemma manager_inv_tables: "manager_inv m \<Longrightarrow> tables_inv m" "manager_inv m \<Longrightarrow> relay_inv m"
  by (simp_all add: manager_inv_def)
section \<open>Create\<close>

lemma valid_capacity: "valid_create_request q \<Longrightarrow> 2 \<le> unat (lq_capacity q) \<and> unat (lq_capacity q) \<le> 16"
  by (simp add: valid_create_request_def HardMaxMembers_def word_le_nat_alt)

lemma lobby_create_inv:
  assumes "manager_inv m0"
  shows "manager_inv (fst (lobby_create p q reading ord m0))"
proof (cases "valid_id p \<and> valid_create_request q")
  case False
  then show ?thesis using assms by (auto simp: lobby_create_def)
next
  case True
  define m where "m = expire_locked reading ord m0"
  have inv: "manager_inv m" using assms by (simp add: m_def expire_locked_inv)
  show ?thesis
  proof (cases "fmlookup (m_lobby_by_player m) p = None \<and> fmlookup (m_tickets m) p = None \<and>
      len_map (m_lobbies m) < HardMaxOpenLobbies \<and> m_next_sequence m \<noteq> max_uint64")
    case False
    then show ?thesis using True inv by (auto simp: lobby_create_def m_def [symmetric] Let_def)
  next
    case free: True
    obtain res src where u: "unique_id_locked ''l-'' (\<lambda>candidate. fmlookup (m_lobbies m) candidate \<noteq> None) (m_random m) = (res, src)"
      by fastforce
    show ?thesis
    proof (cases "\<exists>err. res = Inl err \<or> lobby_deadline_after (mono reading) DefaultLobbyTTL = None")
      case True
      then show ?thesis using \<open>valid_id p \<and> _\<close> free inv u
        by (auto simp: lobby_create_def m_def [symmetric] Let_def split: sum.split)
    next
      case False
      then obtain i d where i: "res = Inr i" and d: "lobby_deadline_after (mono reading) DefaultLobbyTTL = Some d"
        by (cases res) auto
      have new: "fmlookup (m_lobbies m) i = None" using unique_id_locked_fresh [OF u [unfolded i]] by simp
      define n where "n = m_next_sequence m"
      define r where "r = \<lparr>lr_id = i, lr_owner_player_id = p, lr_queue_key = lq_queue_key q,
          lr_visibility = the (lq_visibility q), lr_capacity = lq_capacity q, lr_state = LobbyStateOpen, lr_revision = 1,
          lr_sequence = n, lr_created_at = wall reading, lr_expires_at = wall reading + DefaultLobbyTTL, lr_mono_deadline = d,
          lr_members = [(p, \<lparr>mr_player_id = p, mr_ready = False, mr_join_sequence = n\<rparr>)], lr_assignments = []\<rparr>"
      have players: "players_of r = {p}" by (simp add: r_def players_of_def)
      have "lobby_ok (fmupd p i (m_lobby_by_player m)) (n + 1) i r"
        using \<open>valid_id p \<and> _\<close> valid_capacity [of q] free u64_succ [of n]
        by (simp add: lobby_ok_def r_def n_def players_of_def assignments_ok_def)
      moreover have "lr_sequence s < n" if "fmlookup (m_lobbies m) j = Some s" for j s
        using lobby_record_inv [OF manager_inv_tables(1) [OF inv] that] by (simp add: lobby_ok_def n_def)
      then have "lr_sequence s \<noteq> lr_sequence r" if "fmlookup (m_lobbies m) j = Some s" for j s
        using that by (force simp: r_def)
      ultimately have "tables_inv (m\<lparr>m_lobbies := fmupd i r (m_lobbies m),
          m_lobby_by_player := fmupd p i (m_lobby_by_player m), m_next_sequence := n + 1\<rparr>)"
        using free u64_succ(3) [of n] manager_inv_tables(1) [OF inv]
        by (intro tables_inv_set [where old = "{}"]) (auto simp: new players n_def)
      moreover have "lobby_create p q reading ord m0 = (m\<lparr>m_random := src, m_next_sequence := n + 1,
          m_lobbies := fmupd i r (m_lobbies m), m_lobby_by_player := fmupd p i (m_lobby_by_player m)\<rparr>, Inr (snapshot_for r p))"
        using \<open>valid_id p \<and> _\<close> free u i d
        by (simp add: lobby_create_def m_def [symmetric] Let_def take_sequence_def r_def n_def not_le)
      ultimately show ?thesis
        using manager_inv_tables(2) [OF inv] by (simp add: manager_inv_def tables_inv_def relay_inv_def)
    qed
  qed
qed

section \<open>Join, Leave, SetReady and Start\<close>

lemma with_open_lobby_inv:
  assumes inv: "manager_inv m0"
    and body: "\<And>r m. manager_inv m \<Longrightarrow> fmlookup (m_lobbies m) i = Some r \<Longrightarrow> lr_state r = LobbyStateOpen \<Longrightarrow>
      manager_inv (fst (body r m))"
  shows "manager_inv (fst (with_open_lobby p i revision reading ord m0 body))"
  using inv body [OF expire_locked_inv [OF inv]]
  by (auto simp: with_open_lobby_def Let_def expire_locked_inv split: option.split)

lemma manager_inv_set_lobby: "manager_inv m \<Longrightarrow> tables_inv (set_lobby i r m) \<Longrightarrow> manager_inv (set_lobby i r m)"
  by (simp add: manager_inv_def relay_inv_def set_lobby_def)

lemma lobby_set_ready_inv:
  assumes "manager_inv m0"
  shows "manager_inv (fst (lobby_set_ready p i revision ready reading ord m0))"
  unfolding lobby_set_ready_def
proof (rule with_open_lobby_inv [OF assms])
  fix r :: lobby_record and m :: "'a manager"
  assume inv: "manager_inv m" and i: "fmlookup (m_lobbies m) i = Some r"
  note ok = lobby_record_inv [OF manager_inv_tables(1) [OF inv] i]
  show "manager_inv (fst (case map_of (lr_members r) p of None \<Rightarrow> (m, Inl LobbyNotFound)
       | Some member \<Rightarrow> if mr_ready member = ready then (m, Inr (snapshot_for r p))
           else if lr_revision r = max_uint64 then (m, Inl LobbyCapacity)
           else (let r1 = r\<lparr>lr_members := AList.update p (member\<lparr>mr_ready := ready\<rparr>) (lr_members r),
                            lr_revision := lr_revision r + 1\<rparr>
                 in (set_lobby i r1 m, Inr (snapshot_for r1 p)))))"
  proof (cases "map_of (lr_members r) p")
    case (Some member)
    define r1 where "r1 = r\<lparr>lr_members := AList.update p (member\<lparr>mr_ready := ready\<rparr>) (lr_members r),
      lr_revision := lr_revision r + 1\<rparr>"
    have dist: "distinct (map fst (lr_members r))" using ok by (simp add: lobby_ok_def)
    have mem: "(p, member) \<in> set (lr_members r)" using Some by (rule map_of_SomeD)
    note upd = alist_update_member [OF dist Some]
    have "z = member" if "(p, z) \<in> set (lr_members r)" for z
      using eq_key_imp_eq_value [OF dist that mem] .
    then have sk: "skeleton r1 = skeleton r"
      by (auto simp: skeleton_def r1_def upd)
    then have players: "players_of r1 = players_of r" by (simp add: players_of_skeleton)
    have "lobby_ok (m_lobby_by_player m) (m_next_sequence m) i r1" if "lr_revision r \<noteq> max_uint64"
      using ok that u64_succ(4) [OF that] assignments_ok_cong [of r1 r] players
      by (simp add: lobby_ok_skeleton sk) (simp add: r1_def)
    then have "manager_inv (set_lobby i r1 m)" if "lr_revision r \<noteq> max_uint64"
      using that tables_inv_same_players [OF manager_inv_tables(1) [OF inv] i, of r1] players
      by (intro manager_inv_set_lobby [OF inv]) (simp add: r1_def)
    then show ?thesis using Some inv by (simp add: r1_def Let_def)
  qed (simp add: inv)
qed
lemma lobby_open_assignments: "lobby_ok B n i r \<Longrightarrow> lr_state r = LobbyStateOpen \<Longrightarrow> lr_assignments r = []"
  by (simp add: lobby_ok_def assignments_ok_def)

lemma lobby_join_inv:
  assumes "manager_inv m0"
  shows "manager_inv (fst (lobby_join p i revision reading ord m0))"
  unfolding lobby_join_def
proof (rule with_open_lobby_inv [OF assms], goal_cases)
  case (1 r m)
  note inv = 1(1) and i = 1(2) and open_state = 1(3)
  note ok = lobby_record_inv [OF manager_inv_tables(1) [OF inv] i]
  show ?case
  proof (cases "fmlookup (m_lobby_by_player m) p = None \<and> fmlookup (m_tickets m) p = None \<and>
      length (lr_members r) < unat (lr_capacity r) \<and> m_next_sequence m \<noteq> max_uint64 \<and> lr_revision r \<noteq> max_uint64")
    case False
    then show ?thesis using inv by (auto simp: not_le)
  next
    case free: True
    define n where "n = m_next_sequence m"
    define r2 where "r2 = (reset_ready (r\<lparr>lr_members := AList.update p
        \<lparr>mr_player_id = p, mr_ready = False, mr_join_sequence = n\<rparr> (lr_members r)\<rparr>))\<lparr>lr_revision := lr_revision r + 1\<rparr>"
    have out: "p \<notin> players_of r" using lobby_member_index [OF ok] free by auto
    then have "AList.update p x (lr_members r) = lr_members r @ [(p, x)]" for x
      by (intro alist_update_new) (simp add: players_of_def)
    then have sk: "skeleton r2 = skeleton r @ [(p, p, n)]"
      by (simp add: r2_def skeleton_def reset_ready_def comp_def case_prod_unfold)
    have players: "players_of r2 = insert p (players_of r)" by (simp add: players_of_skeleton sk)
    have ok2: "lobby_ok (fmupd p i (m_lobby_by_player m)) (n + 1) i r2"
    proof -
      have rec: "lr_id r2 = i" "lr_revision r2 \<noteq> 0" "lr_sequence r2 < n + 1" "lr_capacity r2 = lr_capacity r"
        "lr_owner_player_id r2 \<in> players_of r2" "assignments_ok r2"
        using ok free u64_succ(2) [of n] u64_succ(4) [of "lr_revision r"] lobby_open_assignments [OF ok open_state] open_state
          players less_trans [of "lr_sequence r" n "n + 1"]
        by (simp_all add: lobby_ok_def n_def r2_def assignments_ok_def)
      have "j < n" if "(q, q', j) \<in> set (skeleton r)" for q q' j
        using ok that by (auto simp: lobby_ok_skeleton n_def)
      then have "(snd \<circ> snd) x \<noteq> n" if "x \<in> set (skeleton r)" for x
        using that by (cases x) force
      moreover have "p \<notin> fst ` set (skeleton r)" using out by (simp add: players_of_skeleton)
      moreover have "\<forall>(q, q', j) \<in> set (skeleton r). q' = q \<and> j < n + 1 \<and> (q \<noteq> p \<longrightarrow> fmlookup (m_lobby_by_player m) q = Some i)"
        using ok less_trans [OF _ u64_succ(2) [of n]] free by (auto simp: lobby_ok_skeleton n_def)
      ultimately show ?thesis
        using ok free rec u64_succ(2) [of n]
        by (auto simp: lobby_ok_skeleton sk n_def length_skeleton [symmetric] simp del: length_skeleton)
    qed
    have "tables_inv (m\<lparr>m_lobbies := fmupd i r2 (m_lobbies m), m_lobby_by_player := fmupd p i (m_lobby_by_player m),
        m_next_sequence := n + 1\<rparr>)"
    proof (rule tables_inv_set [where old = "players_of r", OF manager_inv_tables(1) [OF inv]])
      show "j = i" if "fmlookup (m_lobbies m) j = Some s" "lr_sequence s = lr_sequence r2" for j s
        using lobby_sequence_inv [OF manager_inv_tables(1) [OF inv] i that(1)] that(2) by (simp add: r2_def)
    qed (use ok2 free u64_succ(3) [of n] i in \<open>auto simp: players n_def\<close>)
    then show ?thesis
      using free manager_inv_tables(2) [OF inv]
      by (simp add: Let_def take_sequence_def n_def [symmetric] r2_def [symmetric] not_le manager_inv_def set_lobby_def
          tables_inv_def relay_inv_def)
  qed
qed

lemma lobby_leave_inv:
  assumes "manager_inv m0"
  shows "manager_inv (fst (lobby_leave p i revision reading ord m0))"
  unfolding lobby_leave_def
proof (rule with_open_lobby_inv [OF assms], goal_cases)
  case (1 r m)
  note inv = 1(1) and i = 1(2) and open_state = 1(3)
  note ok = lobby_record_inv [OF manager_inv_tables(1) [OF inv] i]
  show ?case
  proof (cases "map_of (lr_members r) p = None \<or> lr_revision r = max_uint64")
    case True
    then show ?thesis using inv by auto
  next
    case False
    define r1 where "r1 = r\<lparr>lr_members := AList.delete p (lr_members r), lr_revision := lr_revision r + 1\<rparr>"
    define r2 where "r2 = (if lr_owner_player_id r1 = p then r1\<lparr>lr_owner_player_id := hd (members_in_join_order r1)\<rparr> else r1)"
    have p: "p \<in> players_of r" using False by (auto simp: players_of_def map_of_eq_None_iff)
    have sk: "skeleton r1 = filter (\<lambda>x. p \<noteq> fst x) (skeleton r)" "skeleton r2 = skeleton r1"
      by (simp_all add: r1_def r2_def skeleton_def AList.delete_eq filter_map comp_def case_prod_unfold)
    have players: "players_of r1 = players_of r - {p}" "players_of r2 = players_of r - {p}"
      by (auto simp: players_of_skeleton sk)
    show ?thesis
    proof (cases "lr_members r1 = []")
      case True
      then have "players_of r - {p} = {}" using players by (simp add: players_of_def)
      then have "players_of r = {p}" using p by blast
      then have "tables_inv (m\<lparr>m_lobby_by_player := fmdrop p (m_lobby_by_player m), m_lobbies := fmdrop i (m_lobbies m)\<rparr>)"
        using i by (intro tables_inv_drop_lobby [OF manager_inv_tables(1) [OF inv] i]) simp
      then show ?thesis
        using False True manager_inv_tables(2) [OF inv]
        by (auto simp: Let_def r1_def [symmetric] manager_inv_def relay_inv_def)
    next
      case left: False
      have "hd (members_in_join_order r1) \<in> set (members_in_join_order r1)"
        using left length_members_in_join_order [of r1] by (intro hd_in_set) force
      moreover have "set (members_in_join_order r1) = players_of r1"
        using lobby_ok_member [OF ok] by (intro members_in_join_order_set) (auto simp: r1_def AList.delete_eq)
      ultimately have head: "hd (members_in_join_order r1) \<in> players_of r - {p}" by (simp add: players)
      have was: "lr_owner_player_id r1 = lr_owner_player_id r" "lr_owner_player_id r \<in> players_of r"
        using ok by (simp_all add: r1_def lobby_ok_def)
      have owner: "lr_owner_player_id r2 \<in> players_of r2"
      proof (cases "lr_owner_player_id r = p")
        case True
        then show ?thesis using head unfolding players by (simp add: r2_def was(1))
      next
        case False
        then show ?thesis using was unfolding players by (simp add: r2_def)
      qed
      have ok2: "lobby_ok (fmdrop p (m_lobby_by_player m)) (m_next_sequence m) i r2"
      proof -
        have rec: "lr_id r2 = i" "lr_revision r2 \<noteq> 0" "lr_sequence r2 < m_next_sequence m" "lr_capacity r2 = lr_capacity r"
          "assignments_ok r2"
          using ok False u64_succ(4) [of "lr_revision r"] lobby_open_assignments [OF ok open_state] open_state
          by (simp_all add: lobby_ok_def r1_def r2_def assignments_ok_def)
        have "skeleton r1 \<noteq> []" using left by (simp add: skeleton_def)
        moreover have "length (lr_members r1) \<le> length (lr_members r)" by (simp add: r1_def AList.delete_eq)
        ultimately show ?thesis
          using ok rec owner by (auto simp: lobby_ok_skeleton sk(2) intro: order_trans)
            (auto simp: sk(1) distinct_map_filter)
      qed
      have "tables_inv (m\<lparr>m_lobbies := fmupd i (reset_ready r2) (m_lobbies m),
          m_lobby_by_player := fmdrop p (m_lobby_by_player m), m_next_sequence := m_next_sequence m\<rparr>)"
      proof (rule tables_inv_set [where old = "players_of r", OF manager_inv_tables(1) [OF inv]])
        show "j = i" if "fmlookup (m_lobbies m) j = Some s" "lr_sequence s = lr_sequence (reset_ready r2)" for j s
          using lobby_sequence_inv [OF manager_inv_tables(1) [OF inv] i that(1)] that(2) by (simp add: r2_def r1_def)
        show "lobby_ok (fmdrop p (m_lobby_by_player m)) (m_next_sequence m) i (reset_ready r2)"
          using ok2 by (simp add: reset_ready_ok)
        show "fmlookup (fmdrop p (m_lobby_by_player m)) q = None" if "q \<in> players_of r - players_of (reset_ready r2)" for q
          using that by (simp add: players)
        show "fmlookup (fmdrop p (m_lobby_by_player m)) q = fmlookup (m_lobby_by_player m) q"
          if "q \<notin> players_of r \<union> players_of (reset_ready r2)" for q using that p by auto
      qed (simp_all add: i players, blast)
      then show ?thesis
        using False left manager_inv_tables(2) [OF inv]
        by (auto simp: Let_def r1_def [symmetric] r2_def [symmetric] manager_inv_def relay_inv_def set_lobby_def tables_inv_def)
    qed
  qed
qed

lemma lobby_start_inv:
  assumes "manager_inv m0"
  shows "manager_inv (fst (lobby_start p i revision reading ord m0))"
  unfolding lobby_start_def
proof (rule with_open_lobby_inv [OF assms], goal_cases)
  case (1 r m)
  note inv = 1(1) and i = 1(2)
  note ok = lobby_record_inv [OF manager_inv_tables(1) [OF inv] i]
  obtain m1 res where al: "allocate_match (members_in_join_order r) reading m = (m1, res)" by fastforce
  have only: "relay_only m m1" and relay: "relay_inv m1"
    using allocate_match_only [OF al] allocate_match_relay [OF al] manager_inv_tables(2) [OF inv] by auto
  then have inv1: "manager_inv m1" using inv relay_only_tables [OF only] by (simp add: manager_inv_def)
  show ?case
  proof (cases "lr_owner_player_id r \<noteq> p \<or> length (lr_members r) \<noteq> unat (lr_capacity r) \<or> \<not> all_ready r \<or>
      lr_revision r = max_uint64 \<or> (\<exists>err. res = Inl err)")
    case True
    then show ?thesis using inv inv1 al by (auto split: sum.split)
  next
    case False
    then obtain mid rid asg e d where res: "res = Inr (mid, rid, asg, e, d)" by (cases res) auto
    have asg: "assigned (members_in_join_order r) mid rid asg"
      using allocate_match_assigned [OF manager_inv_tables(2) [OF inv] al [unfolded res]] .
    define r1 where "r1 = r\<lparr>lr_state := LobbyStateMatched, lr_revision := lr_revision r + 1,
                 lr_expires_at := e, lr_mono_deadline := d, lr_assignments := asg\<rparr>"
    have sk: "skeleton r1 = skeleton r" by (simp add: r1_def skeleton_def)
    then have players: "players_of r1 = players_of r" by (simp add: players_of_skeleton)
    have "\<exists>match_id room_id. \<forall>(p, a) \<in> set asg. as_match_id a = match_id \<and> as_room_id a = room_id \<and> as_player_id a = p"
      using asg by (intro exI [of _ mid] exI [of _ rid]) (auto simp: assigned_def)
    then have "assignments_ok r1"
      using asg lobby_ok_order [OF ok] by (simp add: assignments_ok_def r1_def assigned_def players_of_def)
    then have "lobby_ok (m_lobby_by_player m1) (m_next_sequence m1) i r1"
      using ok only False u64_succ(4) [of "lr_revision r"]
      by (simp add: lobby_ok_skeleton sk relay_only_def players) (simp add: r1_def)
    moreover have "fmlookup (m_lobbies m1) i = Some r" using only i by (simp add: relay_only_def)
    ultimately have "tables_inv (set_lobby i r1 m1)"
      using tables_inv_same_players [OF manager_inv_tables(1) [OF inv1]] sk by (simp add: players_of_skeleton r1_def)
    then have "manager_inv (set_lobby i r1 m1)" by (rule manager_inv_set_lobby [OF inv1])
    then show ?thesis using False al res by (simp add: r1_def)
  qed
qed

end
