(* ===== verification/Match_Keeps.thy ===== *)
theory Match_Keeps
  imports Lobby_Keeps
begin

text \<open>
  The matchmaking of \<open>match.go\<close>: the loop of \<open>matchQueueLocked\<close> never meets a missing ticket, takes the
  players of a queue in their order and keeps the invariant of the manager; so do the ticket operations.
\<close>

section \<open>Marking the tickets of a match\<close>

definition matched_ticket :: "(string \<times> assignment) list \<Rightarrow> time \<Rightarrow> duration \<Rightarrow> string \<Rightarrow> ticket_record \<Rightarrow> ticket_record" where
  "matched_ticket asg e d p t = t\<lparr>tr_state := TicketStateMatched, tr_revision := tr_revision t + 1,
     tr_expires_at := e, tr_mono_deadline := d, tr_assignment := Some (assignment_for asg p)\<rparr>"

lemma mark_matched_spec:
  assumes "distinct ps" and "\<And>p. p \<in> set ps \<Longrightarrow> fmlookup (m_tickets m) p \<noteq> None"
  shows "\<exists>T. mark_matched asg e d ps m = Some (m\<lparr>m_tickets := T\<rparr>) \<and> fmdom T = fmdom (m_tickets m) \<and>
    (\<forall>p. fmlookup T p = (if p \<in> set ps then map_option (matched_ticket asg e d p) (fmlookup (m_tickets m) p)
       else fmlookup (m_tickets m) p))"
  using assms
proof (induction ps arbitrary: m)
  case Nil
  have "m = m\<lparr>m_tickets := m_tickets m\<rparr>" by simp
  then show ?case by (intro exI [of _ "m_tickets m"]) simp
next
  case (Cons p ps)
  then obtain t where t: "fmlookup (m_tickets m) p = Some t" by fastforce
  let ?m = "m\<lparr>m_tickets := fmupd p (matched_ticket asg e d p t) (m_tickets m)\<rparr>"
  obtain T where T: "mark_matched asg e d ps ?m = Some (?m\<lparr>m_tickets := T\<rparr>)" "fmdom T = fmdom (m_tickets ?m)"
    "\<forall>q. fmlookup T q = (if q \<in> set ps then map_option (matched_ticket asg e d q) (fmlookup (m_tickets ?m) q)
       else fmlookup (m_tickets ?m) q)"
    using Cons.IH [of ?m] Cons.prems by fastforce
  have "mark_matched asg e d (p # ps) m = Some (m\<lparr>m_tickets := T\<rparr>)" using T(1) t by (simp add: matched_ticket_def)
  moreover have "fmdom T = fmdom (m_tickets m)" using T(2) t by (auto simp: fmlookup_dom_iff)
  ultimately show ?case using T(3) t Cons.prems(1) by auto
qed

section \<open>One match\<close>

lemma ticket_inv: "tables_inv m \<Longrightarrow> fmlookup (m_tickets m) p = Some t \<Longrightarrow> ticket_ok (m_next_sequence m) p t"
  by (simp add: tables_inv_def tickets_inv_def)

lemma queued_iff: "tables_inv m \<Longrightarrow> p \<in> set (queue_of (m_queues m) key) \<longleftrightarrow>
    (\<exists>t. fmlookup (m_tickets m) p = Some t \<and> tr_state t = TicketStateQueued \<and> ticket_key t = key)"
  by (simp add: tables_inv_def tickets_inv_def)

lemma queue_distinct: "tables_inv m \<Longrightarrow> distinct (queue_of (m_queues m) key)"
  by (simp add: tables_inv_def tickets_inv_def)

definition put_queue :: "queue_key \<Rightarrow> string list \<Rightarrow> (queue_key, string list) fmap \<Rightarrow> (queue_key, string list) fmap" where
  "put_queue key q Q = (if q = [] then fmdrop key Q else fmupd key q Q)"

lemma queue_of_put [simp]: "queue_of (put_queue key q Q) k = (if k = key then q else queue_of Q k)"
  by (simp add: queue_of_def put_queue_def)

lemma put_queue_nonempty: "fmlookup Q k \<noteq> Some [] \<Longrightarrow> fmlookup (put_queue key q Q) k \<noteq> Some []"
  by (simp add: put_queue_def)

text \<open>The state after a match of the first players of a queue.\<close>

definition after_match ::
    "queue_key \<Rightarrow> string list \<Rightarrow> string \<Rightarrow> (string, ticket_record) fmap \<Rightarrow> 'l manager \<Rightarrow> 'l manager" where
  "after_match key remaining match_id T m =
     m\<lparr>m_tickets := T, m_match_ids := finsert match_id (m_match_ids m), m_queues := put_queue key remaining (m_queues m)\<rparr>"

lemma matched_tickets_inv:
  assumes inv: "tickets_inv T Q n" and q: "queue_of Q key = players @ remaining"
    and asg: "assigned players mid rid asg"
    and T': "\<And>p. fmlookup T' p = (if p \<in> set players then map_option (matched_ticket asg e d p) (fmlookup T p) else fmlookup T p)"
  shows "tickets_inv T' (put_queue key remaining Q) n"
proof -
  have dist: "distinct (players @ remaining)" using inv q by (metis tickets_inv_def)
  have queued: "\<exists>t. fmlookup T p = Some t \<and> tr_state t = TicketStateQueued \<and> ticket_key t = key" if "p \<in> set players" for p
    using inv that q unfolding tickets_inv_def by (metis UnI1 set_append)
  have "ticket_ok n p t'" if t': "fmlookup T' p = Some t'" for p t'
  proof (cases "p \<in> set players")
    case True
    then obtain t where t: "fmlookup T p = Some t" "tr_state t = TicketStateQueued" using queued by blast
    then have ok: "ticket_ok n p t" using inv by (simp add: tickets_inv_def)
    have "t' = matched_ticket asg e d p t" using t' t True by (simp add: T')
    then show ?thesis
      using ok t(2) assignment_for_assigned(2) [OF asg True] by (simp add: ticket_ok_def matched_ticket_def)
  next
    case False
    then show ?thesis using t' inv by (simp add: T' tickets_inv_def)
  qed
  moreover have "p \<in> set (queue_of (put_queue key remaining Q) k) \<longleftrightarrow>
      (\<exists>t. fmlookup T' p = Some t \<and> tr_state t = TicketStateQueued \<and> ticket_key t = k)" for k p
  proof (cases "p \<in> set players")
    case True
    then have "\<not> (\<exists>t. fmlookup T' p = Some t \<and> tr_state t = TicketStateQueued)" by (auto simp: T' matched_ticket_def)
    moreover have "p \<notin> set (queue_of Q k)" if "k \<noteq> key"
      using queued [OF True] inv that unfolding tickets_inv_def by (metis option.inject)
    ultimately show ?thesis using True dist by auto
  next
    case False
    then have "p \<in> set (queue_of (put_queue key remaining Q) k) \<longleftrightarrow> p \<in> set (queue_of Q k)" using q by auto
    then show ?thesis using False inv by (simp add: T' tickets_inv_def)
  qed
  moreover have "distinct (queue_of (put_queue key remaining Q) k)" for k
    using dist inv by (simp add: tickets_inv_def)
  moreover have "fmlookup (put_queue key remaining Q) k \<noteq> Some []" for k
    using inv by (intro put_queue_nonempty) (simp add: tickets_inv_def)
  ultimately show ?thesis unfolding tickets_inv_def by blast
qed

lemma one_match:
  assumes inv: "manager_inv m" and q: "queue_of (m_queues m) key = players @ remaining"
    and al: "allocate_match players reading m = (m1, Inr (mid, rid, asg, e, d))"
  shows "\<exists>T. mark_matched asg e d players m1 = Some (m1\<lparr>m_tickets := T\<rparr>) \<and> manager_inv (after_match key remaining mid T m1) \<and>
    (\<forall>p. fmlookup T p = (if p \<in> set players then map_option (matched_ticket asg e d p) (fmlookup (m_tickets m) p)
       else fmlookup (m_tickets m) p)) \<and> fmdom T = fmdom (m_tickets m) \<and> assigned players mid rid asg \<and> relay_only m m1"
proof -
  note tab = manager_inv_tables(1) [OF inv] and only = allocate_match_only [OF al]
  have asg: "assigned players mid rid asg" by (rule allocate_match_assigned [OF manager_inv_tables(2) [OF inv] al])
  have same: "m_tickets m1 = m_tickets m" "m_queues m1 = m_queues m" "m_next_sequence m1 = m_next_sequence m"
    "m_lobbies m1 = m_lobbies m" "m_lobby_by_player m1 = m_lobby_by_player m"
    using only by (simp_all add: relay_only_def)
  have "fmlookup (m_tickets m) p \<noteq> None" if "p \<in> set players" for p
    using queued_iff [OF tab, of p key] that q by auto
  moreover have "distinct players" using asg by (simp add: assigned_def)
  ultimately obtain T where T: "mark_matched asg e d players m1 = Some (m1\<lparr>m_tickets := T\<rparr>)" "fmdom T = fmdom (m_tickets m)"
    "\<forall>p. fmlookup T p = (if p \<in> set players then map_option (matched_ticket asg e d p) (fmlookup (m_tickets m) p)
       else fmlookup (m_tickets m) p)"
    using mark_matched_spec [of players m1 asg e d] by (auto simp: same)
  have "tickets_inv (m_tickets m) (m_queues m) (m_next_sequence m)" using tab by (simp add: tables_inv_def)
  from matched_tickets_inv [OF this q asg T(3) [rule_format]]
  have ti: "tickets_inv T (put_queue key remaining (m_queues m)) (m_next_sequence m)" .
  have "fmlookup T p = None \<longleftrightarrow> fmlookup (m_tickets m) p = None" for p using T(3) by simp
  then have "exclusive (m_lobby_by_player m) T" using tab by (simp add: tables_inv_def exclusive_def)
  moreover have "len_map T = len_map (m_tickets m)" by (simp add: len_map_def T(2))
  ultimately have "tables_inv (after_match key remaining mid T m1)"
    using tab ti by (simp add: tables_inv_def after_match_def same)
  moreover have "relay_inv m1" by (rule allocate_match_relay [OF al manager_inv_tables(2) [OF inv]])
  ultimately have "manager_inv (after_match key remaining mid T m1)"
    by (simp add: manager_inv_def after_match_def relay_inv_def)
  then show ?thesis using T asg only by blast
qed
section \<open>The loop\<close>

text \<open>The \<open>i\<close>-th group of players of a queue, and what it means that the first \<open>k\<close> groups have been matched.\<close>

definition match_group :: "nat \<Rightarrow> nat \<Rightarrow> string list \<Rightarrow> string list" where
  "match_group capacity i queue = take capacity (drop (i * capacity) queue)"

lemma match_group_length:
  assumes "k * c \<le> length queue" and "i < k"
  shows "length (match_group c i queue) = c"
proof -
  have "Suc i * c \<le> k * c" using assms(2) by (intro mult_le_mono1) simp
  then show ?thesis using assms(1) by (simp add: match_group_def)
qed

definition shares_match :: "string \<Rightarrow> (string, ticket_record) fmap \<Rightarrow> string list \<Rightarrow> bool" where
  "shares_match match_id T players \<longleftrightarrow> (\<exists>room_id. \<forall>p \<in> set players. \<exists>t a. fmlookup T p = Some t \<and>
     tr_state t = TicketStateMatched \<and> tr_assignment t = Some a \<and> as_player_id a = p \<and>
     as_match_id a = match_id \<and> as_room_id a = room_id)"

definition matched_first ::
    "nat \<Rightarrow> queue_key \<Rightarrow> string list \<Rightarrow> 'l manager \<Rightarrow> 'l manager \<Rightarrow> bool" where
  "matched_first k key queue m m' \<longleftrightarrow> (let c = unat (qk_capacity key) in
     k * c \<le> length queue \<and> queue_of (m_queues m') key = drop (k * c) queue \<and>
     (\<exists>ids. length ids = k \<and> distinct ids \<and> (\<forall>i \<in> set ids. i |\<notin>| m_match_ids m) \<and>
        (\<forall>i < k. shares_match (ids ! i) (m_tickets m') (match_group c i queue))) \<and>
     (\<forall>p. p \<notin> set (take (k * c) queue) \<longrightarrow> fmlookup (m_tickets m') p = fmlookup (m_tickets m) p))"

text \<open>What a round of matching leaves alone.\<close>

definition tables_frame :: "'l manager \<Rightarrow> 'l manager \<Rightarrow> bool" where
  "tables_frame m m' \<longleftrightarrow> m_lobbies m' = m_lobbies m \<and> m_lobby_by_player m' = m_lobby_by_player m \<and>
     m_next_sequence m' = m_next_sequence m \<and> fmdom (m_tickets m') = fmdom (m_tickets m)"

lemma tables_frame_trans: "tables_frame a b \<Longrightarrow> tables_frame b c \<Longrightarrow> tables_frame a c"
  by (simp add: tables_frame_def)

lemma relay_only_frame: "relay_only m m' \<Longrightarrow> tables_frame m m'"
  by (simp add: relay_only_def tables_frame_def)

lemma after_match_frame: "fmdom T = fmdom (m_tickets m) \<Longrightarrow> tables_frame m (after_match key remaining mid T m)"
  by (simp add: after_match_def tables_frame_def)

lemma shares_matchI:
  assumes asg: "assigned players mid rid asg"
    and T: "\<And>p. p \<in> set players \<Longrightarrow> \<exists>t. fmlookup T p = Some (matched_ticket asg e d p t)"
  shows "shares_match mid T players"
  unfolding shares_match_def
proof (rule exI [of _ rid], rule ballI)
  fix p assume p: "p \<in> set players"
  then obtain t where "fmlookup T p = Some (matched_ticket asg e d p t)" using T by blast
  then show "\<exists>t a. fmlookup T p = Some t \<and> tr_state t = TicketStateMatched \<and> tr_assignment t = Some a \<and> as_player_id a = p \<and>
     as_match_id a = mid \<and> as_room_id a = rid"
    using assignment_for_assigned [OF asg p] by (intro exI conjI) (auto simp: matched_ticket_def)
qed

lemma shares_match_cong: "(\<And>p. p \<in> set players \<Longrightarrow> fmlookup T p = fmlookup T' p) \<Longrightarrow> shares_match mid T players = shares_match mid T' players"
  by (simp add: shares_match_def)

lemma matched_first_0: "queue_of (m_queues m) key = queue \<Longrightarrow> matched_first 0 key queue m m"
  by (simp add: matched_first_def Let_def)

lemma matched_first_Suc:
  assumes c: "c = unat (qk_capacity key)" "c \<le> length queue" and dist: "distinct queue"
    and first: "shares_match mid (m_tickets m1) (take c queue)"
    and mid: "mid |\<notin>| m_match_ids m" "m_match_ids m1 = finsert mid (m_match_ids m)"
    and same: "\<And>p. p \<notin> set (take c queue) \<Longrightarrow> fmlookup (m_tickets m1) p = fmlookup (m_tickets m) p"
    and rest: "matched_first k key (drop c queue) m1 m'"
  shows "matched_first (Suc k) key queue m m'"
proof -
  have k: "k * c \<le> length queue - c" and q: "queue_of (m_queues m') key = drop (k * c) (drop c queue)"
    and frame: "\<And>p. p \<notin> set (take (k * c) (drop c queue)) \<Longrightarrow> fmlookup (m_tickets m') p = fmlookup (m_tickets m1) p"
    using rest by (simp_all add: matched_first_def Let_def c(1))
  obtain ids where ids: "length ids = k" "distinct ids" "\<forall>i \<in> set ids. i |\<notin>| m_match_ids m1"
    and groups: "\<And>i. i < k \<Longrightarrow> shares_match (ids ! i) (m_tickets m') (match_group c i (drop c queue))"
    using rest by (auto simp: matched_first_def Let_def c(1))
  have take: "take (Suc k * c) queue = take c queue @ take (k * c) (drop c queue)" by (simp add: take_add)
  have drop: "drop (Suc k * c) queue = drop (k * c) (drop c queue)" by (simp add: add.commute)
  have shares: "shares_match ((mid # ids) ! i) (m_tickets m') (match_group c i queue)" if "i < Suc k" for i
  proof (cases i)
    case 0
    have "set (take c queue) \<inter> set (take (k * c) (drop c queue)) = {}"
      using dist set_take_disj_set_drop_if_distinct [OF dist, of c c] set_take_subset [of "k * c" "drop c queue"] by blast
    then have "shares_match mid (m_tickets m') (take c queue) = shares_match mid (m_tickets m1) (take c queue)"
      using frame by (intro shares_match_cong) blast
    then show ?thesis using first 0 by (simp add: match_group_def)
  next
    case (Suc j)
    then have "match_group c i queue = match_group c j (drop c queue)" by (simp add: match_group_def add.commute)
    then show ?thesis using groups [of j] that Suc by simp
  qed
  have "length (mid # ids) = Suc k \<and> distinct (mid # ids) \<and> (\<forall>i \<in> set (mid # ids). i |\<notin>| m_match_ids m)"
    using ids mid by auto
  with shares have "\<exists>ids. length ids = Suc k \<and> distinct ids \<and> (\<forall>i \<in> set ids. i |\<notin>| m_match_ids m) \<and>
      (\<forall>i < Suc k. shares_match (ids ! i) (m_tickets m') (match_group c i queue))" by blast
  moreover have "fmlookup (m_tickets m') p = fmlookup (m_tickets m) p" if "p \<notin> set (take (Suc k * c) queue)" for p
    using that frame [of p] same [of p] unfolding take by simp
  ultimately show ?thesis
    using k q c(2) drop unfolding matched_first_def Let_def c(1) [symmetric] by simp
qed

lemma match_loop_spec:
  assumes "manager_inv m" and "queue_of (m_queues m) key = queue"
  shows "\<exists>m' err k. match_loop key reading queue m = Some (m', err) \<and> manager_inv m' \<and> tables_frame m m' \<and>
    matched_first k key queue m m' \<and> (err = None \<longleftrightarrow> length (queue_of (m_queues m') key) < unat (qk_capacity key))"
  using assms
proof (induction "length queue" arbitrary: queue m rule: less_induct)
  case (less queue m)
  define c where "c = unat (qk_capacity key)"
  note inv = less(2) and q = less(3)
  show ?case
  proof (cases "length queue < c")
    case True
    then have "match_loop key reading queue m = Some (m, None)" by (simp add: match_loop.simps [of key] c_def)
    then show ?thesis
      using True inv q matched_first_0 [OF q]
      by (intro exI [of _ m] exI [of _ None] exI [of _ 0]) (simp add: c_def tables_frame_def)
  next
    case False
    obtain m1 res where al: "allocate_match (take c queue) reading m = (m1, res)" by fastforce
    note only = allocate_match_only [OF al]
    show ?thesis
    proof (cases res)
      case (Inl err)
      have "match_loop key reading queue m = Some (m1, Some err)"
        using False al Inl by (simp add: match_loop.simps [of key] c_def)
      moreover have "manager_inv m1"
        using inv relay_only_tables [OF only] allocate_match_relay [OF al] by (simp add: manager_inv_def)
      moreover have "matched_first 0 key queue m m1"
        using q only by (simp add: matched_first_def Let_def relay_only_def)
      moreover have "\<not> length (queue_of (m_queues m1) key) < unat (qk_capacity key)"
        using False q only by (simp add: c_def relay_only_def)
      ultimately show ?thesis using relay_only_frame [OF only] by blast
    next
      case (Inr x)
      then obtain mid rid asg e d where res: "res = Inr (mid, rid, asg, e, d)" by (cases x) auto
      have split: "queue_of (m_queues m) key = take c queue @ drop c queue" using q by simp
      obtain T where mark: "mark_matched asg e d (take c queue) m1 = Some (m1\<lparr>m_tickets := T\<rparr>)"
        and inv2: "manager_inv (after_match key (drop c queue) mid T m1)"
        and T: "\<forall>p. fmlookup T p = (if p \<in> set (take c queue) then map_option (matched_ticket asg e d p) (fmlookup (m_tickets m) p)
           else fmlookup (m_tickets m) p)"
        and dom: "fmdom T = fmdom (m_tickets m)" and asg: "assigned (take c queue) mid rid asg"
        using one_match [OF inv split al [unfolded res]] by blast
      let ?m2 = "after_match key (drop c queue) mid T m1"
      have "\<exists>t. fmlookup (m_tickets m) p = Some t" if "p \<in> set (take c queue)" for p
        using queued_iff [OF manager_inv_tables(1) [OF inv], of p key] that split by (auto dest: in_set_takeD)
      then have first: "shares_match mid (m_tickets ?m2) (take c queue)"
        using T by (intro shares_matchI [OF asg]) (fastforce simp: after_match_def)
      have same: "fmlookup (m_tickets ?m2) p = fmlookup (m_tickets m) p" if "p \<notin> set (take c queue)" for p
        using that T by (simp add: after_match_def)
      have dist: "distinct queue" using queue_distinct [OF manager_inv_tables(1) [OF inv], of key] q by simp
      have qs: "queue_of (m_queues ?m2) key = drop c queue" by (simp add: after_match_def)
      have fr: "tables_frame m ?m2"
        using tables_frame_trans [OF relay_only_frame [OF only] after_match_frame] dom only by (simp add: relay_only_def)
      have mid: "mid |\<notin>| m_match_ids m" "m_match_ids ?m2 = finsert mid (m_match_ids m)"
        using allocate_match_done [OF al [unfolded res]] only by (simp_all add: allocated_def after_match_def relay_only_def)
      note Suc = matched_first_Suc [OF c_def _ dist first mid same]
      show ?thesis
      proof (cases "drop c queue = []")
        case True
        then have "match_loop key reading queue m = Some (?m2, None)"
          using False al res mark by (simp add: match_loop.simps [of key] c_def after_match_def put_queue_def Let_def)
        moreover have "matched_first (Suc 0) key queue m ?m2"
          using False qs by (intro Suc matched_first_0) simp_all
        moreover have "0 < c" using allocate_match_nonempty [OF al [unfolded res]] by (cases c) auto
        ultimately show ?thesis using inv2 fr qs True by (intro exI [of _ ?m2] exI [of _ None] exI [of _ "Suc 0"]) (simp add: c_def)
      next
        case more: False
        have "match_loop key reading queue m = match_loop key reading (drop c queue) ?m2"
          using False al res mark more by (simp add: match_loop.simps [of key _ queue] c_def after_match_def put_queue_def Let_def)
        moreover have "length (drop c queue) < length queue"
          using allocate_match_nonempty [OF al [unfolded res]] by (cases c) auto
        from less(1) [OF this inv2 qs] obtain m' err k where IH: "match_loop key reading (drop c queue) ?m2 = Some (m', err)"
          "manager_inv m'" "tables_frame ?m2 m'" "matched_first k key (drop c queue) ?m2 m'"
          "err = None \<longleftrightarrow> length (queue_of (m_queues m') key) < unat (qk_capacity key)"
          by blast
        ultimately show ?thesis
          using Suc [OF _ _ IH(4)] False tables_frame_trans [OF fr IH(3)] IH(1,2,5) by (metis leI)
      qed
    qed
  qed
qed
lemma compact_queue_id:
  assumes "tables_inv m"
  shows "compact_queue key m = m"
proof (cases "fmlookup (m_queues m) key")
  case None
  then show ?thesis by (simp add: compact_queue_def)
next
  case (Some q)
  have q: "queue_of (m_queues m) key = q" using Some by (simp add: queue_of_def)
  have "case fmlookup (m_tickets m) p of None \<Rightarrow> False
      | Some t \<Rightarrow> tr_state t = TicketStateQueued \<and> tr_queue_key t = qk_queue_key key \<and> tr_capacity t = qk_capacity key"
    if "p \<in> set q" for p
    using queued_iff [OF assms, of p key] that q by (auto simp: ticket_key_def)
  then have "filter (\<lambda>p. case fmlookup (m_tickets m) p of None \<Rightarrow> False
      | Some t \<Rightarrow> tr_state t = TicketStateQueued \<and> tr_queue_key t = qk_queue_key key \<and> tr_capacity t = qk_capacity key) q = q"
    by (simp add: filter_id_conv)
  moreover have "q \<noteq> []" using assms Some by (auto simp: tables_inv_def tickets_inv_def)
  moreover have "fmupd key q (m_queues m) = m_queues m" using Some by (intro fmap_ext) auto
  ultimately show ?thesis using Some by (simp add: compact_queue_def Let_def)
qed

lemma match_queue_spec:
  assumes "manager_inv m"
  shows "\<exists>m' err k. match_queue key reading m = Some (m', err) \<and> manager_inv m' \<and> tables_frame m m' \<and>
    matched_first k key (queue_of (m_queues m) key) m m' \<and>
    (err = None \<longleftrightarrow> length (queue_of (m_queues m') key) < unat (qk_capacity key))"
  using match_loop_spec [OF assms refl, of key reading]
  by (simp add: match_queue_def compact_queue_id [OF manager_inv_tables(1) [OF assms]] queue_of_def)

section \<open>Tickets\<close>

lemma tickets_inv_add:
  assumes inv: "tickets_inv T Q n" and n: "n \<le> n'" and new: "fmlookup T p = None"
    and t: "ticket_ok n' p t" "tr_state t = TicketStateQueued" "ticket_key t = key"
  shows "tickets_inv (fmupd p t T) (fmupd key (queue_of Q key @ [p]) Q) n'"
proof -
  have at: "queue_of (fmupd key (queue_of Q key @ [p]) Q) k = (if k = key then queue_of Q key @ [p] else queue_of Q k)" for k
    by (simp add: queue_of_def)
  have out: "p \<notin> set (queue_of Q k)" for k using inv new by (simp add: tickets_inv_def)
  have "ticket_ok n' q s" if "fmlookup T q = Some s" for q s
    using inv that n by (auto simp: tickets_inv_def ticket_ok_def intro: less_le_trans)
  then show ?thesis using inv t out unfolding tickets_inv_def at by auto
qed

text \<open>The state in which \<open>Enqueue\<close> starts to match, and the ticket it has queued.\<close>

definition new_ticket :: "string \<Rightarrow> enqueue_request \<Rightarrow> clock_reading \<Rightarrow> string \<Rightarrow> duration \<Rightarrow> u64 \<Rightarrow> ticket_record" where
  "new_ticket p q reading ticket_id d n =
     \<lparr>tr_id = ticket_id, tr_player_id = p, tr_queue_key = eq_queue_key q, tr_capacity = eq_capacity q,
      tr_state = TicketStateQueued, tr_revision = 1, tr_sequence = n, tr_expires_at = wall reading + TicketTTL,
      tr_mono_deadline = d, tr_assignment = None\<rparr>"

definition request_key :: "enqueue_request \<Rightarrow> queue_key" where
  "request_key q = \<lparr>qk_queue_key = eq_queue_key q, qk_capacity = eq_capacity q\<rparr>"

definition enqueued :: "string \<Rightarrow> enqueue_request \<Rightarrow> ticket_record \<Rightarrow> byte list \<Rightarrow> 'l manager \<Rightarrow> 'l manager" where
  "enqueued p q t src m = m\<lparr>m_random := src, m_next_sequence := m_next_sequence m + 1,
     m_tickets := fmupd p t (m_tickets m),
     m_queues := fmupd (request_key q) (queue_of (m_queues m) (request_key q) @ [p]) (m_queues m)\<rparr>"

definition may_enqueue :: "string \<Rightarrow> 'l manager \<Rightarrow> bool" where
  "may_enqueue p m \<longleftrightarrow> fmlookup (m_lobby_by_player m) p = None \<and> fmlookup (m_tickets m) p = None \<and>
     len_map (m_tickets m) < HardMaxTickets \<and> m_next_sequence m \<noteq> max_uint64"

lemma valid_enqueue_capacity: "valid_enqueue_request q \<Longrightarrow> 2 \<le> unat (eq_capacity q) \<and> unat (eq_capacity q) \<le> 16"
  by (simp add: valid_enqueue_request_def HardMaxMembers_def word_le_nat_alt)

lemma enqueued_inv:
  assumes inv: "manager_inv m" and ok: "valid_enqueue_request q" and may: "may_enqueue p m"
  shows "manager_inv (enqueued p q (new_ticket p q reading tid d (m_next_sequence m)) src m)"
proof -
  note tab = manager_inv_tables(1) [OF inv]
  let ?t = "new_ticket p q reading tid d (m_next_sequence m)"
  have succ: "m_next_sequence m < m_next_sequence m + 1" "m_next_sequence m \<le> m_next_sequence m + 1"
    using may u64_succ [of "m_next_sequence m"] by (auto simp: may_enqueue_def)
  have "tickets_inv (fmupd p ?t (m_tickets m))
      (fmupd (request_key q) (queue_of (m_queues m) (request_key q) @ [p]) (m_queues m)) (m_next_sequence m + 1)"
    using tab may valid_enqueue_capacity [OF ok] succ
    by (intro tickets_inv_add [where n = "m_next_sequence m"])
      (simp_all add: tables_inv_def may_enqueue_def ticket_ok_def new_ticket_def ticket_key_def request_key_def)
  moreover have "lobbies_inv (m_lobby_by_player m) (m_lobbies m) (m_next_sequence m + 1)"
  proof (rule lobbies_invI)
    note L = tab [unfolded tables_inv_def, THEN conjunct1]
    show "lobby_ok (m_lobby_by_player m) (m_next_sequence m + 1) i r" if "fmlookup (m_lobbies m) i = Some r" for i r
      using lobby_ok_later [OF lobbies_inv_lookup [OF L that] succ(2)] .
    show "\<exists>r. fmlookup (m_lobbies m) i = Some r \<and> q \<in> players_of r" if "fmlookup (m_lobby_by_player m) q = Some i" for q i
      using lobbies_inv_indexed [OF L that] .
    show "i = j" if "fmlookup (m_lobbies m) i = Some r" "fmlookup (m_lobbies m) j = Some s" "lr_sequence r = lr_sequence s"
      for i r j s using lobbies_inv_sequence [OF L that] .
  qed
  moreover have "exclusive (m_lobby_by_player m) (fmupd p ?t (m_tickets m))"
    using tab may by (auto simp: tables_inv_def exclusive_def may_enqueue_def)
  ultimately show ?thesis
    using inv may by (simp add: manager_inv_def tables_inv_def relay_inv_def enqueued_def len_map_fmupd may_enqueue_def)
qed

lemma unique_id_locked_error: "unique_id_locked prefix taken src = (Inl err, src') \<Longrightarrow> err = LobbyFatalRandom"
proof -
  have "unique_draw n prefix taken src = (Inl err, src') \<Longrightarrow> err = LobbyFatalRandom" for n
    by (induction n prefix taken src rule: unique_draw.induct)
      (auto simp: draw_id_def split: prod.splits sum.splits option.splits if_splits)
  then show "unique_id_locked prefix taken src = (Inl err, src') \<Longrightarrow> err = LobbyFatalRandom"
    by (simp add: unique_id_locked_def)
qed

text \<open>Every outcome of \<open>Enqueue\<close>: refused before a ticket is made, with nothing but the sweep and the random
  source changed, or queued and matched.\<close>

lemma enqueue_cases:
  fixes p q reading ord m0
  defines "m \<equiv> expire_locked reading ord m0"
  obtains (invalid) "enqueue p q reading ord m0 = Some (m0, Inl LobbyInvalid)"
  | (refused) err src where "err \<noteq> LobbyUnavailable" "enqueue p q reading ord m0 = Some (m\<lparr>m_random := src\<rparr>, Inl err)"
  | (queued) tid src d where "valid_enqueue_request q" "may_enqueue p m"
      "enqueue p q reading ord m0 =
         (case match_queue (request_key q) reading (enqueued p q (new_ticket p q reading tid d (m_next_sequence m)) src m) of
            None \<Rightarrow> None | Some (m3, Some err) \<Rightarrow> Some (m3, Inl err)
          | Some (m3, None) \<Rightarrow> map_option (\<lambda>record. (m3, Inr (ticket_snapshot_of record))) (fmlookup (m_tickets m3) p))"
proof (cases "valid_id p \<and> valid_enqueue_request q")
  case False
  then show ?thesis by (intro invalid) (auto simp: enqueue_def)
next
  case valid: True
  show ?thesis
  proof (cases "may_enqueue p m")
    case False
    have same: "m\<lparr>m_random := m_random m\<rparr> = m" by simp
    consider "fmlookup (m_lobby_by_player m) p \<noteq> None" | "fmlookup (m_lobby_by_player m) p = None" "fmlookup (m_tickets m) p \<noteq> None"
      | "fmlookup (m_lobby_by_player m) p = None" "fmlookup (m_tickets m) p = None"
        "len_map (m_tickets m) \<ge> HardMaxTickets \<or> m_next_sequence m = max_uint64"
      using False unfolding may_enqueue_def by (metis not_less)
    then have "\<exists>err. err \<noteq> LobbyUnavailable \<and> enqueue p q reading ord m0 = Some (m, Inl err)"
      by cases (use valid in \<open>simp_all add: enqueue_def m_def [symmetric] Let_def\<close>)
    then obtain err where "err \<noteq> LobbyUnavailable" "enqueue p q reading ord m0 = Some (m, Inl err)" by blast
    then show ?thesis using refused [of err "m_random m"] same by simp
  next
    case may: True
    obtain res src where u: "unique_id_locked ''t-'' (\<lambda>c. \<not> fmpred (\<lambda>p t. tr_id t \<noteq> c) (m_tickets m)) (m_random m) = (res, src)"
      by fastforce
    show ?thesis
    proof (cases res)
      case (Inl err)
      then show ?thesis using valid may u
        unique_id_locked_error [OF u [unfolded Inl]] by (intro refused [of err src]) (simp_all add: enqueue_def m_def [symmetric] may_enqueue_def Let_def not_le)
    next
      case (Inr tid)
      show ?thesis
      proof (cases "lobby_deadline_after (mono reading) TicketTTL")
        case None
        then show ?thesis using valid may u Inr
          by (intro refused [of LobbyInvalid src]) (simp_all add: enqueue_def m_def [symmetric] may_enqueue_def Let_def not_le)
      next
        case (Some d)
        then show ?thesis using valid may u Inr
          by (intro queued [of tid d src])
            (simp_all add: enqueue_def m_def [symmetric] may_enqueue_def Let_def not_le take_sequence_def enqueued_def
              new_ticket_def request_key_def queue_of_def)
      qed
    qed
  qed
qed

lemma enqueue_total:
  assumes inv: "manager_inv m0"
  shows "\<exists>m' res. enqueue p q reading ord m0 = Some (m', res) \<and> manager_inv m'"
proof (cases rule: enqueue_cases [of p q reading ord m0])
  case (queued tid src d)
  define m where "m = expire_locked reading ord m0"
  let ?m = "enqueued p q (new_ticket p q reading tid d (m_next_sequence m)) src m"
  have "manager_inv ?m" using queued inv by (intro enqueued_inv) (simp_all add: m_def expire_locked_inv)
  from match_queue_spec [OF this, of "request_key q" reading] obtain m3 err where
    mq: "match_queue (request_key q) reading ?m = Some (m3, err)" and m3: "manager_inv m3" "tables_frame ?m m3"
    by blast
  have "p |\<in>| fmdom (m_tickets m3)" using m3(2) by (simp add: tables_frame_def enqueued_def)
  then obtain t where "fmlookup (m_tickets m3) p = Some t" by (auto simp: fmlookup_dom_iff)
  then have "\<exists>res. enqueue p q reading ord m0 = Some (m3, res)"
    unfolding queued(3) m_def [symmetric] mq by (cases err) simp_all
  then show ?thesis using m3(1) by blast
qed (use inv in \<open>simp_all add: expire_locked_inv\<close>)

lemma cancel_ticket_inv:
  assumes "manager_inv m0"
  shows "manager_inv (fst (cancel_ticket p revision reading ord m0))"
proof (cases "\<not> valid_id p \<or> revision = 0")
  case True
  then show ?thesis using assms by (auto simp: cancel_ticket_def)
next
  case False
  define m where "m = expire_locked reading ord m0"
  have inv: "manager_inv m" using assms by (simp add: m_def expire_locked_inv)
  note tab = manager_inv_tables(1) [OF inv]
  show ?thesis
  proof (cases "fmlookup (m_tickets m) p")
    case None
    then show ?thesis using False inv by (simp add: cancel_ticket_def m_def [symmetric])
  next
    case (Some t)
    let ?m = "remove_queued_player (ticket_key t) p (m\<lparr>m_tickets := fmdrop p (m_tickets m)\<rparr>)"
    have key: "ticket_key (t\<lparr>tr_state := s, tr_revision := v\<rparr>) = ticket_key t" for s v by (simp add: ticket_key_def)
    have "manager_inv ?m" if "tr_state t = TicketStateQueued"
    proof -
      have "tickets_inv (fmdrop p (m_tickets m)) (m_queues ?m) (m_next_sequence m)"
      proof (rule tickets_inv_drop [OF _ Some])
        show "tickets_inv (m_tickets m) (m_queues m) (m_next_sequence m)" using tab by (simp add: tables_inv_def)
        show "\<forall>k. fmlookup (m_queues ?m) k \<noteq> Some []"
          using tab remove_queued_nonempty [of "m\<lparr>m_tickets := fmdrop p (m_tickets m)\<rparr>"]
          by (auto simp: tables_inv_def tickets_inv_def)
      qed (simp add: queue_of_remove that)
      moreover have "exclusive (m_lobby_by_player m) (fmdrop p (m_tickets m))"
        using tab by (auto simp: tables_inv_def exclusive_def)
      ultimately show ?thesis
        using inv len_map_fmdrop_le [of p "m_tickets m"] by (simp add: manager_inv_def tables_inv_def relay_inv_def)
    qed
    then show ?thesis using False Some inv by (simp add: cancel_ticket_def m_def [symmetric] Let_def key)
  qed
qed

lemma read_only_inv:
  assumes "manager_inv m0"
  shows "manager_inv (fst (get_ticket p reading ord m0))" "manager_inv (fst (lobby_get p i reading ord m0))"
    "manager_inv (fst (lobby_list key cursor limit reading ord ids m0))" "manager_inv (lobby_expire reading ord m0)"
  using assms
  by (auto simp: get_ticket_def lobby_get_def lobby_list_def lobby_expire_def Let_def expire_locked_inv split: option.split sum.split)

end
