(* ===== verification/Lobby_Machine.thy ===== *)
theory Lobby_Machine
  imports Match_Keeps
begin

text \<open>
  The lobby manager as a state machine: a step is one operation of the manager, or one operation that
  another client (the control plane, the UDP relay) makes on the store that the manager shares with it.
  Along a run the invariant holds, and the revision of a lobby tells its history: it never decreases, and
  a lobby whose revision has not changed has not changed.
\<close>

section \<open>Operations and steps\<close>

datatype lobby_op =
    L_Create string create_request
  | L_List string string int "string list"
  | L_Get string string
  | L_Join string string u64
  | L_Leave string string u64
  | L_Set_Ready string string u64 bool
  | L_Start string string u64
  | L_Expire
  | L_Enqueue string enqueue_request
  | L_Get_Ticket string
  | L_Cancel_Ticket string u64

datatype lobby_response =
    R_Lobby "lobby_error + lobby_snapshot"
  | R_Page "lobby_error + lobby_page"
  | R_Assignment "lobby_error + assignment"
  | R_Ticket "lobby_error + ticket_snapshot"
  | R_Done

text \<open>One operation; \<^const>\<open>None\<close> is a panic.\<close>

fun lobby_perform :: "lobby_op \<Rightarrow> clock_reading \<Rightarrow> sweep_order \<Rightarrow> 'l manager \<Rightarrow> ('l manager \<times> lobby_response) option" where
  "lobby_perform (L_Create p q) reading ord m = Some (map_prod id R_Lobby (lobby_create p q reading ord m))"
| "lobby_perform (L_List key cursor limit ids) reading ord m =
     Some (map_prod id R_Page (lobby_list key cursor limit reading ord ids m))"
| "lobby_perform (L_Get p i) reading ord m = Some (map_prod id R_Lobby (lobby_get p i reading ord m))"
| "lobby_perform (L_Join p i revision) reading ord m = Some (map_prod id R_Lobby (lobby_join p i revision reading ord m))"
| "lobby_perform (L_Leave p i revision) reading ord m = Some (map_prod id R_Lobby (lobby_leave p i revision reading ord m))"
| "lobby_perform (L_Set_Ready p i revision ready) reading ord m =
     Some (map_prod id R_Lobby (lobby_set_ready p i revision ready reading ord m))"
| "lobby_perform (L_Start p i revision) reading ord m = Some (map_prod id R_Assignment (lobby_start p i revision reading ord m))"
| "lobby_perform L_Expire reading ord m = Some (lobby_expire reading ord m, R_Done)"
| "lobby_perform (L_Enqueue p q) reading ord m = map_option (map_prod id R_Ticket) (enqueue p q reading ord m)"
| "lobby_perform (L_Get_Ticket p) reading ord m = Some (map_prod id R_Ticket (get_ticket p reading ord m))"
| "lobby_perform (L_Cancel_Ticket p revision) reading ord m = Some (map_prod id R_Ticket (cancel_ticket p revision reading ord m))"

text \<open>The orders in which a sweep can meet the two tables.\<close>

definition sweep_fits :: "sweep_order \<Rightarrow> 'l manager \<Rightarrow> bool" where
  "sweep_fits ord m \<longleftrightarrow> distinct (fst ord) \<and> set (fst ord) = fmdom' (m_lobbies m) \<and>
     distinct (snd ord) \<and> set (snd ord) = fmdom' (m_tickets m)"

datatype lobby_event = Manager_Call lobby_op clock_reading sweep_order lobby_response | Store_Call store_event

inductive lobby_step :: "'l limiter_api \<Rightarrow> hmac_fun \<Rightarrow> 'l manager \<Rightarrow> lobby_event \<Rightarrow> 'l manager \<Rightarrow> bool" for A H where
  manager_call: "sweep_fits ord m \<Longrightarrow> lobby_perform op reading ord m = Some (m', r) \<Longrightarrow>
    lobby_step A H m (Manager_Call op reading ord r) m'"
| store_call: "store_step A H (m_relay m) e st' \<Longrightarrow> lobby_step A H m (Store_Call e) (m\<lparr>m_relay := st'\<rparr>)"

inductive_cases lobby_stepE: "lobby_step A H m e m'"
inductive_simps lobby_call_iff: "lobby_step A H m (Manager_Call op reading ord r) m'"

section \<open>The invariant along a run\<close>

lemma fst_map_prod_eq: "(m', r) = map_prod id f x \<Longrightarrow> m' = fst x"
  by (cases x) simp

lemma lobby_perform_inv:
  assumes inv: "manager_inv m" and p: "lobby_perform op reading ord m = Some (m', r)"
  shows "manager_inv m'"
proof (cases op)
  case (L_Enqueue p q)
  then show ?thesis using assms enqueue_total [OF inv, of p q reading ord] by auto
qed (use p in \<open>auto simp: lobby_expire_def dest!: fst_map_prod_eq [OF sym] intro: lobby_create_inv [OF inv]
    lobby_join_inv [OF inv] lobby_leave_inv [OF inv] lobby_set_ready_inv [OF inv] lobby_start_inv [OF inv]
    read_only_inv [OF inv] cancel_ticket_inv [OF inv] expire_locked_inv [OF inv]\<close>)

lemma lobby_perform_total: "manager_inv m \<Longrightarrow> \<exists>m' r. lobby_perform op reading ord m = Some (m', r)"
proof (cases op)
  case (L_Enqueue p q)
  assume "manager_inv m"
  then show ?thesis using enqueue_total [of m p q reading ord] L_Enqueue by auto
qed (simp_all add: surj_pair)

definition lawful_manager :: "'l limiter_api \<Rightarrow> 'l manager \<Rightarrow> bool" where
  "lawful_manager A m \<longleftrightarrow> (limiter_law A \<longrightarrow> manager_inv m)"

lemma store_call_inv:
  assumes law: "limiter_law A" and inv: "manager_inv m" and step: "store_step A H (m_relay m) e st'"
  shows "manager_inv (m\<lparr>m_relay := st'\<rparr>)"
proof -
  have "store_inv st'"
    using keeps.step_inv [OF step] law inv by (simp add: lawful_inv_def manager_inv_def relay_inv_def)
  then show ?thesis using inv by (simp add: manager_inv_def tables_inv_def relay_inv_def)
qed

interpretation manager: preserved "lobby_step A H" "lawful_manager A" for A :: "'l limiter_api" and H
proof
  fix m m' :: "'l manager" and e
  assume "lobby_step A H m e m'" "lawful_manager A m"
  then show "lawful_manager A m'"
    by (auto simp: lawful_manager_def elim!: lobby_stepE intro: lobby_perform_inv store_call_inv)
qed

section \<open>Revisions\<close>

text \<open>Every lobby of the later state was created since, or is a lobby of the earlier state whose revision has
  not decreased, and that has not changed unless its revision has; a matched lobby never changes.\<close>

definition descends :: "'l manager \<Rightarrow> 'l manager \<Rightarrow> bool" where
  "descends m m' \<longleftrightarrow> m_next_sequence m \<le> m_next_sequence m' \<and>
     (\<forall>i r'. fmlookup (m_lobbies m') i = Some r' \<longrightarrow> lr_sequence r' < m_next_sequence m \<longrightarrow>
        (\<exists>r. fmlookup (m_lobbies m) i = Some r \<and> lr_sequence r = lr_sequence r' \<and> lr_revision r \<le> lr_revision r' \<and>
           (lr_revision r = lr_revision r' \<or> lr_state r = LobbyStateMatched \<longrightarrow> r' = r)))"

lemma descends_refl [simp]: "descends m m"
  by (simp add: descends_def)

lemma descendsD:
  assumes "descends m m'" and "fmlookup (m_lobbies m') i = Some r'" and "lr_sequence r' < m_next_sequence m"
  obtains r where "fmlookup (m_lobbies m) i = Some r" "lr_sequence r = lr_sequence r'" "lr_revision r \<le> lr_revision r'"
    "lr_revision r = lr_revision r' \<Longrightarrow> r' = r" "lr_state r = LobbyStateMatched \<Longrightarrow> r' = r"
  using assms unfolding descends_def by blast

lemma descends_trans:
  assumes ab: "descends a b" and bc: "descends b c"
  shows "descends a c"
proof -
  have n: "m_next_sequence a \<le> m_next_sequence b" "m_next_sequence b \<le> m_next_sequence c"
    using ab bc by (simp_all add: descends_def)
  have "\<exists>r. fmlookup (m_lobbies a) i = Some r \<and> lr_sequence r = lr_sequence r'' \<and> lr_revision r \<le> lr_revision r'' \<and>
      (lr_revision r = lr_revision r'' \<or> lr_state r = LobbyStateMatched \<longrightarrow> r'' = r)"
    if c: "fmlookup (m_lobbies c) i = Some r''" "lr_sequence r'' < m_next_sequence a" for i r''
  proof -
    obtain r' where r': "fmlookup (m_lobbies b) i = Some r'" "lr_sequence r' = lr_sequence r''" "lr_revision r' \<le> lr_revision r''"
      "lr_revision r' = lr_revision r'' \<Longrightarrow> r'' = r'" "lr_state r' = LobbyStateMatched \<Longrightarrow> r'' = r'"
      using descendsD [OF bc c(1) less_le_trans [OF c(2) n(1)]] by blast
    obtain r where r: "fmlookup (m_lobbies a) i = Some r" "lr_sequence r = lr_sequence r'" "lr_revision r \<le> lr_revision r'"
      "lr_revision r = lr_revision r' \<Longrightarrow> r' = r" "lr_state r = LobbyStateMatched \<Longrightarrow> r' = r"
      using descendsD [OF ab r'(1)] c(2) r'(2) by metis
    have "r'' = r" if "lr_revision r = lr_revision r''"
    proof -
      have "lr_revision r = lr_revision r'" using that r(3) r'(3) by (intro order.antisym) simp_all
      moreover from this have "r' = r" by (rule r(4))
      moreover have "lr_revision r' = lr_revision r''" using that \<open>lr_revision r = lr_revision r'\<close> by simp
      then have "r'' = r'" by (rule r'(4))
      ultimately show ?thesis by simp
    qed
    moreover have "r'' = r" if "lr_state r = LobbyStateMatched" proof -
      have "r' = r" using that by (rule r(5))
      moreover from this have "r'' = r'" using that by (intro r'(5)) simp
      ultimately show ?thesis by simp
    qed
    moreover have "lr_revision r \<le> lr_revision r''" using r(3) r'(3) by (rule order_trans)
    moreover have "lr_sequence r = lr_sequence r''" using r(2) r'(2) by simp
    ultimately show ?thesis using r(1) by blast
  qed
  then show ?thesis using order_trans [OF n] unfolding descends_def by blast
qed

lemma descends_drop:
  assumes "m_next_sequence m' = m_next_sequence m" and "\<And>i r. fmlookup (m_lobbies m') i = Some r \<Longrightarrow> fmlookup (m_lobbies m) i = Some r"
  shows "descends m m'"
  using assms unfolding descends_def by auto

lemma descends_same: "m_next_sequence m' = m_next_sequence m \<Longrightarrow> m_lobbies m' = m_lobbies m \<Longrightarrow> descends m m'"
  by (rule descends_drop) simp_all

lemma descends_write:
  assumes "m_lobbies m' = fmupd i r1 (m_lobbies m)" and "fmlookup (m_lobbies m) i = Some r" and "lr_sequence r1 = lr_sequence r" and "lr_revision r1 = lr_revision r + 1"
    and "lr_revision r \<noteq> max_uint64" and "lr_state r = LobbyStateOpen"
    and "m_next_sequence m \<le> m_next_sequence m'"
  shows "descends m m'"
  using assms u64_succ(2,3) [OF assms(5)] unfolding descends_def by auto
section \<open>Every operation descends\<close>

lemma expire_lobby_next [simp]: "m_next_sequence (expire_lobby reading i m) = m_next_sequence m"
  by (simp add: expire_lobby_def Let_def relay_end_room_def split: option.split)

lemma expire_lobby_keeps: "fmlookup (m_lobbies (expire_lobby reading i m)) j = Some r \<Longrightarrow> fmlookup (m_lobbies m) j = Some r"
  by (auto simp: expire_lobby_def Let_def relay_end_room_def split: option.splits if_splits)

lemma expire_ticket_lobbies:
  "m_next_sequence (expire_ticket reading p m) = m_next_sequence m" "m_lobbies (expire_ticket reading p m) = m_lobbies m"
  by (simp_all add: expire_ticket_def Let_def relay_end_room_def split: option.split)

lemma expire_locked_lobbies:
  "m_next_sequence (expire_locked reading ord m) = m_next_sequence m \<and>
   (fmlookup (m_lobbies (expire_locked reading ord m)) j = Some r \<longrightarrow> fmlookup (m_lobbies m) j = Some r)"
proof -
  have "m_next_sequence (fold (expire_ticket reading) ps m) = m_next_sequence m \<and>
      m_lobbies (fold (expire_ticket reading) ps m) = m_lobbies m" for ps and m :: "'a manager"
    by (induction ps arbitrary: m) (simp_all add: expire_ticket_lobbies)
  moreover have "m_next_sequence (fold (expire_lobby reading) is m) = m_next_sequence m" for "is" and m :: "'a manager"
    by (induction "is" arbitrary: m) simp_all
  moreover have "fmlookup (m_lobbies (fold (expire_lobby reading) is m)) j = Some r \<Longrightarrow> fmlookup (m_lobbies m) j = Some r"
    for "is" and m :: "'a manager"
    by (induction "is" arbitrary: m) (auto dest: expire_lobby_keeps)
  ultimately show ?thesis by (simp add: expire_locked_def expire_tickets_def)
qed

lemma expire_locked_descends: "descends m (expire_locked reading ord m)"
  using expire_locked_lobbies by (intro descends_drop) blast+

lemma with_open_lobby_descends:
  assumes "\<And>r m. fmlookup (m_lobbies m) i = Some r \<Longrightarrow> lr_state r = LobbyStateOpen \<Longrightarrow> descends m (fst (body r m))"
  shows "descends m0 (fst (with_open_lobby p i revision reading ord m0 body))"
  using expire_locked_descends [of m0 reading ord] assms [of "expire_locked reading ord m0"]
  by (auto simp: with_open_lobby_def Let_def split: option.split intro: descends_trans)

lemma relay_only_descends: "relay_only m m' \<Longrightarrow> descends m m'"
  by (simp add: relay_only_def descends_same)

lemma frame_descends: "tables_frame m m' \<Longrightarrow> descends m m'"
  by (simp add: tables_frame_def descends_same)

lemma lobby_create_descends: "descends m0 (fst (lobby_create p q reading ord m0))"
proof -
  define m where "m = expire_locked reading ord m0"
  have "descends m (fst (lobby_create p q reading ord m0))" if "valid_id p \<and> valid_create_request q"
  proof -
    have random: "descends m (m\<lparr>m_random := src\<rparr>)" for src by (simp add: descends_same)
    have add: "descends m (m\<lparr>m_random := src, m_next_sequence := m_next_sequence m + 1, m_lobbies := fmupd i r (m_lobbies m),
        m_lobby_by_player := B\<rparr>)" if "m_next_sequence m \<noteq> max_uint64" "lr_sequence r = m_next_sequence m" for src i r B
      using that u64_succ(3) [OF that(1)] by (auto simp: descends_def)
    show ?thesis
      using that random add
      by (auto simp: lobby_create_def m_def [symmetric] Let_def take_sequence_def split: prod.split sum.split option.split)
  qed
  moreover have "descends m0 m" unfolding m_def by (rule expire_locked_descends)
  ultimately show ?thesis
    by (cases "valid_id p \<and> valid_create_request q") (auto simp: lobby_create_def intro: descends_trans)
qed

lemma lobby_join_descends: "descends m0 (fst (lobby_join p i revision reading ord m0))"
  unfolding lobby_join_def
proof (rule with_open_lobby_descends, goal_cases)
  case (1 r m)
  then show ?case
    by (auto simp: Let_def take_sequence_def set_lobby_def u64_succ(3)
        intro!: descends_write [where r = r and i = i] split: prod.split)
qed

lemma lobby_leave_descends: "descends m0 (fst (lobby_leave p i revision reading ord m0))"
  unfolding lobby_leave_def
proof (rule with_open_lobby_descends, goal_cases)
  case (1 r m)
  have "descends m (m\<lparr>m_lobby_by_player := B, m_lobbies := fmdrop i (m_lobbies m)\<rparr>)" for B
    by (rule descends_drop) (auto split: if_splits)
  with 1 show ?case
    by (auto simp: Let_def set_lobby_def intro!: descends_write [where r = r and i = i])
qed

lemma lobby_set_ready_descends: "descends m0 (fst (lobby_set_ready p i revision ready reading ord m0))"
  unfolding lobby_set_ready_def
proof (rule with_open_lobby_descends, goal_cases)
  case (1 r m)
  then show ?case
    by (auto simp: Let_def set_lobby_def split: option.split intro!: descends_write [where r = r and i = i])
qed

lemma lobby_start_descends: "descends m0 (fst (lobby_start p i revision reading ord m0))"
  unfolding lobby_start_def
proof (rule with_open_lobby_descends, goal_cases)
  case (1 r m)
  obtain m1 res where al: "allocate_match (members_in_join_order r) reading m = (m1, res)" by fastforce
  note only = allocate_match_only [OF al]
  have wr: "descends m ((set_lobby i r1 m1)\<lparr>m_match_ids := ids\<rparr>)"
    if "lr_sequence r1 = lr_sequence r" "lr_revision r1 = lr_revision r + 1" "lr_revision r \<noteq> max_uint64" for r1 ids
    using 1 that only by (intro descends_write [where r = r and i = i]) (auto simp: set_lobby_def relay_only_def)
  show ?case using al wr relay_only_descends [OF only] by (auto split: sum.split)
qed

lemma enqueue_descends:
  assumes inv: "manager_inv m0" and e: "enqueue p q reading ord m0 = Some (m', res)"
  shows "descends m0 m'"
proof -
  define m where "m = expire_locked reading ord m0"
  have d: "descends m0 m" unfolding m_def by (rule expire_locked_descends)
  show ?thesis
  proof (cases rule: enqueue_cases [of p q reading ord m0])
    case invalid
    then show ?thesis using e by simp
  next
    case (refused err src)
    then have "m' = m\<lparr>m_random := src\<rparr>" using e by (simp add: m_def)
    then show ?thesis using descends_trans [OF d] by (simp add: descends_same)
  next
    case (queued tid src dl)
    let ?m = "enqueued p q (new_ticket p q reading tid dl (m_next_sequence m)) src m"
    have "manager_inv ?m" using queued inv by (intro enqueued_inv) (simp_all add: m_def expire_locked_inv)
    from match_queue_spec [OF this, of "request_key q" reading] obtain m3 err where
      mq: "match_queue (request_key q) reading ?m = Some (m3, err)" and fr: "tables_frame ?m m3"
      by blast
    have "m' = m3" using e unfolding queued(3) m_def [symmetric] mq by (auto split: option.splits)
    moreover have "m_next_sequence m \<noteq> max_uint64" using queued(2) by (simp add: may_enqueue_def m_def)
    then have "descends m ?m" by (auto simp: enqueued_def descends_def u64_succ(3))
    ultimately show ?thesis using descends_trans [OF d] descends_trans frame_descends [OF fr] by blast
  qed
qed

lemma cancel_ticket_descends: "descends m0 (fst (cancel_ticket p revision reading ord m0))"
proof -
  have "descends m (remove_queued_player key p (m\<lparr>m_tickets := T\<rparr>))" for key T and m :: "'a manager"
    by (simp add: descends_same)
  then show ?thesis
    using expire_locked_descends [of m0 reading ord]
    by (auto simp: cancel_ticket_def Let_def split: option.split intro: descends_trans)
qed

lemma lobby_perform_descends:
  assumes inv: "manager_inv m" and p: "lobby_perform op reading ord m = Some (m', r)"
  shows "descends m m'"
proof -
  have reads: "descends m (fst (get_ticket p reading ord m))" "descends m (fst (lobby_get p i reading ord m))"
    "descends m (fst (lobby_list key cursor limit reading ord ids m))" for p i key cursor limit ids
    by (auto simp: get_ticket_def lobby_get_def lobby_list_def Let_def expire_locked_descends split: option.split sum.split)
  show ?thesis
  proof (cases op)
    case (L_Enqueue p q)
    then show ?thesis using p by (auto intro: enqueue_descends [OF inv])
  qed (use p in \<open>auto simp: lobby_expire_def expire_locked_descends dest!: fst_map_prod_eq [OF sym] intro: reads
      lobby_create_descends lobby_join_descends lobby_leave_descends lobby_set_ready_descends lobby_start_descends
      cancel_ticket_descends\<close>)
qed

text \<open>Runs under a limiter that obeys its law: the invariant and the history of the revisions.\<close>

definition lawful_descends :: "'l limiter_api \<Rightarrow> 'l manager \<Rightarrow> 'l manager \<Rightarrow> bool" where
  "lawful_descends A m m' \<longleftrightarrow> (limiter_law A \<longrightarrow> descends m m')"

interpretation history: monotone "lobby_step A H" "lawful_manager A" "lawful_descends A" for A :: "'l limiter_api" and H
proof
  show "lawful_descends A m m" for m :: "'l manager" by (simp add: lawful_descends_def)
  show "lawful_descends A a c" if "lawful_descends A a b" "lawful_descends A b c" for a b c :: "'l manager"
    using that descends_trans by (auto simp: lawful_descends_def)
  show "lawful_descends A m m'" if "lobby_step A H m e m'" "lawful_manager A m" for m m' :: "'l manager" and e
    using that by (auto simp: lawful_descends_def lawful_manager_def descends_same elim!: lobby_stepE
        intro: lobby_perform_descends)
qed

text \<open>The managers a program can get to.\<close>

definition lobby_reachable :: "'l limiter_api \<Rightarrow> hmac_fun \<Rightarrow> 'l manager \<Rightarrow> bool" where
  "lobby_reachable A H m \<longleftrightarrow> (\<exists>st clock random m0 es. store_reachable A H st \<and> (\<forall>k. reading_ok (clock k)) \<and>
     manager_new A (Some st) clock random = Inr m0 \<and> run (lobby_step A H) m0 es m)"

lemma lobby_reachable_inv:
  assumes law: "limiter_law A" and reach: "lobby_reachable A H m"
  shows "manager_inv m"
proof -
  obtain st clock random m0 es where m0: "store_reachable A H st" "\<forall>k. reading_ok (clock k)"
    "manager_new A (Some st) clock random = Inr m0" and es: "run (lobby_step A H) m0 es m"
    using reach by (auto simp: lobby_reachable_def)
  have "manager_inv m0" using manager_new_inv [OF m0(3)] reachable_inv [OF law m0(1)] m0(2) by simp
  then show ?thesis using manager.run_inv [OF es] law by (simp add: lawful_manager_def)
qed

end
