(* ===== verification/Lobby_Properties.thy ===== *)
theory Lobby_Properties
  imports Lobby_Machine Store_Properties
begin

text \<open>
  What holds of every lobby manager a program can get to: who is where, what a revision is worth, what
  \<open>Start\<close> and \<open>Enqueue\<close> promise, and how \<open>List\<close> pages.
\<close>

section \<open>A manager for the witnesses\<close>

definition demo_manager :: "(int \<times> int) manager" where
  "demo_manager = (case manager_new bucket (Some demo_start) (\<lambda>_. demo_at 0) (map of_nat [0..<250]) of Inr m \<Rightarrow> m)"

definition demo_create :: create_request where
  "demo_create = \<lparr>lq_visibility = Some VisibilityPublic, lq_queue_key = ''duel'', lq_capacity = 2\<rparr>"

definition demo_enqueue :: enqueue_request where
  "demo_enqueue = \<lparr>eq_queue_key = ''duel'', eq_capacity = 2\<rparr>"

text \<open>The manager after one operation.\<close>

definition called :: "lobby_op \<Rightarrow> sweep_order \<Rightarrow> (int \<times> int) manager \<Rightarrow> (int \<times> int) manager" where
  "called op ord m = fst (the (lobby_perform op (demo_at 0) ord m))"

definition demo_id :: string where
  "demo_id = ''l-AAECAwQFBgcICQoLDA0ODw''"

definition demo_lobby :: "(int \<times> int) manager" where
  "demo_lobby = called (L_Create ''a'' demo_create) ([], []) demo_manager"

definition demo_second :: string where
  "demo_second = ''l-EBESExQVFhcYGRobHB0eHw''"

definition demo_two :: "(int \<times> int) manager" where
  "demo_two = called (L_Create ''b'' demo_create) ([demo_id], []) demo_lobby"

definition demo_joined :: "(int \<times> int) manager" where
  "demo_joined = called (L_Join ''b'' demo_id 1) ([demo_id], []) demo_lobby"

definition demo_ready :: "(int \<times> int) manager" where
  "demo_ready = called (L_Set_Ready ''a'' demo_id 2 True) ([demo_id], []) demo_joined"

definition demo_full :: "(int \<times> int) manager" where
  "demo_full = called (L_Set_Ready ''b'' demo_id 3 True) ([demo_id], []) demo_ready"

definition demo_waiting :: "(int \<times> int) manager" where
  "demo_waiting = called (L_Enqueue ''c'' demo_enqueue) ([], []) demo_manager"

text \<open>A manager whose store reads a later wall clock than the manager does, so that no room can be made.\<close>

definition demo_late :: "(int \<times> int) manager" where
  "demo_late = (case manager_new bucket (Some demo_start) (\<lambda>_. demo_at (1000 * second)) (map of_nat [0..<250]) of Inr m \<Rightarrow> m)"

definition demo_late_waiting :: "(int \<times> int) manager" where
  "demo_late_waiting = called (L_Enqueue ''c'' demo_enqueue) ([], []) demo_late"

lemma demo_new_reachable:
  "lobby_reachable bucket hmac_message demo_manager" "lobby_reachable bucket hmac_message demo_late"
proof -
  have new: "manager_new bucket (Some demo_start) clock random = Inr m \<Longrightarrow> \<forall>k. reading_ok (clock k) \<Longrightarrow>
      lobby_reachable bucket hmac_message m" for clock random m
    unfolding lobby_reachable_def using demo_reachable(1)
    by (intro exI [of _ demo_start] exI [of _ clock] exI [of _ random] exI [of _ m] exI [of _ "[]"]) simp
  have "manager_new bucket (Some demo_start) (\<lambda>_. demo_at 0) (map of_nat [0..<250]) = Inr demo_manager"
    by (simp add: demo_manager_def manager_new_def)
  from new [OF this] show "lobby_reachable bucket hmac_message demo_manager" by (simp add: in_i64_def)
  have "manager_new bucket (Some demo_start) (\<lambda>_. demo_at (1000 * second)) (map of_nat [0..<250]) = Inr demo_late"
    by (simp add: demo_late_def manager_new_def)
  from new [OF this] show "lobby_reachable bucket hmac_message demo_late" by (simp add: in_i64_def)
qed

lemma called_reachable:
  assumes reach: "lobby_reachable bucket hmac_message m" and fits: "sweep_fits ord m"
  shows "lobby_reachable bucket hmac_message (called op ord m)"
proof -
  obtain m' r where p: "lobby_perform op (demo_at 0) ord m = Some (m', r)"
    using lobby_perform_total [OF lobby_reachable_inv [OF bucket_law reach]] by blast
  then have "lobby_step bucket hmac_message m (Manager_Call op (demo_at 0) ord r) (called op ord m)"
    using fits by (simp add: lobby_call_iff called_def)
  then show ?thesis using reach unfolding lobby_reachable_def by (meson run_append run_Cons run_Nil)
qed

lemma sweep_fits_code [code]: "sweep_fits ord m \<longleftrightarrow> distinct (fst ord) \<and> fset_of_list (fst ord) = fmdom (m_lobbies m) \<and>
    distinct (snd ord) \<and> fset_of_list (snd ord) = fmdom (m_tickets m)"
  by (simp add: sweep_fits_def fmdom'_alt_def fset_inject [symmetric] fset_of_list.rep_eq)

lemma demo_fits: "sweep_fits ([], []) demo_manager \<and> sweep_fits ([], []) demo_late \<and> sweep_fits ([demo_id], []) demo_lobby"
    "sweep_fits ([demo_id], []) demo_joined \<and> sweep_fits ([demo_id], []) demo_ready"
  by code_simp+

lemma demo_lobby_reachable:
  "lobby_reachable bucket hmac_message demo_lobby" "lobby_reachable bucket hmac_message demo_two"
  "lobby_reachable bucket hmac_message demo_joined" "lobby_reachable bucket hmac_message demo_full"
  "lobby_reachable bucket hmac_message demo_waiting" "lobby_reachable bucket hmac_message demo_late_waiting"
proof -
  show 1: "lobby_reachable bucket hmac_message demo_lobby"
    unfolding demo_lobby_def using demo_new_reachable(1) demo_fits(1) by (intro called_reachable) simp_all
  show "lobby_reachable bucket hmac_message demo_two"
    unfolding demo_two_def using 1 demo_fits(1) by (intro called_reachable) simp_all
  show 2: "lobby_reachable bucket hmac_message demo_joined"
    unfolding demo_joined_def using 1 demo_fits(1) by (intro called_reachable) simp_all
  have 3: "lobby_reachable bucket hmac_message demo_ready"
    unfolding demo_ready_def using 2 demo_fits(2) by (intro called_reachable) simp_all
  show "lobby_reachable bucket hmac_message demo_full"
    unfolding demo_full_def using 3 demo_fits(2) by (intro called_reachable) simp_all
  show "lobby_reachable bucket hmac_message demo_waiting" "lobby_reachable bucket hmac_message demo_late_waiting"
    unfolding demo_waiting_def demo_late_waiting_def using demo_new_reachable demo_fits(1) by (intro called_reachable; simp)+
qed

section \<open>Cursors and pages\<close>

lemma unat_u64: "unat (s :: u64) < 2 ^ 64"
  using unsigned_less [of s, where ?'a = nat] by simp

text \<open>C27: the cursor of \<open>List\<close> is the decimal form of a sequence number and nothing else is accepted:
  \<open>parseCursor\<close> reads back exactly what \<open>FormatUint\<close> printed (no sign, no leading zero, no overflow), and
  the empty cursor is the beginning.\<close>

theorem cursor_round_trip:
  "parse_cursor cursor = Inr s \<longleftrightarrow> cursor = (if s = 0 then [] else format_uint (unat s))"
proof
  assume p: "parse_cursor cursor = Inr s"
  show "cursor = (if s = 0 then [] else format_uint (unat s))"
  proof (cases "cursor = []")
    case True
    then show ?thesis using p by (auto simp: parse_cursor_def)
  next
    case False
    then obtain v where v: "parse_uint cursor = Some v" "v \<noteq> 0" "format_uint v = cursor" "s = of_nat v"
      using p by (auto simp: parse_cursor_def split: option.splits if_splits)
    then have "unat s = v" using parse_uint_bound [OF v(1)] by (simp add: unsigned_of_nat take_bit_nat_eq_self)
    then show ?thesis using v(2,3) by auto
  qed
next
  assume c: "cursor = (if s = 0 then [] else format_uint (unat s))"
  show "parse_cursor cursor = Inr s"
  proof (cases "s = 0")
    case True
    then show ?thesis using c by (simp add: parse_cursor_def)
  next
    case False
    then have "unat s \<noteq> 0" by (simp add: unat_eq_0)
    then show ?thesis
      using c False format_uint_nonempty parse_uint_format [OF unat_u64 [of s]] by (simp add: parse_cursor_def)
  qed
qed

lemma strict_sort_key:
  assumes "distinct (map f xs)"
  shows "sorted_wrt (\<lambda>x y. f x < f y) (sort_key f xs)"
proof -
  have "sorted (map f (sort_key f xs))" by simp
  moreover have "distinct (map f (sort_key f xs))" using assms by (simp add: distinct_map)
  ultimately have "sorted_wrt (<) (map f (sort_key f xs))" by (simp add: strict_sorted_iff)
  then show ?thesis by (simp add: sorted_wrt_map)
qed

lemma filter_after_drop:
  fixes f :: "'a \<Rightarrow> 'b :: linorder"
  assumes s: "sorted_wrt (\<lambda>x y. f x < f y) xs" and n: "0 < n" "n \<le> length xs"
  shows "filter (\<lambda>x. f x > f (last (take n xs))) xs = drop n xs"
proof -
  obtain b z where bz: "take n xs = b @ [z]" using n by (cases "take n xs" rule: rev_cases) auto
  have a: "sorted_wrt (\<lambda>x y. f x < f y) ((b @ [z]) @ drop n xs)" using s unfolding bz [symmetric] by simp
  have "filter (\<lambda>x. f x > f z) (b @ [z]) = []" using a by (auto simp: filter_empty_conv sorted_wrt_append)
  moreover have "filter (\<lambda>x. f x > f z) (drop n xs) = drop n xs" using a by (auto simp: filter_id_conv sorted_wrt_append)
  moreover have "xs = (b @ [z]) @ drop n xs" unfolding bz [symmetric] by simp
  ultimately show ?thesis unfolding bz by (metis append_Nil filter_append last_snoc)
qed

lemma set_map_filter: "set (List.map_filter g xs) = {y. \<exists>x \<in> set xs. g x = Some y}"
  by (induction xs) (auto simp: List.map_filter_simps split: option.splits)

text \<open>The lobbies of a page, for an iteration order that meets every lobby once.\<close>

lemma page_records_spec:
  assumes inv: "tables_inv m" and ids: "distinct ids" "set ids = fmdom' (m_lobbies m)"
  shows "sorted_wrt (\<lambda>r s. lr_sequence r < lr_sequence s) (page_records key past ids m)"
    and "set (page_records key past ids m) = {r. \<exists>i. fmlookup (m_lobbies m) i = Some r \<and> lr_state r = LobbyStateOpen \<and>
      lr_visibility r = VisibilityPublic \<and> lr_queue_key r = key \<and> lr_sequence r > past}"
proof -
  have "distinct (map lr_sequence (List.map_filter (fmlookup (m_lobbies m)) ids))"
    using ids(1)
  proof (induction ids)
    case (Cons i ids)
    have "lr_sequence r \<notin> lr_sequence ` set (List.map_filter (fmlookup (m_lobbies m)) ids)" if "fmlookup (m_lobbies m) i = Some r" for r
      using lobby_sequence_inv [OF inv that] Cons.prems by (auto simp: List.map_filter_def)
    then show ?case using Cons by (auto simp: List.map_filter_simps split: option.split)
  qed (simp add: List.map_filter_simps)
  then have "distinct (map lr_sequence (filter P (List.map_filter (fmlookup (m_lobbies m)) ids)))" for P
    by (rule distinct_map_filter)
  then show "sorted_wrt (\<lambda>r s. lr_sequence r < lr_sequence s) (page_records key past ids m)"
    unfolding page_records_def by (rule strict_sort_key)
  show "set (page_records key past ids m) = {r. \<exists>i. fmlookup (m_lobbies m) i = Some r \<and> lr_state r = LobbyStateOpen \<and>
      lr_visibility r = VisibilityPublic \<and> lr_queue_key r = key \<and> lr_sequence r > past}"
    using ids(2) by (auto simp: page_records_def set_map_filter fmlookup_dom'_iff)
qed

lemma page_records_after: "past \<le> s \<Longrightarrow> page_records key s ids m = filter (\<lambda>r. lr_sequence r > s) (page_records key past ids m)"
  by (auto simp: page_records_def filter_sort intro!: arg_cong [where f = "sort_key lr_sequence"] filter_cong)
text \<open>\<open>List\<close> pages through the open public lobbies of a queue in the order of their creation: the records
  behind the answer are strictly ordered by sequence and are exactly the lobbies past the cursor; the page
  shows the first \<open>limit\<close> of them; and the next cursor is empty when that is all, and else parses to a
  sequence number past which lie exactly the records the page left out.\<close>

lemma list_pages:
  assumes "limiter_law A" and "lobby_reachable A H m0"
    and "lobby_list key cursor limit reading ord ids m0 = (m, Inr page)"
    and "distinct ids" and "set ids = fmdom' (m_lobbies m)"
  shows "\<exists>past rs. parse_cursor cursor = Inr past \<and> rs = page_records key past ids m \<and>
    sorted_wrt (\<lambda>r s. lr_sequence r < lr_sequence s) rs \<and>
    set rs = {r. \<exists>i. fmlookup (m_lobbies m) i = Some r \<and> lr_state r = LobbyStateOpen \<and>
      lr_visibility r = VisibilityPublic \<and> lr_queue_key r = key \<and> lr_sequence r > past} \<and>
    lp_lobbies page = map summary_for (take (nat limit) rs) \<and>
    (if int (length rs) \<le> limit then lp_next_cursor page = []
     else \<exists>s. parse_cursor (lp_next_cursor page) = Inr s \<and> page_records key s ids m = drop (nat limit) rs)"
proof -
  obtain past where past: "parse_cursor cursor = Inr past" and m: "m = expire_locked reading ord m0" and limit: "0 < limit"
    using assms(3) by (auto simp: lobby_list_def Let_def split: if_splits sum.splits)
  define rs where "rs = page_records key past ids m"
  have page: "page = \<lparr>lp_lobbies = map summary_for (if int (length rs) > limit then take (nat limit) rs else rs),
      lp_next_cursor = (if int (length rs) > limit then format_uint (unat (lr_sequence (last (take (nat limit) rs)))) else [])\<rparr>"
    using assms(3) past limit by (auto simp: lobby_list_def Let_def m rs_def split: if_splits)
  have tab: "tables_inv m"
    using manager_inv_tables(1) [OF expire_locked_inv [OF lobby_reachable_inv [OF assms(1,2)]]] by (simp add: m)
  note spec = page_records_spec [OF tab assms(4,5), of key past, folded rs_def]
  have "\<exists>s. parse_cursor (lp_next_cursor page) = Inr s \<and> page_records key s ids m = drop (nat limit) rs" if more: "limit < int (length rs)"
  proof -
    let ?z = "last (take (nat limit) rs)"
    have "take (nat limit) rs \<noteq> []" using more limit by (cases rs) auto
    then have z: "?z \<in> set rs" using in_set_takeD [OF last_in_set] by blast
    then have gt: "lr_sequence ?z > past" using spec(2) by auto
    then have "lr_sequence ?z \<noteq> 0" by auto
    then have "parse_cursor (lp_next_cursor page) = Inr (lr_sequence ?z)"
      using more parse_format_uint [of "unat (lr_sequence ?z)"] unat_u64 [of "lr_sequence ?z"]
      by (simp add: page parse_cursor_def parse_uint_def format_uint_nonempty unat_eq_0)
    moreover have "page_records key (lr_sequence ?z) ids m = drop (nat limit) rs"
      using page_records_after [of past "lr_sequence ?z" key ids m] gt more limit
        filter_after_drop [OF spec(1), of "nat limit"] by (simp add: rs_def)
    ultimately show ?thesis by blast
  qed
  then show ?thesis using past spec rs_def page by (intro exI [of _ past] exI [of _ rs]) auto
qed

lemma list_pages_witness:
  "\<exists>m page past. lobby_list ''duel'' [] 1 (demo_at 0) ([demo_id, demo_second], []) [demo_second, demo_id] demo_two = (m, Inr page) \<and>
     map lsum_lobby_id (lp_lobbies page) = [demo_id] \<and> parse_cursor (lp_next_cursor page) = Inr past"
proof -
  have "case lobby_list ''duel'' [] 1 (demo_at 0) ([demo_id, demo_second], []) [demo_second, demo_id] demo_two of
      (m, Inl e) \<Rightarrow> False | (m, Inr page) \<Rightarrow> map lsum_lobby_id (lp_lobbies page) = [demo_id] \<and> lp_next_cursor page \<noteq> [] \<and>
        fset_of_list [demo_second, demo_id] = fmdom (m_lobbies m)" by code_simp
  then obtain m page where l: "lobby_list ''duel'' [] 1 (demo_at 0) ([demo_id, demo_second], []) [demo_second, demo_id] demo_two = (m, Inr page)"
    and p: "map lsum_lobby_id (lp_lobbies page) = [demo_id]" "lp_next_cursor page \<noteq> []"
    and ids: "fset_of_list [demo_second, demo_id] = fmdom (m_lobbies m)"
    by (auto split: prod.splits sum.splits)
  have "set [demo_second, demo_id] = fmdom' (m_lobbies m)" using arg_cong [OF ids, of fset] by (simp add: fmdom'_alt_def)
  from list_pages [OF bucket_law demo_lobby_reachable(2) l _ this]
  have "\<exists>past. parse_cursor (lp_next_cursor page) = Inr past"
    using p(2) by (auto simp: demo_id_def demo_second_def split: if_splits)
  then obtain past where "parse_cursor (lp_next_cursor page) = Inr past" ..
  with l p(1) show ?thesis by (intro exI [of _ m] exI [of _ page] exI [of _ past] conjI)
qed

section \<open>Who is where\<close>

text \<open>C17: in every manager a program can get to, a player is indexed under a lobby exactly when it is a member
  of it, so nobody is in two lobbies; nobody is both in a lobby and in matchmaking; the owner of a lobby is a
  member, no lobby holds more members than its capacity, and a matched lobby has an assignment for each member
  and for nobody else; the queues hold exactly the queued tickets, each once and under its own key; and the two
  tables stay below their hard limits.\<close>

theorem lobby_consistent:
  assumes "limiter_law A" and "lobby_reachable A H m"
  shows "(\<forall>p i. fmlookup (m_lobby_by_player m) p = Some i \<longleftrightarrow> (\<exists>r. fmlookup (m_lobbies m) i = Some r \<and> p \<in> players_of r)) \<and>
    (\<forall>p. fmlookup (m_lobby_by_player m) p = None \<or> fmlookup (m_tickets m) p = None) \<and>
    (\<forall>i r. fmlookup (m_lobbies m) i = Some r \<longrightarrow> lr_owner_player_id r \<in> players_of r \<and>
       length (lr_members r) \<le> unat (lr_capacity r) \<and> distinct (map fst (lr_members r)) \<and>
       (lr_state r = LobbyStateMatched \<longrightarrow> fst ` set (lr_assignments r) = players_of r)) \<and>
    (\<forall>key p. p \<in> set (queue_of (m_queues m) key) \<longleftrightarrow>
       (\<exists>t. fmlookup (m_tickets m) p = Some t \<and> tr_state t = TicketStateQueued \<and> ticket_key t = key)) \<and>
    (\<forall>key. distinct (queue_of (m_queues m) key)) \<and>
    len_map (m_lobbies m) \<le> HardMaxOpenLobbies \<and> len_map (m_tickets m) \<le> HardMaxTickets"
proof -
  note tab = manager_inv_tables(1) [OF lobby_reachable_inv [OF assms]]
  have L: "lobbies_inv (m_lobby_by_player m) (m_lobbies m) (m_next_sequence m)" using tab by (simp add: tables_inv_def)
  have index: "fmlookup (m_lobby_by_player m) p = Some i \<longleftrightarrow> (\<exists>r. fmlookup (m_lobbies m) i = Some r \<and> p \<in> players_of r)" for p i
    using lobbies_inv_indexed [OF L] lobby_member_index [OF lobbies_inv_lookup [OF L]] by blast
  have rec: "lr_owner_player_id r \<in> players_of r \<and> length (lr_members r) \<le> unat (lr_capacity r) \<and> distinct (map fst (lr_members r)) \<and>
       (lr_state r = LobbyStateMatched \<longrightarrow> fst ` set (lr_assignments r) = players_of r)"
    if "fmlookup (m_lobbies m) i = Some r" for i r
    using lobbies_inv_lookup [OF L that] by (cases "lr_state r") (simp_all add: lobby_ok_def assignments_ok_def)
  show ?thesis
  proof (intro conjI)
    show "\<forall>p. fmlookup (m_lobby_by_player m) p = None \<or> fmlookup (m_tickets m) p = None"
      using tab by (simp add: tables_inv_def exclusive_def)
  qed (use index rec queued_iff [OF tab] queue_distinct [OF tab] tab in \<open>simp_all add: tables_inv_def\<close>)
qed

theorem lobby_consistent_witness:
  "fmlookup (m_lobby_by_player demo_lobby) ''a'' = Some demo_id \<and> fmlookup (m_tickets demo_lobby) ''a'' = None \<and>
   (\<exists>r. fmlookup (m_lobbies demo_lobby) demo_id = Some r \<and> ''a'' \<in> players_of r)"
proof -
  have a: "fmlookup (m_lobby_by_player demo_lobby) ''a'' = Some demo_id" by code_simp
  note c = lobby_consistent [OF bucket_law demo_lobby_reachable(1)]
  have "fmlookup (m_lobby_by_player demo_lobby) ''a'' = None \<or> fmlookup (m_tickets demo_lobby) ''a'' = None"
    using c [THEN conjunct2, THEN conjunct1] by (rule spec)
  moreover have "\<exists>r. fmlookup (m_lobbies demo_lobby) demo_id = Some r \<and> ''a'' \<in> players_of r"
    using c [THEN conjunct1, rule_format, of "''a''" demo_id] a by simp
  ultimately show ?thesis using a by simp
qed

section \<open>Matchmaking\<close>

text \<open>C24: \<open>Enqueue\<close> always returns: from every manager a program can get to, for every order of the sweep, the
  loop of \<open>matchQueueLocked\<close> ends and no ticket it dereferences is missing.\<close>

theorem enqueue_returns:
  assumes "limiter_law A" and "lobby_reachable A H m"
  shows "\<exists>m' res. enqueue p q reading ord m = Some (m', res)"
  using enqueue_total [OF lobby_reachable_inv [OF assms]] by blast

theorem enqueue_returns_witness:
  "\<exists>m' res. enqueue ''c'' demo_enqueue (demo_at 0) ([], []) demo_manager = Some (m', res)"
  by (rule enqueue_returns [OF bucket_law demo_new_reachable(1)])

lemma enqueue_matches:
  assumes inv: "manager_inv m0" and e: "enqueue p q reading ord m0 = Some (m', res)"
    and made: "valid_enqueue_request q" "may_enqueue p (expire_locked reading ord m0)"
      "enqueue p q reading ord m0 = (case match_queue (request_key q) reading (enqueued p q
         (new_ticket p q reading tid d (m_next_sequence (expire_locked reading ord m0))) src (expire_locked reading ord m0)) of
            None \<Rightarrow> None | Some (m3, Some err) \<Rightarrow> Some (m3, Inl err)
          | Some (m3, None) \<Rightarrow> map_option (\<lambda>record. (m3, Inr (ticket_snapshot_of record))) (fmlookup (m_tickets m3) p))"
  defines "queue \<equiv> queue_of (m_queues (expire_locked reading ord m0)) (request_key q) @ [p]"
  obtains k ids where "k * unat (eq_capacity q) \<le> length queue"
    "queue_of (m_queues m') (request_key q) = drop (k * unat (eq_capacity q)) queue"
    "length ids = k" "distinct ids"
    "\<And>i. i < k \<Longrightarrow> ids ! i |\<notin>| m_match_ids (expire_locked reading ord m0) \<and>
       shares_match (ids ! i) (m_tickets m') (match_group (unat (eq_capacity q)) i queue)"
    "(\<exists>ts. res = Inr ts) \<longleftrightarrow> length (drop (k * unat (eq_capacity q)) queue) < unat (eq_capacity q)"
    "\<And>ts. res = Inr ts \<Longrightarrow> \<exists>t. fmlookup (m_tickets m') p = Some t \<and> ts = ticket_snapshot_of t"
    "manager_inv m'"
proof -
  define m where "m = expire_locked reading ord m0"
  let ?m = "enqueued p q (new_ticket p q reading tid d (m_next_sequence m)) src m"
  have inv': "manager_inv ?m" using made inv by (intro enqueued_inv) (simp_all add: m_def expire_locked_inv)
  from match_queue_spec [OF inv', of "request_key q" reading] obtain m3 err k where
    mq: "match_queue (request_key q) reading ?m = Some (m3, err)" "manager_inv m3" and k: "matched_first k (request_key q)
    (queue_of (m_queues ?m) (request_key q)) ?m m3"
    "err = None \<longleftrightarrow> length (queue_of (m_queues m3) (request_key q)) < unat (qk_capacity (request_key q))"
    by blast
  have q: "queue_of (m_queues ?m) (request_key q) = queue" by (simp add: enqueued_def queue_of_def queue_def m_def)
  have c: "unat (qk_capacity (request_key q)) = unat (eq_capacity q)" by (simp add: request_key_def)
  have res: "m' = m3 \<and> (case err of None \<Rightarrow> (\<exists>t. fmlookup (m_tickets m3) p = Some t \<and> res = Inr (ticket_snapshot_of t))
      | Some x \<Rightarrow> res = Inl x)"
    using e unfolding made(3) m_def [symmetric] mq(1) by (auto split: option.splits)
  note k' = k [unfolded matched_first_def Let_def q c]
  have same: "m_match_ids ?m = m_match_ids m" by (simp add: enqueued_def)
  then obtain ids where ids: "length ids = k" "distinct ids" "\<forall>i \<in> set ids. i |\<notin>| m_match_ids m"
    "\<forall>i < k. shares_match (ids ! i) (m_tickets m3) (match_group (unat (eq_capacity q)) i queue)" using k' by auto
  show ?thesis
  proof (rule that [of k ids])
    show "ids ! i |\<notin>| m_match_ids (expire_locked reading ord m0) \<and>
       shares_match (ids ! i) (m_tickets m') (match_group (unat (eq_capacity q)) i queue)" if "i < k" for i
      using ids that res by (simp add: m_def)
    show "(\<exists>ts. res = Inr ts) \<longleftrightarrow> length (drop (k * unat (eq_capacity q)) queue) < unat (eq_capacity q)"
      using k' res by (cases err) auto
    show "\<exists>t. fmlookup (m_tickets m') p = Some t \<and> ts = ticket_snapshot_of t" if "res = Inr ts" for ts
      using res that by (cases err) auto
  qed (use k' ids res mq(2) in auto)
qed

text \<open>C23: matchmaking is first come, first served, in whole matches. When \<open>Enqueue\<close> succeeds, the queue of the
  request (with the caller at its end) has been cut from its head into \<open>k\<close> groups of exactly \<open>capacity\<close>
  consecutive players: the players of one group share one match, which is new and not the match of any other group,
  and one room, and every one of them has an assignment of its own; fewer than \<open>capacity\<close> players are left
  over, in their order; and the answer is the caller's ticket as it now is.\<close>

theorem enqueue_in_order:
  assumes "limiter_law A" and "lobby_reachable A H m0"
    and "enqueue p q reading ord m0 = Some (m', Inr ts)"
  shows "\<exists>k ids queue. queue = queue_of (m_queues (expire_locked reading ord m0)) (request_key q) @ [p] \<and>
    k * unat (eq_capacity q) \<le> length queue \<and>
    queue_of (m_queues m') (request_key q) = drop (k * unat (eq_capacity q)) queue \<and>
    length (drop (k * unat (eq_capacity q)) queue) < unat (eq_capacity q) \<and>
    length ids = k \<and> distinct ids \<and>
    (\<forall>i < k. length (match_group (unat (eq_capacity q)) i queue) = unat (eq_capacity q) \<and>
       ids ! i |\<notin>| m_match_ids (expire_locked reading ord m0) \<and>
       shares_match (ids ! i) (m_tickets m') (match_group (unat (eq_capacity q)) i queue)) \<and>
    (\<exists>t. fmlookup (m_tickets m') p = Some t \<and> ts = ticket_snapshot_of t)"
proof -
  note inv = lobby_reachable_inv [OF assms(1,2)]
  define queue where "queue = queue_of (m_queues (expire_locked reading ord m0)) (request_key q) @ [p]"
  show ?thesis
  proof (cases rule: enqueue_cases [of p q reading ord m0])
    case (queued tid src d)
    obtain k ids where whole: "k * unat (eq_capacity q) \<le> length queue"
      and rest: "queue_of (m_queues m') (request_key q) = drop (k * unat (eq_capacity q)) queue"
        "length (drop (k * unat (eq_capacity q)) queue) < unat (eq_capacity q)"
      and ids: "length ids = k" "distinct ids" "\<And>i. i < k \<Longrightarrow> ids ! i |\<notin>| m_match_ids (expire_locked reading ord m0) \<and>
        shares_match (ids ! i) (m_tickets m') (match_group (unat (eq_capacity q)) i queue)"
      and t: "\<exists>t. fmlookup (m_tickets m') p = Some t \<and> ts = ticket_snapshot_of t"
      by (rule enqueue_matches [OF inv assms(3) queued, folded queue_def]) blast
    then show ?thesis using match_group_length [OF whole]
      by (intro exI [of _ k] exI [of _ ids] exI [of _ queue] conjI allI impI) (simp_all add: queue_def [symmetric])
  qed (use assms(3) in simp_all)
qed

theorem enqueue_in_order_witness:
  "\<exists>m' ts. enqueue ''d'' demo_enqueue (demo_at 0) ([], [''c'']) demo_waiting = Some (m', Inr ts) \<and>
     length (queue_of (m_queues m') (request_key demo_enqueue)) < 2"
proof -
  have "case enqueue ''d'' demo_enqueue (demo_at 0) ([], [''c'']) demo_waiting of
      Some (m', Inr ts) \<Rightarrow> ts_state ts = TicketStateMatched | _ \<Rightarrow> False" by code_simp
  then obtain m' ts where e: "enqueue ''d'' demo_enqueue (demo_at 0) ([], [''c'']) demo_waiting = Some (m', Inr ts)"
    by (auto split: option.splits prod.splits sum.splits)
  obtain k queue where "queue_of (m_queues m') (request_key demo_enqueue) = drop (k * unat (eq_capacity demo_enqueue)) queue"
    "length (drop (k * unat (eq_capacity demo_enqueue)) queue) < unat (eq_capacity demo_enqueue)"
    using enqueue_in_order [OF bucket_law demo_lobby_reachable(5) e] by blast
  then show ?thesis using e by (simp add: demo_enqueue_def)
qed

text \<open>C25: when \<open>Enqueue\<close> answers that matchmaking is unavailable, the caller is in matchmaking all the same: its
  ticket is stored, queued and unassigned, and the caller stands at the end of the queue, to be matched by a
  later call (until then a second \<open>Enqueue\<close> of the caller is a conflict).\<close>

theorem enqueue_unavailable_keeps_ticket:
  assumes "limiter_law A" and "lobby_reachable A H m0"
    and "enqueue p q reading ord m0 = Some (m', Inl LobbyUnavailable)"
  shows "\<exists>t. fmlookup (m_tickets m') p = Some t \<and> tr_state t = TicketStateQueued \<and> tr_assignment t = None \<and>
    queue_of (m_queues m') (request_key q) \<noteq> [] \<and> last (queue_of (m_queues m') (request_key q)) = p"
proof -
  note inv = lobby_reachable_inv [OF assms(1,2)]
  show ?thesis
  proof (cases rule: enqueue_cases [of p q reading ord m0])
    case (queued tid src d)
    obtain k where k: "queue_of (m_queues m') (request_key q) = drop (k * unat (eq_capacity q))
        (queue_of (m_queues (expire_locked reading ord m0)) (request_key q) @ [p])"
      and long: "\<not> length (drop (k * unat (eq_capacity q)) (queue_of (m_queues (expire_locked reading ord m0)) (request_key q) @ [p]))
        < unat (eq_capacity q)" and inv': "manager_inv m'"
      by (rule enqueue_matches [OF inv assms(3) queued]) blast
    have "queue_of (m_queues m') (request_key q) \<noteq> []"
      using long valid_enqueue_capacity [OF queued(1)] unfolding k by (metis le_zero_eq list.size(3) not_less_zero not_numeral_le_zero not_less)
    moreover from this have "k * unat (eq_capacity q) <
        length (queue_of (m_queues (expire_locked reading ord m0)) (request_key q) @ [p])"
      unfolding k by (simp only: drop_eq_Nil not_le)
    then have last: "last (queue_of (m_queues m') (request_key q)) = p" unfolding k by (simp only: last_drop last_snoc)
    ultimately have "p \<in> set (queue_of (m_queues m') (request_key q))" using last_in_set by metis
    then obtain t where "fmlookup (m_tickets m') p = Some t" "tr_state t = TicketStateQueued"
      using queued_iff [OF manager_inv_tables(1) [OF inv']] by blast
    moreover from this have "tr_assignment t = None"
      using ticket_inv [OF manager_inv_tables(1) [OF inv']] by (fastforce simp: ticket_ok_def)
    ultimately show ?thesis using last \<open>queue_of (m_queues m') (request_key q) \<noteq> []\<close> by blast
  qed (use assms(3) in simp_all)
qed
theorem enqueue_unavailable_keeps_ticket_witness:
  "\<exists>m'. enqueue ''d'' demo_enqueue (demo_at 0) ([], [''c'']) demo_late_waiting = Some (m', Inl LobbyUnavailable) \<and>
     fmlookup (m_tickets m') ''d'' \<noteq> None"
proof -
  have "case enqueue ''d'' demo_enqueue (demo_at 0) ([], [''c'']) demo_late_waiting of
      Some (m', Inl e) \<Rightarrow> e = LobbyUnavailable | _ \<Rightarrow> False" by code_simp
  then obtain m' where e: "enqueue ''d'' demo_enqueue (demo_at 0) ([], [''c'']) demo_late_waiting = Some (m', Inl LobbyUnavailable)"
    by (auto split: option.splits prod.splits sum.splits)
  then show ?thesis using enqueue_unavailable_keeps_ticket [OF bucket_law demo_lobby_reachable(6) e] by auto
qed

section \<open>Start\<close>

lemma with_open_lobby_Inr:
  assumes "with_open_lobby p i revision reading ord m0 body = (m', Inr x)"
  obtains r where "fmlookup (m_lobbies (expire_locked reading ord m0)) i = Some r" "lr_state r = LobbyStateOpen"
    "lr_revision r = revision" "body r (expire_locked reading ord m0) = (m', Inr x)"
  using assms by (auto simp: with_open_lobby_def Let_def split: if_splits option.splits)

text \<open>C22: \<open>Start\<close> succeeds only for the owner of an open lobby at its current revision that is full and all of
  whose members are ready. Then the lobby is matched, its revision has advanced by one, and every member has
  an assignment of its own in one new match and one room: a match identifier that was not in use, and
  credentials that are those of an issued grant of an open room of the shared store, so that each member can
  open a session of the relay with them. The caller's own assignment is the answer.\<close>

theorem start_hands_out_live_credentials:
  assumes "limiter_law A" and "lobby_reachable A H m0"
    and "lobby_start p i revision reading ord m0 = (m', Inr a)"
  shows "\<exists>r r'. fmlookup (m_lobbies (expire_locked reading ord m0)) i = Some r \<and> fmlookup (m_lobbies m') i = Some r' \<and>
    lr_state r = LobbyStateOpen \<and> lr_revision r = revision \<and> lr_owner_player_id r = p \<and> all_ready r \<and>
    length (lr_members r) = unat (lr_capacity r) \<and> lr_state r' = LobbyStateMatched \<and> unat (lr_revision r') = unat revision + 1 \<and>
    lr_members r' = lr_members r \<and> fst ` set (lr_assignments r') = players_of r \<and> (p, a) \<in> set (lr_assignments r') \<and>
    as_match_id a |\<notin>| m_match_ids (expire_locked reading ord m0) \<and> as_match_id a |\<in>| m_match_ids m' \<and>
    (\<forall>(q, b) \<in> set (lr_assignments r'). as_player_id b = q \<and> as_match_id b = as_match_id a \<and> as_room_id b = as_room_id a \<and>
       assignment_live (m_relay m') b)"
proof -
  define m where "m = expire_locked reading ord m0"
  have inv: "manager_inv m" unfolding m_def by (rule expire_locked_inv [OF lobby_reachable_inv [OF assms(1,2)]])
  obtain r where r: "fmlookup (m_lobbies m) i = Some r" "lr_state r = LobbyStateOpen" "lr_revision r = revision"
    and body: "(if lr_owner_player_id r \<noteq> p then (m, Inl LobbyForbidden)
       else if length (lr_members r) \<noteq> unat (lr_capacity r) \<or> \<not> all_ready r \<or> lr_revision r = max_uint64
       then (m, Inl LobbyConflict)
       else (case allocate_match (members_in_join_order r) reading m of
           (m1, Inl err) \<Rightarrow> (m1, Inl err)
         | (m1, Inr (match_id, room_id, assignments, expires_at, deadline)) \<Rightarrow>
             ((set_lobby i (r\<lparr>lr_state := LobbyStateMatched, lr_revision := lr_revision r + 1,
                 lr_expires_at := expires_at, lr_mono_deadline := deadline, lr_assignments := assignments\<rparr>) m1)
               \<lparr>m_match_ids := finsert match_id (m_match_ids m1)\<rparr>,
              Inr (assignment_for assignments p)))) = (m', Inr a)"
    using assms(3) unfolding lobby_start_def m_def by (rule with_open_lobby_Inr)
  note ok = lobby_record_inv [OF manager_inv_tables(1) [OF inv] r(1)]
  have guard: "lr_owner_player_id r = p" "length (lr_members r) = unat (lr_capacity r)" "all_ready r" "lr_revision r \<noteq> max_uint64"
    using body by (auto split: if_splits)
  obtain m1 mid rid asg e d where al: "allocate_match (members_in_join_order r) reading m = (m1, Inr (mid, rid, asg, e, d))"
    and m': "m' = (set_lobby i (r\<lparr>lr_state := LobbyStateMatched, lr_revision := lr_revision r + 1,
                 lr_expires_at := e, lr_mono_deadline := d, lr_assignments := asg\<rparr>) m1)
               \<lparr>m_match_ids := finsert mid (m_match_ids m1)\<rparr>" and a: "a = assignment_for asg p"
    using body guard by (auto split: prod.splits sum.splits)
  define r' where "r' = r\<lparr>lr_state := LobbyStateMatched, lr_revision := lr_revision r + 1,
                 lr_expires_at := e, lr_mono_deadline := d, lr_assignments := asg\<rparr>"
  have asg: "assigned (members_in_join_order r) mid rid asg"
    by (rule allocate_match_assigned [OF manager_inv_tables(2) [OF inv] al])
  have players: "set (members_in_join_order r) = players_of r" by (rule lobby_ok_order [OF ok])
  have p: "p \<in> set (members_in_join_order r)" using ok guard(1) unfolding players by (simp add: lobby_ok_def)
  have own: "(p, a) \<in> set asg" "as_match_id a = mid" "as_room_id a = rid"
    using assignment_for_assigned [OF asg p] by (simp_all add: a)
  have "mid |\<notin>| m_match_ids m" using allocate_match_done [OF al] by (simp add: allocated_def)
  moreover have "\<forall>(q, b) \<in> set asg. as_player_id b = q \<and> as_match_id b = mid \<and> as_room_id b = rid \<and> assignment_live (m_relay m') b"
    using asg allocate_match_live [OF manager_inv_tables(2) [OF inv] al] by (auto simp: assigned_def m' set_lobby_def)
  moreover have "fmlookup (m_lobbies m') i = Some r'" by (simp add: m' set_lobby_def r'_def)
  moreover have "unat (lr_revision r') = unat revision + 1" using u64_succ(1) [OF guard(4)] r(3) by (simp add: r'_def)
  moreover have "fst ` set asg = players_of r" using asg players by (simp add: assigned_def)
  ultimately show ?thesis
    using r guard own unfolding m_def [symmetric] by (intro exI [of _ r] exI [of _ r']) (simp add: r'_def m')
qed

theorem start_hands_out_live_credentials_witness:
  "\<exists>m' a. lobby_start ''a'' demo_id 4 (demo_at 0) ([demo_id], []) demo_full = (m', Inr a) \<and> as_player_id a = ''a'' \<and>
     assignment_live (m_relay m') a"
proof -
  have "case lobby_start ''a'' demo_id 4 (demo_at 0) ([demo_id], []) demo_full of (m', Inl e) \<Rightarrow> False | (m', Inr a) \<Rightarrow> True"
    by code_simp
  then obtain m' a where s: "lobby_start ''a'' demo_id 4 (demo_at 0) ([demo_id], []) demo_full = (m', Inr a)"
    by (auto split: prod.splits sum.splits)
  from start_hands_out_live_credentials [OF bucket_law demo_lobby_reachable(4) s]
  have "as_player_id a = ''a'' \<and> assignment_live (m_relay m') a" by blast
  then show ?thesis using s by blast
qed

section \<open>Revisions\<close>

text \<open>The operations that name a revision of a lobby, and the answers that refuse.\<close>

fun names_revision :: "string \<Rightarrow> u64 \<Rightarrow> lobby_op \<Rightarrow> bool" where
  "names_revision i v (L_Join p j w) \<longleftrightarrow> i = j \<and> v = w"
| "names_revision i v (L_Leave p j w) \<longleftrightarrow> i = j \<and> v = w"
| "names_revision i v (L_Set_Ready p j w ready) \<longleftrightarrow> i = j \<and> v = w"
| "names_revision i v (L_Start p j w) \<longleftrightarrow> i = j \<and> v = w"
| "names_revision i v _ \<longleftrightarrow> False"

fun refused :: "lobby_response \<Rightarrow> bool" where
  "refused (R_Lobby (Inl e)) \<longleftrightarrow> True"
| "refused (R_Assignment (Inl e)) \<longleftrightarrow> True"
| "refused _ \<longleftrightarrow> False"

lemma with_open_lobby_stale:
  assumes "\<forall>r. fmlookup (m_lobbies (expire_locked reading ord m0)) i = Some r \<longrightarrow> lr_revision r \<noteq> revision"
    and "with_open_lobby p i revision reading ord m0 body = (m', x)"
  shows "(\<exists>e. x = Inl e) \<and> (m' = m0 \<or> m' = expire_locked reading ord m0)"
  using assms by (auto simp: with_open_lobby_def Let_def split: option.splits if_splits)

text \<open>C26: a revision is spent once. When a lobby has moved past a revision, every \<open>Join\<close>, \<open>Leave\<close>, \<open>SetReady\<close>
  or \<open>Start\<close> that still names it is refused at any later time, whatever has happened in between, and
  changes nothing but what the sweep of expired lobbies and tickets changes; unless the lobby is gone and a
  new one has been created under the same identifier.\<close>

theorem stale_revision_refused:
  assumes "limiter_law A" and "lobby_reachable A H m" and "fmlookup (m_lobbies m) i = Some r" and "revision < lr_revision r"
    and "run (lobby_step A H) m es m1" and "names_revision i revision op"
    and "lobby_perform op reading ord m1 = Some (m2, response)"
    and "\<forall>s. fmlookup (m_lobbies m1) i = Some s \<longrightarrow> lr_sequence s < m_next_sequence m"
  shows "refused response \<and> (m2 = m1 \<or> m2 = expire_locked reading ord m1)"
proof -
  have inv: "manager_inv m" by (rule lobby_reachable_inv [OF assms(1,2)])
  have d: "descends m m1"
    using history.run_le [OF assms(5)] inv assms(1) by (simp add: lawful_manager_def lawful_descends_def)
  have stale: "lr_revision s \<noteq> revision" if s: "fmlookup (m_lobbies (expire_locked reading ord m1)) i = Some s" for s
  proof -
    have now: "fmlookup (m_lobbies m1) i = Some s" using expire_locked_lobbies s by blast
    then have "lr_sequence s < m_next_sequence m" using assms(8) by blast
    from descendsD [OF d now this] assms(3) have "lr_revision r \<le> lr_revision s" by (metis option.inject)
    then show ?thesis using assms(4) by auto
  qed
  then have "\<forall>s. fmlookup (m_lobbies (expire_locked reading ord m1)) i = Some s \<longrightarrow> lr_revision s \<noteq> revision" by blast
  note refuse = with_open_lobby_stale [OF this]
  show ?thesis
  proof (cases op)
    case (L_Join p j w)
    then obtain x where "lobby_join p i revision reading ord m1 = (m2, x)" "response = R_Lobby x"
      using assms(6,7) by (cases "lobby_join p i revision reading ord m1") auto
    then show ?thesis using refuse unfolding lobby_join_def by fastforce
  next
    case (L_Leave p j w)
    then obtain x where "lobby_leave p i revision reading ord m1 = (m2, x)" "response = R_Lobby x"
      using assms(6,7) by (cases "lobby_leave p i revision reading ord m1") auto
    then show ?thesis using refuse unfolding lobby_leave_def by fastforce
  next
    case (L_Set_Ready p j w ready)
    then obtain x where "lobby_set_ready p i revision ready reading ord m1 = (m2, x)" "response = R_Lobby x"
      using assms(6,7) by (cases "lobby_set_ready p i revision ready reading ord m1") auto
    then show ?thesis using refuse unfolding lobby_set_ready_def by fastforce
  next
    case (L_Start p j w)
    then obtain x where "lobby_start p i revision reading ord m1 = (m2, x)" "response = R_Assignment x"
      using assms(6,7) by (cases "lobby_start p i revision reading ord m1") auto
    then show ?thesis using refuse unfolding lobby_start_def by fastforce
  qed (use assms(6) in simp_all)
qed

theorem stale_revision_refused_witness:
  "\<exists>m response. lobby_perform (L_Join ''c'' demo_id 1) (demo_at 0) ([demo_id], []) demo_joined = Some (m, response) \<and>
     refused response"
proof -
  obtain m response where p: "lobby_perform (L_Join ''c'' demo_id 1) (demo_at 0) ([demo_id], []) demo_joined = Some (m, response)"
    using lobby_perform_total [OF lobby_reachable_inv [OF bucket_law demo_lobby_reachable(3)]] by blast
  have "case fmlookup (m_lobbies demo_joined) demo_id of None \<Rightarrow> False
      | Some r \<Rightarrow> 1 < lr_revision r \<and> lr_sequence r < m_next_sequence demo_joined" by code_simp
  then obtain r where r: "fmlookup (m_lobbies demo_joined) demo_id = Some r" "1 < lr_revision r"
    "lr_sequence r < m_next_sequence demo_joined"
    by (auto split: option.splits)
  have "refused response \<and> (m = demo_joined \<or> m = expire_locked (demo_at 0) ([demo_id], []) demo_joined)"
    by (rule stale_revision_refused [OF bucket_law demo_lobby_reachable(3) r(1,2) run_Nil _ p]) (simp_all add: r)
  then show ?thesis using p by blast
qed

section \<open>What others see\<close>

text \<open>A ticket that can be polled is queued or matched: cancelled and expired tickets are gone.\<close>

lemma polled_ticket_states:
  assumes "limiter_law A" and "lobby_reachable A H m" and "get_ticket p reading ord m = (m', Inr t)"
  shows "ts_state t = TicketStateQueued \<or> ts_state t = TicketStateMatched"
proof -
  have "manager_inv (expire_locked reading ord m)" by (rule expire_locked_inv [OF lobby_reachable_inv [OF assms(1,2)]])
  moreover obtain r where "fmlookup (m_tickets (expire_locked reading ord m)) p = Some r" "t = ticket_snapshot_of r"
    using assms(3) by (auto simp: get_ticket_def Let_def split: if_splits option.splits)
  ultimately show ?thesis
    using ticket_inv [OF manager_inv_tables(1)] by (fastforce simp: ticket_ok_def ticket_snapshot_of_def split: ticket_state.splits)
qed

text \<open>A player who is no member of an open public lobby is shown all its members, but no assignment.\<close>

lemma public_members_visible:
  assumes "valid_id p" and "valid_id i" and "fmlookup (m_lobbies (expire_locked reading ord m)) i = Some r"
    and "lr_visibility r = VisibilityPublic" and "lr_state r = LobbyStateOpen" and "map_of (lr_members r) p = None"
  shows "snd (lobby_get p i reading ord m) = Inr (snapshot_for r p)"
    and "length (lsn_members (snapshot_for r p)) = length (lr_members r)"
  using assms by (simp_all add: lobby_get_def snapshot_for_def members_in_join_order_def)

end
