(* ===== verification/Json.thy ===== *)
theory Json
  imports Prelude
begin

text \<open>
  The part of \<open>encoding/json\<close> that the two HTTP handlers use, and the scanner that both of them write on top of
  its token stream to refuse a body in which an object repeats a key (\<open>hasUniqueJSONFields\<close> and
  \<open>scanJSONValue\<close> of \<open>internal/control/http.go\<close>).

  A body is cut into lexemes; \<open>next_token\<close> is the state machine of \<open>Decoder.Token\<close> over them, \<open>unmarshal\<close> the
  document that \<open>Unmarshal\<close> and \<open>Decoder.Decode\<close> read. The theorem at the end says what the scanner accepts.
\<close>

section \<open>Documents, tokens and lexemes\<close>

datatype json_scalar = SNull | SBool bool | SNumber string | SString string

datatype json = JScalar json_scalar | JArray "json list" | JObject "(string \<times> json) list"

datatype json_delim = ObjOpen | ObjClose | ArrOpen | ArrClose

datatype json_token = Delim json_delim | Value json_scalar

text \<open>\<open>Bad\<close> stands for bytes that are no lexeme; the rest of the body is never looked at.\<close>

datatype lexeme = Tok json_token | Colon | Comma | Bad

section \<open>Lexemes of a body\<close>

definition is_space :: "byte \<Rightarrow> bool" where
  "is_space c \<longleftrightarrow> c = 32 \<or> c = 9 \<or> c = 10 \<or> c = 13"

definition is_digit :: "byte \<Rightarrow> bool" where
  "is_digit c \<longleftrightarrow> 48 \<le> c \<and> c \<le> 57"

definition hex_value :: "byte \<Rightarrow> nat option" where
  "hex_value c = (if is_digit c then Some (unat c - 48)
     else if 97 \<le> c \<and> c \<le> 102 then Some (unat c - 87)
     else if 65 \<le> c \<and> c \<le> 70 then Some (unat c - 55) else None)"

fun hex_digits :: "nat \<Rightarrow> byte list \<Rightarrow> nat option" where
  "hex_digits acc [] = Some acc"
| "hex_digits acc (c # cs) = (case hex_value c of None \<Rightarrow> None | Some d \<Rightarrow> hex_digits (acc * 16 + d) cs)"

text \<open>\<open>getu4\<close>: the code unit of an escape of the form \<open>\\uXXXX\<close> at the head of the input.\<close>

definition getu4 :: "byte list \<Rightarrow> nat option" where
  "getu4 cs = (if length cs \<ge> 6 \<and> cs ! 0 = 92 \<and> cs ! 1 = 117 then hex_digits 0 (take 4 (drop 2 cs)) else None)"

text \<open>\<open>utf8.EncodeRune\<close> of a code point that is no surrogate, and the replacement character.\<close>

definition encode_rune :: "nat \<Rightarrow> byte list" where
  "encode_rune r = map of_nat
     (if r < 128 then [r]
      else if r < 2048 then [192 + r div 64, 128 + r mod 64]
      else if r < 65536 then [224 + r div 4096, 128 + r div 64 mod 64, 128 + r mod 64]
      else [240 + r div 262144, 128 + r div 4096 mod 64, 128 + r div 64 mod 64, 128 + r mod 64])"

definition rune_error :: "byte list" where
  "rune_error = [239, 191, 189]"

text \<open>\<open>utf8.DecodeRune\<close>: the length of the valid sequence at the head of the input, 0 if there is none.\<close>

definition continuation :: "byte \<Rightarrow> bool" where
  "continuation b \<longleftrightarrow> 128 \<le> b \<and> b \<le> 191"

fun rune_size :: "byte list \<Rightarrow> nat" where
  "rune_size [] = 0"
| "rune_size [a] = (if a < 128 then 1 else 0)"
| "rune_size [a, b] = (if a < 128 then 1 else if 194 \<le> a \<and> a \<le> 223 \<and> continuation b then 2 else 0)"
| "rune_size [a, b, c] =
     (if a < 128 then 1
      else if 194 \<le> a \<and> a \<le> 223 \<and> continuation b then 2
      else if 224 \<le> a \<and> a \<le> 239 \<and> (if a = 224 then 160 else 128) \<le> b \<and> b \<le> (if a = 237 then 159 else 191) \<and>
        continuation c then 3 else 0)"
| "rune_size (a # b # c # d # cs) =
     (if a < 128 then 1
      else if 194 \<le> a \<and> a \<le> 223 \<and> continuation b then 2
      else if 224 \<le> a \<and> a \<le> 239 \<and> (if a = 224 then 160 else 128) \<le> b \<and> b \<le> (if a = 237 then 159 else 191) \<and>
        continuation c then 3
      else if 240 \<le> a \<and> a \<le> 244 \<and> (if a = 240 then 144 else 128) \<le> b \<and> b \<le> (if a = 244 then 143 else 191) \<and>
        continuation c \<and> continuation d then 4 else 0)"

definition simple_escape :: "byte \<Rightarrow> byte option" where
  "simple_escape c = (if c = 34 \<or> c = 92 \<or> c = 47 then Some c
     else if c = 98 then Some 8 else if c = 102 then Some 12 else if c = 110 then Some 10
     else if c = 114 then Some 13 else if c = 116 then Some 9 else None)"

text \<open>A string literal after its opening quote: its contents and the input after the closing quote. Invalid
  UTF-8 and lone surrogates become the replacement character; \<^const>\<open>None\<close> is a syntax error.\<close>

function lex_string :: "byte list \<Rightarrow> (byte list \<times> byte list) option" where
  "lex_string [] = None"
| "lex_string (c # cs) =
     (if c = 34 then Some ([], cs)
      else if c < 32 then None
      else if c = 92 then (case getu4 (c # cs) of
          Some u \<Rightarrow>
            (if \<not> (55296 \<le> u \<and> u < 57344) then map_option (map_prod ((@) (encode_rune u)) id) (lex_string (drop 5 cs))
             else (case getu4 (drop 5 cs) of
                 Some v \<Rightarrow>
                   if u < 56320 \<and> 56320 \<le> v \<and> v < 57344
                   then map_option (map_prod ((@) (encode_rune ((u - 55296) * 1024 + (v - 56320) + 65536))) id) (lex_string (drop 11 cs))
                   else map_option (map_prod ((@) rune_error) id) (lex_string (drop 5 cs))
               | None \<Rightarrow> map_option (map_prod ((@) rune_error) id) (lex_string (drop 5 cs))))
        | None \<Rightarrow> (case cs of
            [] \<Rightarrow> None
          | e # rest \<Rightarrow> (case simple_escape e of
              None \<Rightarrow> None
            | Some b \<Rightarrow> map_option (map_prod ((#) b) id) (lex_string rest))))
      else if rune_size (c # cs) = 0 then map_option (map_prod ((@) rune_error) id) (lex_string cs)
      else map_option (map_prod ((@) (take (rune_size (c # cs)) (c # cs))) id) (lex_string (drop (rune_size (c # cs) - 1) cs)))"
  by pat_completeness auto
termination by (relation "measure length") auto

text \<open>A number literal and the input after it.\<close>

definition lex_digits :: "byte list \<Rightarrow> (byte list \<times> byte list) option" where
  "lex_digits cs = (if takeWhile is_digit cs = [] then None else Some (takeWhile is_digit cs, dropWhile is_digit cs))"

definition lex_integer :: "byte list \<Rightarrow> (byte list \<times> byte list) option" where
  "lex_integer cs = (case cs of
     [] \<Rightarrow> None
   | c # rest \<Rightarrow> if c = 48 then Some ([48], rest) else lex_digits cs)"

definition lex_fraction :: "byte list \<Rightarrow> (byte list \<times> byte list) option" where
  "lex_fraction cs = (case cs of
     c # rest \<Rightarrow> if c = 46 then map_option (map_prod ((#) c) id) (lex_digits rest) else Some ([], cs)
   | [] \<Rightarrow> Some ([], []))"

definition lex_exponent :: "byte list \<Rightarrow> (byte list \<times> byte list) option" where
  "lex_exponent cs = (case cs of
     c # rest \<Rightarrow>
       if c = 101 \<or> c = 69
       then (case rest of
           s # rest' \<Rightarrow> if s = 43 \<or> s = 45 then map_option (map_prod ((@) [c, s]) id) (lex_digits rest')
             else map_option (map_prod ((#) c) id) (lex_digits rest)
         | [] \<Rightarrow> None)
       else Some ([], cs)
   | [] \<Rightarrow> Some ([], []))"

definition lex_number :: "byte list \<Rightarrow> (byte list \<times> byte list) option" where
  "lex_number cs =
     (let (sign, r0) = (case cs of c # rest \<Rightarrow> if c = 45 then ([c], rest) else ([], cs) | [] \<Rightarrow> ([], [])) in
      case lex_integer r0 of None \<Rightarrow> None | Some (i, r1) \<Rightarrow>
        (case lex_fraction r1 of None \<Rightarrow> None | Some (f, r2) \<Rightarrow>
          (case lex_exponent r2 of None \<Rightarrow> None | Some (e, r3) \<Rightarrow> Some (sign @ i @ f @ e, r3))))"

lemma lex_string_shorter: "lex_string cs = Some (s, rest) \<Longrightarrow> length rest < length cs"
proof (induction cs arbitrary: s rule: lex_string.induct)
  case (2 c cs)
  show ?case
    using 2 by (fastforce split: if_splits option.splits list.splits dest: order_less_le_trans)
qed simp

lemma lex_digits_shorter: "lex_digits cs = Some (d, rest) \<Longrightarrow> length rest < length cs"
  by (cases cs) (auto simp: lex_digits_def split: if_splits intro: le_imp_less_Suc length_dropWhile_le)

lemma lex_number_shorter:
  assumes "lex_number cs = Some (n, rest)"
  shows "length rest < length cs"
proof -
  have i: "lex_integer r = Some (x, r') \<Longrightarrow> length r' < length r" for r x r'
    by (auto simp: lex_integer_def split: list.splits if_splits dest: lex_digits_shorter)
  have f: "lex_fraction r = Some (x, r') \<Longrightarrow> length r' \<le> length r" for r x r'
    by (auto simp: lex_fraction_def split: list.splits if_splits dest: lex_digits_shorter)
  have e: "lex_exponent r = Some (x, r') \<Longrightarrow> length r' \<le> length r" for r x r'
    by (auto simp: lex_exponent_def split: list.splits if_splits dest: lex_digits_shorter)
  show ?thesis
    using assms unfolding lex_number_def
    by (fastforce split: list.splits if_splits option.splits dest: i f e)
qed

definition lex_word :: "string \<Rightarrow> json_scalar \<Rightarrow> byte list \<Rightarrow> (lexeme \<times> byte list) option" where
  "lex_word word v cs = (if take (length word) cs = str_bytes word then Some (Tok (Value v), drop (length word) cs) else None)"

text \<open>The lexeme at the head of an input that does not start with a space.\<close>

definition lexeme_at :: "byte \<Rightarrow> byte list \<Rightarrow> (lexeme \<times> byte list) option" where
  "lexeme_at c cs =
     (if c = 123 then Some (Tok (Delim ObjOpen), cs)
      else if c = 125 then Some (Tok (Delim ObjClose), cs)
      else if c = 91 then Some (Tok (Delim ArrOpen), cs)
      else if c = 93 then Some (Tok (Delim ArrClose), cs)
      else if c = 58 then Some (Colon, cs)
      else if c = 44 then Some (Comma, cs)
      else if c = 34 then map_option (map_prod (\<lambda>s. Tok (Value (SString (bytes_str s)))) id) (lex_string cs)
      else if c = 45 \<or> is_digit c then map_option (map_prod (\<lambda>s. Tok (Value (SNumber (bytes_str s)))) id) (lex_number (c # cs))
      else if c = 116 then lex_word ''true'' (SBool True) (c # cs)
      else if c = 102 then lex_word ''false'' (SBool False) (c # cs)
      else if c = 110 then lex_word ''null'' SNull (c # cs)
      else None)"

lemma lexeme_at_shorter: "lexeme_at c cs = Some (x, rest) \<Longrightarrow> length rest \<le> length cs"
  by (auto simp: lexeme_at_def lex_word_def split: if_splits dest: lex_string_shorter lex_number_shorter)

function lex :: "byte list \<Rightarrow> lexeme list" where
  "lex [] = []"
| "lex (c # cs) = (if is_space c then lex cs
     else (case lexeme_at c cs of None \<Rightarrow> [Bad] | Some (x, rest) \<Rightarrow> x # lex rest))"
  by pat_completeness auto
termination by (relation "measure length") (auto dest: lexeme_at_shorter simp: less_Suc_eq_le)

section \<open>The token stream of a Decoder\<close>

datatype token_state = TopValue | ArrayStart | ArrayValue | ArrayComma
  | ObjectStart | ObjectKey | ObjectColon | ObjectValue | ObjectComma

datatype token_error = Token_EOF | Token_Syntax

record json_decoder =
  d_input :: "lexeme list"
  d_state :: token_state
  d_stack :: "token_state list"

definition new_decoder :: "byte list \<Rightarrow> json_decoder" where
  "new_decoder body = \<lparr>d_input = lex body, d_state = TopValue, d_stack = []\<rparr>"

definition value_allowed :: "token_state \<Rightarrow> bool" where
  "value_allowed st \<longleftrightarrow> st = TopValue \<or> st = ArrayStart \<or> st = ArrayValue \<or> st = ObjectValue"

definition value_end :: "token_state \<Rightarrow> token_state" where
  "value_end st = (if st = ArrayStart \<or> st = ArrayValue then ArrayComma else if st = ObjectValue then ObjectComma else st)"

fun is_string :: "json_scalar \<Rightarrow> bool" where
  "is_string (SString s) = True"
| "is_string _ = False"

text \<open>A closing bracket is only met inside an array, when the stack is not empty.\<close>

fun next_token :: "lexeme list \<Rightarrow> token_state \<Rightarrow> token_state list \<Rightarrow> token_error + json_token \<times> json_decoder" where
  "next_token [] st stk = Inl Token_EOF"
| "next_token (Tok (Delim ArrOpen) # ls) st stk =
     (if value_allowed st then Inr (Delim ArrOpen, \<lparr>d_input = ls, d_state = ArrayStart, d_stack = st # stk\<rparr>) else Inl Token_Syntax)"
| "next_token (Tok (Delim ArrClose) # ls) st stk =
     (if (st = ArrayStart \<or> st = ArrayComma) \<and> stk \<noteq> []
      then Inr (Delim ArrClose, \<lparr>d_input = ls, d_state = value_end (hd stk), d_stack = tl stk\<rparr>) else Inl Token_Syntax)"
| "next_token (Tok (Delim ObjOpen) # ls) st stk =
     (if value_allowed st then Inr (Delim ObjOpen, \<lparr>d_input = ls, d_state = ObjectStart, d_stack = st # stk\<rparr>) else Inl Token_Syntax)"
| "next_token (Tok (Delim ObjClose) # ls) st stk =
     (if (st = ObjectStart \<or> st = ObjectComma) \<and> stk \<noteq> []
      then Inr (Delim ObjClose, \<lparr>d_input = ls, d_state = value_end (hd stk), d_stack = tl stk\<rparr>) else Inl Token_Syntax)"
| "next_token (Colon # ls) st stk = (if st = ObjectColon then next_token ls ObjectValue stk else Inl Token_Syntax)"
| "next_token (Comma # ls) st stk =
     (if st = ArrayComma then next_token ls ArrayValue stk
      else if st = ObjectComma then next_token ls ObjectKey stk else Inl Token_Syntax)"
| "next_token (Tok (Value v) # ls) st stk =
     (if (st = ObjectStart \<or> st = ObjectKey) \<and> is_string v
      then Inr (Value v, \<lparr>d_input = ls, d_state = ObjectColon, d_stack = stk\<rparr>)
      else if value_allowed st then Inr (Value v, \<lparr>d_input = ls, d_state = value_end st, d_stack = stk\<rparr>)
      else Inl Token_Syntax)"
| "next_token (Bad # ls) st stk = Inl Token_Syntax"

definition dec_token :: "json_decoder \<Rightarrow> token_error + json_token \<times> json_decoder" where
  "dec_token d = next_token (d_input d) (d_state d) (d_stack d)"

text \<open>\<open>More\<close>: there is a next byte and it closes nothing.\<close>

definition dec_more :: "json_decoder \<Rightarrow> bool" where
  "dec_more d \<longleftrightarrow> (case d_input d of [] \<Rightarrow> False
     | l # _ \<Rightarrow> l \<noteq> Tok (Delim ArrClose) \<and> l \<noteq> Tok (Delim ObjClose))"

lemma next_token_shorter: "next_token ls st stk = Inr (t, d) \<Longrightarrow> length (d_input d) < length ls"
  by (induction ls st stk rule: next_token.induct) (auto split: if_splits)

lemma dec_token_shorter: "dec_token d = Inr (t, d') \<Longrightarrow> length (d_input d') < length (d_input d)"
  by (auto simp: dec_token_def dest: next_token_shorter)

section \<open>scanJSONValue\<close>

text \<open>
  \<open>scanJSONValue\<close> and its two loops; \<^const>\<open>Some\<close> of the decoder it has advanced is its answer true. Each loop
  turn consumes what the recursive call has consumed, so termination is shown with the domain of the function:
  a call that returns leaves less input.
\<close>

definition scan_close :: "json_delim \<Rightarrow> json_decoder \<Rightarrow> json_decoder option" where
  "scan_close c d = (case dec_token d of Inr (t, d1) \<Rightarrow> if t = Delim c then Some d1 else None | Inl _ \<Rightarrow> None)"

function (domintros) scan_value :: "json_decoder \<Rightarrow> json_decoder option"
  and scan_members :: "string list \<Rightarrow> json_decoder \<Rightarrow> json_decoder option"
  and scan_elements :: "json_decoder \<Rightarrow> json_decoder option" where
  "scan_value d = (case dec_token d of
     Inl _ \<Rightarrow> None
   | Inr (t, d1) \<Rightarrow> (case t of
       Value _ \<Rightarrow> Some d1
     | Delim c \<Rightarrow> if c = ObjOpen then scan_members [] d1 else if c = ArrOpen then scan_elements d1 else None))"
| "scan_members seen d =
     (if dec_more d
      then (case dec_token d of
          Inr (Value (SString key), d1) \<Rightarrow>
            if key \<in> set seen then None
            else (case scan_value d1 of None \<Rightarrow> None | Some d2 \<Rightarrow> scan_members (key # seen) d2)
        | _ \<Rightarrow> None)
      else scan_close ObjClose d)"
| "scan_elements d =
     (if dec_more d then (case scan_value d of None \<Rightarrow> None | Some d1 \<Rightarrow> scan_elements d1)
      else scan_close ArrClose d)"
  by pat_completeness auto

lemma scan_close_shorter: "scan_close c d = Some d' \<Longrightarrow> length (d_input d') < length (d_input d)"
  by (auto simp: scan_close_def split: sum.splits if_splits dest: dec_token_shorter)

lemma scan_shorter:
  "scan_value_scan_members_scan_elements_dom (Inl d) \<Longrightarrow> scan_value d = Some d' \<Longrightarrow> length (d_input d') < length (d_input d)"
  "scan_value_scan_members_scan_elements_dom (Inr (Inl (seen, d))) \<Longrightarrow> scan_members seen d = Some d' \<Longrightarrow> length (d_input d') < length (d_input d)"
  "scan_value_scan_members_scan_elements_dom (Inr (Inr d)) \<Longrightarrow> scan_elements d = Some d' \<Longrightarrow> length (d_input d') < length (d_input d)"
proof (induction d and seen d and d arbitrary: d' and d' and d' rule: scan_value_scan_members_scan_elements.pinduct)
  case (1 d)
  from 1(4) [unfolded scan_value.psimps [OF 1(1)]] obtain t d1 where tok: "dec_token d = Inr (t, d1)"
    and r: "(case t of Value _ \<Rightarrow> Some d1
      | Delim c \<Rightarrow> if c = ObjOpen then scan_members [] d1 else if c = ArrOpen then scan_elements d1 else None) = Some d'"
    by (auto split: sum.splits)
  have "length (d_input d') \<le> length (d_input d1)"
  proof (cases t)
    case (Delim c)
    show ?thesis
      using r Delim 1(2) [OF tok refl Delim] 1(3) [OF tok refl Delim] by (auto split: if_splits intro: less_imp_le)
  qed (use r in simp)
  with dec_token_shorter [OF tok] show ?case by simp
next
  case (2 seen d)
  note r = 2(4) [unfolded scan_members.psimps [OF 2(1)]]
  show ?case
  proof (cases "dec_more d")
    case True
    with r obtain key d1 d2 where tok: "dec_token d = Inr (Value (SString key), d1)" and new: "key \<notin> set seen"
      and v: "scan_value d1 = Some d2" and m: "scan_members (key # seen) d2 = Some d'"
      by (auto split: sum.splits json_token.splits json_scalar.splits if_splits option.splits)
    show ?thesis
      using 2(2) [OF True tok refl refl refl new v] 2(3) [OF True tok refl refl refl new v m] dec_token_shorter [OF tok]
      by linarith
  qed (use r in \<open>simp add: scan_close_shorter\<close>)
next
  case (3 d)
  note r = 3(4) [unfolded scan_elements.psimps [OF 3(1)]]
  show ?case
  proof (cases "dec_more d")
    case True
    with r obtain d1 where "scan_value d = Some d1" "scan_elements d1 = Some d'" by (auto split: option.splits)
    then show ?thesis using 3(2) [OF True] 3(3) [OF True] by fastforce
  qed (use r in \<open>simp add: scan_close_shorter\<close>)
qed

termination scan_value
  by (relation "measure (\<lambda>x. case x of Inl d \<Rightarrow> 2 * length (d_input d)
      | Inr (Inl (seen, d)) \<Rightarrow> 2 * length (d_input d) | Inr (Inr d) \<Rightarrow> 2 * length (d_input d) + 1)")
    (auto dest!: dec_token_shorter scan_shorter)

declare scan_value.simps [simp del] scan_members.simps [simp del] scan_elements.simps [simp del]

text \<open>\<open>hasUniqueJSONFields\<close>; the number literals of \<open>UseNumber\<close> are kept as they are.\<close>

definition has_unique_json_fields :: "byte list \<Rightarrow> bool" where
  "has_unique_json_fields body = (case scan_value (new_decoder body) of
     None \<Rightarrow> False
   | Some d \<Rightarrow> dec_token d = Inl Token_EOF)"

section \<open>What the scanner accepts\<close>

text \<open>The lexemes of a document, and documents in which no object repeats a key.\<close>

fun comma_rest :: "lexeme list list \<Rightarrow> lexeme list" where
  "comma_rest [] = []"
| "comma_rest (x # xs) = Comma # x @ comma_rest xs"

fun comma_sep :: "lexeme list list \<Rightarrow> lexeme list" where
  "comma_sep [] = []"
| "comma_sep (x # xs) = x @ comma_rest xs"

fun lexemes :: "json \<Rightarrow> lexeme list" where
  "lexemes (JScalar v) = [Tok (Value v)]"
| "lexemes (JArray js) = Tok (Delim ArrOpen) # comma_sep (map lexemes js) @ [Tok (Delim ArrClose)]"
| "lexemes (JObject fs) = Tok (Delim ObjOpen) #
     comma_sep (map (\<lambda>(k, j). Tok (Value (SString k)) # Colon # lexemes j) fs) @ [Tok (Delim ObjClose)]"

fun unique_keys :: "json \<Rightarrow> bool" where
  "unique_keys (JScalar v) = True"
| "unique_keys (JArray js) = (\<forall>j \<in> set js. unique_keys j)"
| "unique_keys (JObject fs) = (distinct (map fst fs) \<and> (\<forall>(k, j) \<in> set fs. unique_keys j))"

abbreviation member_lexemes :: "string \<times> json \<Rightarrow> lexeme list" where
  "member_lexemes f \<equiv> Tok (Value (SString (fst f))) # Colon # lexemes (snd f)"

lemma lexemes_JObject [simp]: "lexemes (JObject fs) = Tok (Delim ObjOpen) # comma_sep (map member_lexemes fs) @ [Tok (Delim ObjClose)]"
  by (simp add: case_prod_unfold)

lemma unique_keys_JObject [simp]: "unique_keys (JObject fs) \<longleftrightarrow> distinct (map fst fs) \<and> (\<forall>f \<in> set fs. unique_keys (snd f))"
  by (auto simp: case_prod_unfold)

declare lexemes.simps(3) [simp del] unique_keys.simps(3) [simp del]

abbreviation decoder_at :: "lexeme list \<Rightarrow> token_state \<Rightarrow> token_state list \<Rightarrow> json_decoder" where
  "decoder_at ls st stk \<equiv> \<lparr>d_input = ls, d_state = st, d_stack = stk\<rparr>"

text \<open>The separator that a state still expects, and the state after it.\<close>

fun separator :: "token_state \<Rightarrow> lexeme list" where
  "separator ArrayComma = [Comma]"
| "separator ObjectComma = [Comma]"
| "separator ObjectColon = [Colon]"
| "separator _ = []"

fun settled :: "token_state \<Rightarrow> token_state" where
  "settled ArrayComma = ArrayValue"
| "settled ObjectComma = ObjectKey"
| "settled ObjectColon = ObjectValue"
| "settled st = st"

lemma settled_allowed [simp]: "value_allowed st \<Longrightarrow> settled st = st" "value_allowed st \<Longrightarrow> separator st = []"
  by (cases st; simp add: value_allowed_def)+

lemma next_token_separator: "next_token (separator st @ ls) st stk = next_token ls (settled st) stk"
  by (cases st) simp_all

lemma dec_token_value:
  "value_allowed (settled st) \<Longrightarrow>
     dec_token (decoder_at (separator st @ Tok (Value v) # ls) st stk) = Inr (Value v, decoder_at ls (value_end (settled st)) stk)"
  by (auto simp: dec_token_def next_token_separator value_allowed_def)

lemma dec_token_open:
  "value_allowed (settled st) \<Longrightarrow>
     dec_token (decoder_at (separator st @ Tok (Delim ArrOpen) # ls) st stk) = Inr (Delim ArrOpen, decoder_at ls ArrayStart (settled st # stk))"
  "value_allowed (settled st) \<Longrightarrow>
     dec_token (decoder_at (separator st @ Tok (Delim ObjOpen) # ls) st stk) = Inr (Delim ObjOpen, decoder_at ls ObjectStart (settled st # stk))"
  by (simp_all add: dec_token_def next_token_separator)

text \<open>The same facts read backwards.\<close>

lemma token_value_inv:
  "next_token ls st stk = Inr (Value v, d) \<Longrightarrow> st \<notin> {ObjectStart, ObjectKey, ObjectComma} \<Longrightarrow>
     ls = separator st @ Tok (Value v) # d_input d \<and> d_state d = value_end (settled st) \<and> d_stack d = stk"
  by (induction ls st stk rule: next_token.induct) (auto split: if_splits simp: value_allowed_def)

lemma token_key_inv:
  "next_token ls st stk = Inr (Value v, d) \<Longrightarrow> st \<in> {ObjectStart, ObjectKey, ObjectComma} \<Longrightarrow>
     ls = separator st @ Tok (Value v) # d_input d \<and> d_state d = ObjectColon \<and> d_stack d = stk"
  by (induction ls st stk rule: next_token.induct) (auto split: if_splits simp: value_allowed_def)

lemma token_open_inv:
  "next_token ls st stk = Inr (Delim c, d) \<Longrightarrow> c = ArrOpen \<or> c = ObjOpen \<Longrightarrow>
     ls = separator st @ Tok (Delim c) # d_input d \<and> value_allowed (settled st) \<and>
     d_state d = (if c = ArrOpen then ArrayStart else ObjectStart) \<and> d_stack d = (settled st # stk)"
  by (induction ls st stk rule: next_token.induct) (auto split: if_splits simp: value_allowed_def)

lemma token_close_inv:
  "next_token ls st stk = Inr (Delim c, d) \<Longrightarrow> c = ArrClose \<or> c = ObjClose \<Longrightarrow>
     ls = Tok (Delim c) # d_input d \<and> stk \<noteq> [] \<and> d_state d = (value_end (hd stk)) \<and> d_stack d = tl stk \<and>
     (if c = ArrClose then st = ArrayStart \<or> st = ArrayComma else st = ObjectStart \<or> st = ObjectComma)"
  by (induction ls st stk rule: next_token.induct) (auto split: if_splits simp: value_allowed_def)

text \<open>A document is scanned to its end exactly when its keys are unique.\<close>

lemma dec_more_lexemes [simp]: "dec_more (decoder_at (lexemes j @ ls) st stk)"
  by (cases j) (simp_all add: dec_more_def)

lemma dec_more_simps [simp]:
  "dec_more (decoder_at (Comma # ls) st stk)"
  "dec_more (decoder_at (Tok (Value v) # ls) st stk)"
  "\<not> dec_more (decoder_at (Tok (Delim ArrClose) # ls) st stk)"
  "\<not> dec_more (decoder_at (Tok (Delim ObjClose) # ls) st stk)"
  by (simp_all add: dec_more_def)

lemma scan_close_simps [simp]:
  "st = ArrayStart \<or> st = ArrayComma \<Longrightarrow>
     scan_close ArrClose (decoder_at (Tok (Delim ArrClose) # ls) st (s # stk)) = Some (decoder_at ls (value_end s) stk)"
  "st = ObjectStart \<or> st = ObjectComma \<Longrightarrow>
     scan_close ObjClose (decoder_at (Tok (Delim ObjClose) # ls) st (s # stk)) = Some (decoder_at ls (value_end s) stk)"
  by (auto simp: scan_close_def dec_token_def)

definition scans :: "json \<Rightarrow> bool" where
  "scans j \<longleftrightarrow> (\<forall>ls st stk. value_allowed (settled st) \<longrightarrow>
     scan_value (decoder_at (separator st @ lexemes j @ ls) st stk) =
     (if unique_keys j then Some (decoder_at ls (value_end (settled st)) stk) else None))"

lemma scansD:
  "scans j \<Longrightarrow> value_allowed (settled st) \<Longrightarrow> scan_value (decoder_at (separator st @ lexemes j @ ls) st stk) =
     (if unique_keys j then Some (decoder_at ls (value_end (settled st)) stk) else None)"
  by (simp add: scans_def)

lemma value_end_simps [simp]: "value_end ArrayValue = ArrayComma" "value_end ArrayStart = ArrayComma"
  "value_end ObjectValue = ObjectComma" "value_allowed ArrayValue" "value_allowed ArrayStart" "value_allowed ObjectValue"
  by (simp_all add: value_end_def value_allowed_def)

lemma scan_elements_rest:
  assumes "\<forall>j \<in> set js. scans j"
  shows "scan_elements (decoder_at (comma_rest (map lexemes js) @ Tok (Delim ArrClose) # ls) ArrayComma (s # stk)) =
    (if \<forall>j \<in> set js. unique_keys j then Some (decoder_at ls (value_end s) stk) else None)"
  using assms
proof (induction js)
  case (Cons j js)
  let ?rest = "comma_rest (map lexemes js) @ Tok (Delim ArrClose) # ls"
  have "scan_elements (decoder_at (Comma # lexemes j @ ?rest) ArrayComma (s # stk)) =
      (case scan_value (decoder_at (Comma # lexemes j @ ?rest) ArrayComma (s # stk)) of None \<Rightarrow> None | Some d1 \<Rightarrow> scan_elements d1)"
    by (subst scan_elements.simps) simp
  also have "scan_value (decoder_at (Comma # lexemes j @ ?rest) ArrayComma (s # stk)) =
      (if unique_keys j then Some (decoder_at ?rest ArrayComma (s # stk)) else None)"
    using scansD [of j ArrayComma ?rest "s # stk"] Cons.prems by simp
  finally show ?case using Cons by simp
qed (simp add: scan_elements.simps)

lemma scan_members_step:
  assumes "st = ObjectStart \<and> sep = [] \<or> st = ObjectComma \<and> sep = [Comma]" and "scans j"
  shows "scan_members seen (decoder_at (sep @ Tok (Value (SString k)) # Colon # lexemes j @ ls) st stk) =
    (if k \<in> set seen \<or> \<not> unique_keys j then None else scan_members (k # seen) (decoder_at ls ObjectComma stk))"
proof -
  have "dec_token (decoder_at (sep @ Tok (Value (SString k)) # Colon # lexemes j @ ls) st stk) =
      Inr (Value (SString k), decoder_at (Colon # lexemes j @ ls) ObjectColon stk)"
    using assms(1) by (auto simp: dec_token_def)
  moreover have "dec_more (decoder_at (sep @ Tok (Value (SString k)) # Colon # lexemes j @ ls) st stk)"
    using assms(1) by auto
  moreover have "scan_value (decoder_at (Colon # lexemes j @ ls) ObjectColon stk) =
      (if unique_keys j then Some (decoder_at ls ObjectComma stk) else None)"
    using scansD [OF assms(2), of ObjectColon ls stk] by simp
  ultimately show ?thesis by (subst scan_members.simps) simp
qed

lemma scan_members_rest:
  assumes "\<forall>f \<in> set fs. scans (snd f)"
  shows "scan_members seen (decoder_at (comma_rest (map member_lexemes fs) @ Tok (Delim ObjClose) # ls) ObjectComma (s # stk)) =
    (if distinct (map fst fs) \<and> set (map fst fs) \<inter> set seen = {} \<and> (\<forall>f \<in> set fs. unique_keys (snd f))
     then Some (decoder_at ls (value_end s) stk) else None)"
  using assms
proof (induction fs arbitrary: seen)
  case (Cons f fs)
  have "scans (snd f)" using Cons.prems by simp
  note step = scan_members_step [of ObjectComma "[Comma]", simplified, OF this]
  show ?case
    using Cons.IH [of "fst f # seen"] Cons.prems by (auto simp: step)
qed (simp add: scan_members.simps)

lemma scan_value_open:
  assumes "value_allowed (settled st)"
  shows "scan_value (decoder_at (separator st @ Tok (Delim ArrOpen) # ls) st stk) = scan_elements (decoder_at ls ArrayStart (settled st # stk))"
    and "scan_value (decoder_at (separator st @ Tok (Delim ObjOpen) # ls) st stk) = scan_members [] (decoder_at ls ObjectStart (settled st # stk))"
  using dec_token_open [OF assms, of ls stk] by (subst scan_value.simps; simp)+

lemma scans_json: "scans j"
proof (induction j)
  case (JScalar v)
  show ?case unfolding scans_def by (auto simp: scan_value.simps dec_token_value)
next
  case (JArray js)
  have "scan_elements (decoder_at (comma_sep (map lexemes js) @ Tok (Delim ArrClose) # ls) ArrayStart (s # stk)) =
      (if \<forall>j \<in> set js. unique_keys j then Some (decoder_at ls (value_end s) stk) else None)" for ls s stk
  proof (cases js)
    case (Cons j js')
    let ?rest = "comma_rest (map lexemes js') @ Tok (Delim ArrClose) # ls"
    have "scan_elements (decoder_at (lexemes j @ ?rest) ArrayStart (s # stk)) =
        (case scan_value (decoder_at (lexemes j @ ?rest) ArrayStart (s # stk)) of None \<Rightarrow> None | Some d1 \<Rightarrow> scan_elements d1)"
      by (subst scan_elements.simps) simp
    then show ?thesis
      using JArray Cons scansD [of j ArrayStart ?rest "s # stk"] scan_elements_rest [of js' ls s stk] by simp
  qed (simp add: scan_elements.simps)
  then show ?case unfolding scans_def by (simp add: scan_value_open)
next
  case (JObject fs)
  have f: "scans (snd f)" if "f \<in> set fs" for f using JObject [of f "snd f"] that by (cases f) simp
  have "scan_members [] (decoder_at (comma_sep (map member_lexemes fs) @ Tok (Delim ObjClose) # ls) ObjectStart (s # stk)) =
      (if distinct (map fst fs) \<and> (\<forall>f \<in> set fs. unique_keys (snd f)) then Some (decoder_at ls (value_end s) stk) else None)"
    for ls s stk
  proof (cases fs)
    case (Cons g gs)
    have "scans (snd g)" "\<forall>f \<in> set gs. scans (snd f)" using f Cons by auto
    then show ?thesis
      using Cons scan_members_step [of ObjectStart "[]" "snd g" "[]" "fst g", simplified] scan_members_rest [of gs "[fst g]" ls s stk] by auto
  qed (simp add: scan_members.simps)
  then show ?case unfolding scans_def by (simp add: scan_value_open)
qed

text \<open>And nothing else is accepted.\<close>

lemma scan_close_inv:
  "scan_close c d = Some d' \<Longrightarrow> c = ArrClose \<or> c = ObjClose \<Longrightarrow>
     d_input d = Tok (Delim c) # d_input d' \<and> d_stack d \<noteq> [] \<and>
     d_state d' = value_end (hd (d_stack d)) \<and> d_stack d' = tl (d_stack d) \<and>
     (if c = ArrClose then d_state d = ArrayStart \<or> d_state d = ArrayComma else d_state d = ObjectStart \<or> d_state d = ObjectComma)"
  using token_close_inv [of "d_input d" "d_state d" "d_stack d" c d']
  by (auto simp: scan_close_def dec_token_def split: sum.splits if_splits)

text \<open>The input between two decoders is the document, its members or its elements.\<close>

definition reads_value :: "json_decoder \<Rightarrow> json_decoder \<Rightarrow> bool" where
  "reads_value d d' \<longleftrightarrow> (\<exists>j. unique_keys j \<and> d_input d = separator (d_state d) @ lexemes j @ d_input d' \<and>
     d_state d' = value_end (settled (d_state d)) \<and> d_stack d' = d_stack d)"

definition reads_members :: "string list \<Rightarrow> json_decoder \<Rightarrow> json_decoder \<Rightarrow> bool" where
  "reads_members seen d d' \<longleftrightarrow> (\<exists>fs. unique_keys (JObject fs) \<and> set (map fst fs) \<inter> set seen = {} \<and>
     d_input d = (if d_state d = ObjectStart then comma_sep else comma_rest) (map member_lexemes fs) @ Tok (Delim ObjClose) # d_input d' \<and>
     d_stack d \<noteq> [] \<and> d_state d' = value_end (hd (d_stack d)) \<and> d_stack d' = tl (d_stack d))"

definition reads_elements :: "json_decoder \<Rightarrow> json_decoder \<Rightarrow> bool" where
  "reads_elements d d' \<longleftrightarrow> (\<exists>js. unique_keys (JArray js) \<and>
     d_input d = (if d_state d = ArrayStart then comma_sep else comma_rest) (map lexemes js) @ Tok (Delim ArrClose) # d_input d' \<and>
     d_stack d \<noteq> [] \<and> d_state d' = value_end (hd (d_stack d)) \<and> d_stack d' = tl (d_stack d))"

lemma scan_inv:
  "scan_value d = Some d' \<Longrightarrow> d_state d \<notin> {ObjectStart, ObjectKey, ObjectComma} \<Longrightarrow> reads_value d d'"
  "scan_members seen d = Some d' \<Longrightarrow> d_state d \<in> {ObjectStart, ObjectComma} \<Longrightarrow> reads_members seen d d'"
  "scan_elements d = Some d' \<Longrightarrow> d_state d \<in> {ArrayStart, ArrayComma} \<Longrightarrow> reads_elements d d'"
proof (induction d and seen d and d arbitrary: d' and d' and d' rule: scan_value_scan_members_scan_elements.induct)
  case (1 d)
  from 1(3) obtain t d1 where tok: "dec_token d = Inr (t, d1)"
    and r: "(case t of Value _ \<Rightarrow> Some d1
      | Delim c \<Rightarrow> if c = ObjOpen then scan_members [] d1 else if c = ArrOpen then scan_elements d1 else None) = Some d'"
    by (subst (asm) scan_value.simps) (auto split: sum.splits)
  show ?case
  proof (cases t)
    case (Value v)
    then have "reads_value d d1"
      unfolding reads_value_def using token_value_inv [of "d_input d" "d_state d" "d_stack d" v d1] tok 1(4)
      by (intro exI [of _ "JScalar v"]) (auto simp: dec_token_def)
    then show ?thesis using r Value by simp
  next
    case (Delim c)
    then have c: "c = ArrOpen \<or> c = ObjOpen" using r by (auto split: if_splits)
    note op = token_open_inv [OF tok [unfolded dec_token_def Delim] c]
    show ?thesis
    proof (cases "c = ObjOpen")
      case True
      then have "reads_members [] d1 d'" using 1(1) [OF tok refl Delim] r Delim op by auto
      then obtain fs where "unique_keys (JObject fs)" "d_input d1 = comma_sep (map member_lexemes fs) @ Tok (Delim ObjClose) # d_input d'"
          "d_state d' = value_end (settled (d_state d)) \<and> d_stack d' = d_stack d"
        unfolding reads_members_def using op True by auto
      then show ?thesis unfolding reads_value_def using op True by (intro exI [of _ "JObject fs"]) auto
    next
      case False
      then have "reads_elements d1 d'" using 1(2) [OF tok refl Delim] r c Delim op by auto
      then obtain js where "unique_keys (JArray js)" "d_input d1 = comma_sep (map lexemes js) @ Tok (Delim ArrClose) # d_input d'"
          "d_state d' = value_end (settled (d_state d)) \<and> d_stack d' = d_stack d"
        unfolding reads_elements_def using op False c by auto
      then show ?thesis unfolding reads_value_def using op False c by (intro exI [of _ "JArray js"]) auto
    qed
  qed
next
  case (2 seen d)
  show ?case
  proof (cases "dec_more d")
    case True
    with 2(3) obtain key d1 d2 where tok: "dec_token d = Inr (Value (SString key), d1)" and new: "key \<notin> set seen"
      and v: "scan_value d1 = Some d2" and m: "scan_members (key # seen) d2 = Some d'"
      by (subst (asm) scan_members.simps) (auto split: sum.splits json_token.splits json_scalar.splits if_splits option.splits)
    note key = token_key_inv [OF tok [unfolded dec_token_def]]
    have "reads_value d1 d2" using 2(1) [OF True tok refl refl refl new v] key 2(4) by auto
    then obtain j where j: "unique_keys j" "d_input d1 = Colon # lexemes j @ d_input d2"
        "d_state d2 = ObjectComma \<and> d_stack d2 = d_stack d"
      unfolding reads_value_def using key 2(4) by auto
    have "reads_members (key # seen) d2 d'" using 2(2) [OF True tok refl refl refl new v m] j(3) by auto
    then obtain fs where fs: "unique_keys (JObject fs)" "set (map fst fs) \<inter> set (key # seen) = {}"
        "d_input d2 = comma_rest (map member_lexemes fs) @ Tok (Delim ObjClose) # d_input d'"
        "d_stack d \<noteq> []" "d_state d' = value_end (hd (d_stack d)) \<and> d_stack d' = tl (d_stack d)"
      unfolding reads_members_def using j(3) by auto
    have "unique_keys (JObject ((key, j) # fs))" using fs(1,2) j(1) by auto
    moreover have "d_input d = (if d_state d = ObjectStart then comma_sep else comma_rest) (map member_lexemes ((key, j) # fs)) @
        Tok (Delim ObjClose) # d_input d'"
      using key j(2) fs(3) 2(4) by auto
    ultimately show ?thesis
      unfolding reads_members_def using fs(2,4,5) new by (intro exI [of _ "(key, j) # fs"]) auto
  next
    case False
    then have "scan_close ObjClose d = Some d'" using 2(3) by (subst (asm) scan_members.simps) simp
    from scan_close_inv [OF this] show ?thesis unfolding reads_members_def by (intro exI [of _ "[]"]) simp
  qed
next
  case (3 d)
  show ?case
  proof (cases "dec_more d")
    case True
    with 3(3) obtain d1 where v: "scan_value d = Some d1" and e: "scan_elements d1 = Some d'"
      by (subst (asm) scan_elements.simps) (auto split: option.splits)
    have "reads_value d d1" using 3(1) [OF True v] 3(4) by auto
    then obtain j where j: "unique_keys j" "d_input d = separator (d_state d) @ lexemes j @ d_input d1"
        "d_state d1 = ArrayComma \<and> d_stack d1 = d_stack d"
      unfolding reads_value_def using 3(4) by auto
    have "reads_elements d1 d'" using 3(2) [OF True v e] j(3) by auto
    then obtain js where js: "unique_keys (JArray js)"
        "d_input d1 = comma_rest (map lexemes js) @ Tok (Delim ArrClose) # d_input d'"
        "d_stack d \<noteq> []" "d_state d' = value_end (hd (d_stack d)) \<and> d_stack d' = tl (d_stack d)"
      unfolding reads_elements_def using j(3) by auto
    then show ?thesis
      unfolding reads_elements_def using j(1,2) 3(4) by (intro exI [of _ "j # js"]) auto
  next
    case False
    then have "scan_close ArrClose d = Some d'" using 3(3) by (subst (asm) scan_elements.simps) simp
    from scan_close_inv [OF this] show ?thesis unfolding reads_elements_def by (intro exI [of _ "[]"]) simp
  qed
qed

lemma unique_fields:
  "has_unique_json_fields body \<longleftrightarrow> (\<exists>j. lex body = lexemes j \<and> unique_keys j)"
proof
  assume "has_unique_json_fields body"
  then obtain d where s: "scan_value (decoder_at (lex body) TopValue []) = Some d" and e: "dec_token d = Inl Token_EOF"
    by (auto simp: has_unique_json_fields_def new_decoder_def split: option.splits)
  obtain j where j: "unique_keys j" "lex body = lexemes j @ d_input d" "d_state d = TopValue \<and> d_stack d = []"
    using scan_inv(1) [OF s] by (auto simp: reads_value_def value_end_def)
  have "next_token ls TopValue [] = Inl Token_EOF \<Longrightarrow> ls = []" for ls
    by (cases "(ls, TopValue, [] :: token_state list)" rule: next_token.cases) (auto simp: value_allowed_def)
  moreover have "next_token (d_input d) TopValue [] = Inl Token_EOF" using e j(3) unfolding dec_token_def by (metis json_decoder.simps(1,2,3))
  ultimately have "d_input d = []" by blast
  then show "\<exists>j. lex body = lexemes j \<and> unique_keys j" using j by auto
next
  assume "\<exists>j. lex body = lexemes j \<and> unique_keys j"
  then obtain j where j: "lex body = lexemes j" "unique_keys j" by blast
  then show "has_unique_json_fields body"
    using scansD [OF scans_json, of TopValue j "[]" "[]"]
    by (simp add: has_unique_json_fields_def new_decoder_def value_allowed_def value_end_def dec_token_def)
qed

text \<open>C28: the duplicate-key scanner accepts a body exactly when it is one JSON document, with nothing after it, in
  which no object, at any depth, repeats a key. In particular it refuses trailing commas, missing separators,
  mismatched brackets and trailing values, although it only asks the decoder for tokens and never parses.\<close>

theorem unique_fields_iff:
  "has_unique_json_fields body \<longleftrightarrow> (\<exists>j. lex body = lexemes j \<and> unique_keys j)"
  by (rule unique_fields)

lemma unique_fields_examples:
  "has_unique_json_fields (str_bytes ''{'' @ [34, 97, 34] @ str_bytes '' : [1, -2.5e3, {}], '' @ [34, 98, 34] @ str_bytes '':null}'')"
  "\<not> has_unique_json_fields (str_bytes ''{'' @ [34, 97, 34] @ str_bytes '':1,'' @ [34, 92] @ str_bytes ''u0061'' @ [34] @ str_bytes '':2}'')"
  "\<not> has_unique_json_fields (str_bytes ''[1,]'')"
  "\<not> has_unique_json_fields (str_bytes ''{}{}'')"
  by code_simp+

section \<open>Unmarshal and Decode\<close>

text \<open>
  The document at the head of the input. The fuel is the depth of the recursion; \<open>decode_document\<close> gives twice
  the length of the input, which is always enough (\<open>parse_lexemes\<close>).
\<close>

fun parse_value :: "nat \<Rightarrow> lexeme list \<Rightarrow> (json \<times> lexeme list) option"
  and parse_elements :: "nat \<Rightarrow> lexeme list \<Rightarrow> (json list \<times> lexeme list) option"
  and parse_members :: "nat \<Rightarrow> lexeme list \<Rightarrow> ((string \<times> json) list \<times> lexeme list) option" where
  "parse_value 0 ls = None"
| "parse_value (Suc n) ls = (case ls of
     Tok (Value v) # r \<Rightarrow> Some (JScalar v, r)
   | Tok (Delim ArrOpen) # Tok (Delim ArrClose) # r \<Rightarrow> Some (JArray [], r)
   | Tok (Delim ArrOpen) # r \<Rightarrow> map_option (map_prod JArray id) (parse_elements n r)
   | Tok (Delim ObjOpen) # Tok (Delim ObjClose) # r \<Rightarrow> Some (JObject [], r)
   | Tok (Delim ObjOpen) # r \<Rightarrow> map_option (map_prod JObject id) (parse_members n r)
   | _ \<Rightarrow> None)"
| "parse_elements 0 ls = None"
| "parse_elements (Suc n) ls = (case parse_value n ls of
     Some (j, Comma # r) \<Rightarrow> map_option (map_prod (Cons j) id) (parse_elements n r)
   | Some (j, Tok (Delim ArrClose) # r) \<Rightarrow> Some ([j], r)
   | _ \<Rightarrow> None)"
| "parse_members 0 ls = None"
| "parse_members (Suc n) ls = (case ls of
     Tok (Value (SString k)) # Colon # ls' \<Rightarrow> (case parse_value n ls' of
         Some (j, Comma # r) \<Rightarrow> map_option (map_prod (Cons (k, j)) id) (parse_members n r)
       | Some (j, Tok (Delim ObjClose) # r) \<Rightarrow> Some ([(k, j)], r)
       | _ \<Rightarrow> None)
   | _ \<Rightarrow> None)"

fun json_depth :: "json \<Rightarrow> nat" where
  "json_depth (JScalar v) = 0"
| "json_depth (JArray js) = Suc (foldr max (map json_depth js) 0)"
| "json_depth (JObject fs) = Suc (foldr max (map (json_depth \<circ> snd) fs) 0)"

text \<open>\<open>Decoder.Decode\<close> reads the next document and leaves the rest; the scanner refuses more than 10000 open
  brackets. \<open>Unmarshal\<close> wants nothing but the document.\<close>

definition decode_document :: "lexeme list \<Rightarrow> (json \<times> lexeme list) option" where
  "decode_document ls = (case parse_value (2 * length ls) ls of
     Some (j, rest) \<Rightarrow> if json_depth j \<le> 10000 then Some (j, rest) else None
   | None \<Rightarrow> None)"

definition unmarshal :: "byte list \<Rightarrow> json option" where
  "unmarshal body = (case decode_document (lex body) of
     Some (j, []) \<Rightarrow> Some j
   | _ \<Rightarrow> None)"

lemma comma_rest_sep: "xs \<noteq> [] \<Longrightarrow> comma_rest xs = Comma # comma_sep xs"
  by (cases xs) simp_all

lemma parse_sound:
  "parse_value n ls = Some (j, r) \<Longrightarrow> ls = lexemes j @ r"
  "parse_elements n ls = Some (js, r) \<Longrightarrow> js \<noteq> [] \<and> ls = comma_sep (map lexemes js) @ Tok (Delim ArrClose) # r"
  "parse_members n ls = Some (fs, r) \<Longrightarrow> fs \<noteq> [] \<and> ls = comma_sep (map member_lexemes fs) @ Tok (Delim ObjClose) # r"
proof (induction n arbitrary: ls j js fs r)
  case (Suc n)
  { case 1
    then show ?case
      by (auto split: list.splits lexeme.splits json_token.splits json_delim.splits dest!: Suc.IH(2,3)) }
  { case 2
    then show ?case
      by (auto split: list.splits lexeme.splits json_token.splits json_delim.splits option.splits prod.splits
          dest!: Suc.IH(1,2) simp: comma_rest_sep) }
  { case 3
    then show ?case
      by (auto split: list.splits lexeme.splits json_token.splits json_scalar.splits json_delim.splits option.splits prod.splits
          dest!: Suc.IH(1,3) simp: comma_rest_sep) }
qed simp_all

text \<open>With enough fuel every document is read, whatever follows it.\<close>

definition parses :: "json \<Rightarrow> bool" where
  "parses j \<longleftrightarrow> (\<forall>n r. 2 * length (lexemes j) \<le> Suc n \<longrightarrow> parse_value n (lexemes j @ r) = Some (j, r))"

lemma parsesD: "parses j \<Longrightarrow> 2 * length (lexemes j) \<le> Suc n \<Longrightarrow> parse_value n (lexemes j @ r) = Some (j, r)"
  by (simp add: parses_def)

lemma lexemes_nonempty [simp]: "lexemes j \<noteq> []"
  by (cases j) simp_all

lemma parse_elements_complete:
  "\<forall>j \<in> set js. parses j \<Longrightarrow> js \<noteq> [] \<Longrightarrow> 2 * length (comma_sep (map lexemes js)) < n \<Longrightarrow>
     parse_elements n (comma_sep (map lexemes js) @ Tok (Delim ArrClose) # r) = Some (js, r)"
proof (induction js arbitrary: n)
  case (Cons j js)
  obtain m where n: "n = Suc m" using Cons.prems(3) by (cases n) auto
  have j: "parses j" "2 * length (lexemes j) \<le> Suc m" using Cons.prems n by auto
  show ?case
  proof (cases "js = []")
    case False
    then have "2 * length (comma_sep (map lexemes js)) < m" using Cons.prems(3) n by (simp add: comma_rest_sep)
    then show ?thesis using Cons.IH [of m] Cons.prems n False parsesD [OF j] by (simp add: comma_rest_sep)
  qed (use n parsesD [OF j] in simp)
qed simp

lemma parse_members_complete:
  "\<forall>f \<in> set fs. parses (snd f) \<Longrightarrow> fs \<noteq> [] \<Longrightarrow> 2 * length (comma_sep (map member_lexemes fs)) < n \<Longrightarrow>
     parse_members n (comma_sep (map member_lexemes fs) @ Tok (Delim ObjClose) # r) = Some (fs, r)"
proof (induction fs arbitrary: n)
  case (Cons f fs)
  obtain m where n: "n = Suc m" using Cons.prems(3) by (cases n) auto
  have f: "parses (snd f)" "2 * length (lexemes (snd f)) \<le> Suc m" using Cons.prems n by auto
  show ?case
  proof (cases "fs = []")
    case False
    then have "2 * length (comma_sep (map member_lexemes fs)) < m" using Cons.prems(3) n by (simp add: comma_rest_sep)
    then show ?thesis using Cons.IH [of m] Cons.prems n False parsesD [OF f] by (simp add: comma_rest_sep)
  qed (use n parsesD [OF f] in simp)
qed simp

lemma first_lexeme: "lexemes j = l # ls \<Longrightarrow> l \<noteq> Tok (Delim ArrClose) \<and> l \<noteq> Tok (Delim ObjClose)"
  by (cases j) auto

lemma parses_json: "parses j"
proof (induction j)
  case (JScalar v)
  show ?case by (auto simp: parses_def dest!: Suc_le_D)
next
  case (JArray js)
  show ?case unfolding parses_def
  proof (intro allI impI)
    fix n r assume n: "2 * length (lexemes (JArray js)) \<le> Suc n"
    then obtain m where m: "n = Suc m" "2 * length (comma_sep (map lexemes js)) < m" by (cases n) auto
    show "parse_value n (lexemes (JArray js) @ r) = Some (JArray js, r)"
    proof (cases js)
      case (Cons j js')
      then obtain l ls where l: "lexemes j = l # ls" by (cases "lexemes j") auto
      have "parse_elements m (comma_sep (map lexemes js) @ Tok (Delim ArrClose) # r) = Some (js, r)"
        by (rule parse_elements_complete) (use JArray Cons m in auto)
      moreover have "comma_sep (map lexemes js) = l # ls @ comma_rest (map lexemes js')" using Cons l by simp
      ultimately show ?thesis using m first_lexeme [OF l]
        by (cases l) (auto split: json_token.splits json_delim.splits)
    qed (use m in simp)
  qed
next
  case (JObject fs)
  have f: "\<forall>f \<in> set fs. parses (snd f)" using JObject by (metis prod_set_simps(2) prod.collapse singletonI)
  show ?case unfolding parses_def
  proof (intro allI impI)
    fix n r assume n: "2 * length (lexemes (JObject fs)) \<le> Suc n"
    then obtain m where m: "n = Suc m" "2 * length (comma_sep (map member_lexemes fs)) < m" by (cases n) auto
    show "parse_value n (lexemes (JObject fs) @ r) = Some (JObject fs, r)"
    proof (cases fs)
      case (Cons f fs')
      have "parse_members m (comma_sep (map member_lexemes fs) @ Tok (Delim ObjClose) # r) = Some (fs, r)"
        by (rule parse_members_complete) (use f Cons m in auto)
      then show ?thesis using m Cons by simp
    qed (use m in simp)
  qed
qed

lemma decode_document_lexemes:
  "decode_document (lexemes j @ r) = (if json_depth j \<le> 10000 then Some (j, r) else None)"
  using parsesD [OF parses_json, of j "2 * length (lexemes j @ r)" r] by (simp add: decode_document_def)

lemma decode_document_sound: "decode_document ls = Some (j, r) \<Longrightarrow> ls = lexemes j @ r \<and> json_depth j \<le> 10000"
  by (auto simp: decode_document_def dest: parse_sound split: option.splits if_splits)

lemma unmarshal_iff: "unmarshal body = Some j \<longleftrightarrow> lex body = lexemes j \<and> json_depth j \<le> 10000"
  using decode_document_lexemes [of j "[]"]
  by (auto simp: unmarshal_def dest: decode_document_sound split: option.splits list.splits)

lemma lexemes_inject: "lexemes i = lexemes j \<longleftrightarrow> i = j"
proof
  assume eq: "lexemes i = lexemes j"
  have "parse_value (2 * length (lexemes i)) (lexemes i @ []) = Some (i, [])" by (rule parsesD [OF parses_json]) simp
  moreover have "parse_value (2 * length (lexemes j)) (lexemes j @ []) = Some (j, [])" by (rule parsesD [OF parses_json]) simp
  ultimately show "i = j" using eq by simp
qed simp

text \<open>So a body that passes the scanner and \<open>Unmarshal\<close> is a document with unique keys.\<close>

lemma unmarshal_unique: "has_unique_json_fields body \<Longrightarrow> unmarshal body = Some j \<Longrightarrow> unique_keys j"
  using lexemes_inject by (auto simp: unique_fields unmarshal_iff)

lemma document_of_lexemes:
  assumes "lex body = lexemes j" and "unique_keys j" and "json_depth j \<le> 10000"
  shows "has_unique_json_fields body" "unmarshal body = Some j" "decode_document (lex body) = Some (j, [])"
  using assms decode_document_lexemes [of j "[]"] by (auto simp: unique_fields unmarshal_iff)

end
