(* ===== verification/Http.thy ===== *)
theory Http
  imports Json Lobby_State
begin

text \<open>
  What the two HTTP handlers (\<open>internal/control/http.go\<close>, \<open>internal/playerapi/http.go\<close>) share: the parts of
  \<open>net/http\<close> they read and write, the decoding of a JSON body into Go values, and the helpers that \<open>control\<close>
  declares and \<open>playerapi\<close> repeats.

  \<open>mime.ParseMediaType\<close>, \<open>time.Parse\<close> and \<open>Time.Format\<close> (both with the layout \<open>time.RFC3339Nano\<close>, the time in
  UTC) are parameters: the fields of a record \<open>go_lib\<close>. A parse that fails is \<^const>\<open>None\<close>.
\<close>

section \<open>Requests and responses\<close>

record go_lib =
  gl_parse_media_type :: "string \<Rightarrow> string option"
  gl_parse_time :: "string \<Rightarrow> time option"
  gl_format_time :: "time \<Rightarrow> string"

text \<open>The bytes that reading a body delivers, and whether it then fails instead of ending.\<close>

datatype http_body = Http_Body "byte list" bool

text \<open>
  \<open>rq_path\<close> is \<open>URL.Path\<close>, \<open>rq_query\<close> the map \<open>URL.Query()\<close>, \<open>rq_authorization\<close> all the values of that header and
  \<open>rq_content_type\<close> the first value of its own. The body of a request that a server gets is never nil.
\<close>

record http_request =
  rq_method :: string
  rq_path :: string
  rq_escaped_path :: string
  rq_query :: "(string, string list) fmap"
  rq_authorization :: "string list"
  rq_content_type :: string
  rq_body :: "http_body option"
  rq_content_length :: int

text \<open>A response: headers, status and JSON body (with a newline after it); \<open>hw_fatal\<close> records a call of \<open>Fatal\<close>.\<close>

record http_writer =
  hw_header :: "(string, string) fmap"
  hw_status :: nat
  hw_body :: "json option"
  hw_fatal :: bool

definition new_writer :: http_writer where
  "new_writer = \<lparr>hw_header = fmempty, hw_status = 200, hw_body = None, hw_fatal = False\<rparr>"

definition set_header :: "string \<Rightarrow> string \<Rightarrow> http_writer \<Rightarrow> http_writer" where
  "set_header k v w = w\<lparr>hw_header := fmupd k v (hw_header w)\<rparr>"

definition write_json :: "nat \<Rightarrow> json \<Rightarrow> http_writer \<Rightarrow> http_writer" where
  "write_json status v w = (set_header ''Content-Type'' ''application/json'' w)\<lparr>hw_status := status, hw_body := Some v\<rparr>"

abbreviation json_string :: "string \<Rightarrow> json" where
  "json_string s \<equiv> JScalar (SString s)"

definition json_uint :: "nat \<Rightarrow> json" where
  "json_uint n = JScalar (SNumber (format_uint n))"

abbreviation json_bool :: "bool \<Rightarrow> json" where
  "json_bool b \<equiv> JScalar (SBool b)"

definition write_error :: "nat \<Rightarrow> string \<Rightarrow> string \<Rightarrow> http_writer \<Rightarrow> http_writer" where
  "write_error status code message w = write_json status
     (JObject [(''error'', JObject [(''code'', json_string code), (''message'', json_string message)])]) w"

definition call_fatal :: "bool \<Rightarrow> http_writer \<Rightarrow> http_writer" where
  "call_fatal registered w = (if registered then w\<lparr>hw_fatal := True\<rparr> else w)"

definition StatusBadRequest :: nat where "StatusBadRequest = 400"
definition StatusInternalServerError :: nat where "StatusInternalServerError = 500"

definition invalid_request :: "http_writer \<Rightarrow> http_writer" where
  "invalid_request w = write_error StatusBadRequest ''invalid_request'' ''request is invalid'' w"

lemma write_fields [simp]:
  "hw_status (write_json s v w) = s" "hw_fatal (write_json s v w) = hw_fatal w"
  "hw_status (write_error s c m w) = s" "hw_fatal (write_error s c m w) = hw_fatal w"
  "hw_status (set_header k x w) = hw_status w" "hw_fatal (set_header k x w) = hw_fatal w"
  "hw_status (invalid_request w) = 400" "hw_fatal (invalid_request w) = hw_fatal w"
  "hw_status (call_fatal b w) = hw_status w" "hw_fatal (call_fatal b w) \<longleftrightarrow> b \<or> hw_fatal w"
  by (simp_all add: write_json_def write_error_def set_header_def invalid_request_def StatusBadRequest_def call_fatal_def)

section \<open>Reading a body\<close>

definition maxRequestBodyBytes :: nat where "maxRequestBodyBytes = 65536"

datatype body_error = Body_Too_Large | Body_Failed

text \<open>\<open>io.ReadAll\<close> of a body under \<open>http.MaxBytesReader\<close>.\<close>

fun read_limited :: "nat \<Rightarrow> http_body \<Rightarrow> body_error + byte list" where
  "read_limited limit (Http_Body bs fails) =
     (if length bs > limit then Inl Body_Too_Large else if fails then Inl Body_Failed else Inr bs)"

definition request_has_body :: "http_request \<Rightarrow> bool" where
  "request_has_body rq = (case rq_body rq of
     None \<Rightarrow> False
   | Some (Http_Body bs fails) \<Rightarrow>
       if rq_content_length rq = 0 then False
       else if rq_content_length rq > 0 then True
       else bs \<noteq> [] \<or> fails)"

section \<open>Decoding into Go values\<close>

text \<open>
  A JSON null leaves the value as it was, which is the zero value here; any other mismatch of the kinds, and a
  number that is no integer of the width, is an error.
\<close>

fun decode_string :: "json \<Rightarrow> string option" where
  "decode_string (JScalar SNull) = Some []"
| "decode_string (JScalar (SString s)) = Some s"
| "decode_string _ = None"

fun decode_uint :: "nat \<Rightarrow> json \<Rightarrow> nat option" where
  "decode_uint w (JScalar SNull) = Some 0"
| "decode_uint w (JScalar (SNumber s)) = (case parse_uint s of
     Some v \<Rightarrow> if v < 2 ^ w then Some v else None
   | None \<Rightarrow> None)"
| "decode_uint w _ = None"

fun decode_bool :: "json \<Rightarrow> bool option" where
  "decode_bool (JScalar SNull) = Some False"
| "decode_bool (JScalar (SBool b)) = Some b"
| "decode_bool _ = None"

definition decode_u32 :: "json \<Rightarrow> u32 option" where
  "decode_u32 j = map_option of_nat (decode_uint 32 j)"

definition decode_u64 :: "json \<Rightarrow> u64 option" where
  "decode_u64 j = map_option of_nat (decode_uint 64 j)"

text \<open>One field of a struct. Its keys have been checked before, so the case folding of \<open>encoding/json\<close> and the
  refusal of unknown fields play no part.\<close>

fun decode_field :: "string \<Rightarrow> (json \<Rightarrow> 'a option) \<Rightarrow> json \<Rightarrow> 'a option" where
  "decode_field k dec (JObject fs) = (case map_of (rev fs) k of None \<Rightarrow> dec (JScalar SNull) | Some v \<Rightarrow> dec v)"
| "decode_field k dec (JScalar SNull) = dec (JScalar SNull)"
| "decode_field k dec _ = None"

text \<open>\<open>Unmarshal\<close> into a \<open>map[string]json.RawMessage\<close> and into a slice of them.\<close>

fun raw_object :: "json \<Rightarrow> (string, json) fmap option" where
  "raw_object (JObject fs) = Some (fmap_of_list (rev fs))"
| "raw_object (JScalar SNull) = Some fmempty"
| "raw_object _ = None"

fun decode_all :: "(json \<Rightarrow> 'a option) \<Rightarrow> json list \<Rightarrow> 'a list option" where
  "decode_all dec [] = Some []"
| "decode_all dec (j # js) = (case dec j of
     None \<Rightarrow> None
   | Some v \<Rightarrow> map_option (Cons v) (decode_all dec js))"

fun decode_slice :: "(json \<Rightarrow> 'a option) \<Rightarrow> json \<Rightarrow> 'a list option" where
  "decode_slice dec (JArray js) = decode_all dec js"
| "decode_slice dec (JScalar SNull) = Some []"
| "decode_slice dec _ = None"

definition has_exact_keys :: "(string, json) fmap \<Rightarrow> string list \<Rightarrow> bool" where
  "has_exact_keys obj keys \<longleftrightarrow> len_map obj = int (length keys) \<and> (\<forall>key \<in> set keys. fmlookup obj key \<noteq> None)"

text \<open>
  \<open>decodeExactJSON\<close>: \<open>target\<close> decodes the document into the value the caller passes. \<^const>\<open>Inl\<close> is the
  error response it has written; \<^const>\<open>None\<close> is the panic of a nil body.
\<close>

definition decode_exact_json ::
    "go_lib \<Rightarrow> (json \<Rightarrow> 'a option) \<Rightarrow> string list \<Rightarrow> http_request \<Rightarrow> http_writer \<Rightarrow> (http_writer + 'a) option" where
  "decode_exact_json G target keys rq w =
     (if gl_parse_media_type G (rq_content_type rq) \<noteq> Some ''application/json''
      then Some (Inl (write_error 415 ''unsupported_media_type'' ''Content-Type must be application/json'' w))
      else (case rq_body rq of
          None \<Rightarrow> None
        | Some source \<Rightarrow> (case read_limited maxRequestBodyBytes source of
            Inl Body_Too_Large \<Rightarrow> Some (Inl (write_error 413 ''body_too_large'' ''request body exceeds 65536 bytes'' w))
          | Inl Body_Failed \<Rightarrow> Some (Inl (invalid_request w))
          | Inr body \<Rightarrow>
              if \<not> has_unique_json_fields body then Some (Inl (invalid_request w))
              else (case Option.bind (unmarshal body) raw_object of
                  None \<Rightarrow> Some (Inl (invalid_request w))
                | Some obj \<Rightarrow>
                    if \<not> has_exact_keys obj keys then Some (Inl (invalid_request w))
                    else (case decode_document (lex body) of
                        None \<Rightarrow> Some (Inl (invalid_request w))
                      | Some (j, rest) \<Rightarrow> (case target j of
                          None \<Rightarrow> Some (Inl (invalid_request w))
                        | Some v \<Rightarrow> if rest \<noteq> [] then Some (Inl (invalid_request w)) else Some (Inr v)))))))"

end
