(* ===== verification/Player_Auth.thy ===== *)
theory Player_Auth
  imports Base64 Codec Auth_Tags
begin

text \<open>
  \<open>internal/playerauth/auth.go\<close>: the bearer tokens of players. A token is the URL-safe Base64 of a
  version byte, the expiry in nanoseconds, the length of the player identifier, the identifier and the
  HMAC of all that. HMAC-SHA-256 is third-party code: the argument \<open>H\<close>, of which the properties use only
  that its result has 32 bytes.
\<close>

section \<open>Tokens\<close>

datatype auth_error = AuthInvalid | AuthExpired | AuthFatalRandom

record claims =
  cl_player_id :: string
  cl_expires_at :: time

record player_auth =
  pa_key :: bytes32
  pa_token_ttl :: duration

definition HardTokenTTL :: duration where "HardTokenTTL = 15 * minute"
definition tokenVersion :: byte where "tokenVersion = 1"
definition tokenHeaderSize :: nat where "tokenHeaderSize = 10"
definition tokenTagSize :: nat where "tokenTagSize = 32"
definition maxPlayerIDSize :: nat where "maxPlayerIDSize = 64"

lemmas token_consts = tokenVersion_def tokenHeaderSize_def tokenTagSize_def maxPlayerIDSize_def

text \<open>\<open>New\<close>; \<open>copy\<close> fills an array of 32 zero bytes.\<close>

definition player_auth_new :: "hmac_fun \<Rightarrow> bytes32 \<Rightarrow> duration \<Rightarrow> byte list \<Rightarrow> (auth_error + player_auth) \<times> byte list" where
  "player_auth_new H operator_secret token_ttl random =
     (if operator_secret = replicate 32 0 \<or> token_ttl \<le> 0 \<or> token_ttl > HardTokenTTL then (Inl AuthInvalid, random)
      else (case read_full 32 random of
          (None, random') \<Rightarrow> (Inl AuthFatalRandom, random')
        | (Some nonce, random') \<Rightarrow>
            (Inr \<lparr>pa_key = take 32 (H operator_secret (str_bytes ''go-lobby-relay/player-token/v1'' @ [0] @ nonce) @ replicate 32 0),
                  pa_token_ttl = token_ttl\<rparr>, random')))"

definition token_payload :: "int \<Rightarrow> string \<Rightarrow> byte list" where
  "token_payload expires_unix_nano player_id =
     [tokenVersion] @ be64 (of_int expires_unix_nano) @ [of_nat (length player_id)] @ str_bytes player_id"

text \<open>
  \<open>Issue\<close>. \<open>UnixNano\<close> wraps to 64 bits, and \<open>time.Unix(0, n)\<close> is the time with that many nanoseconds.
\<close>

definition issue :: "hmac_fun \<Rightarrow> player_auth option \<Rightarrow> string \<Rightarrow> time \<Rightarrow> auth_error + string \<times> claims" where
  "issue H auth player_id now = (case auth of
     None \<Rightarrow> Inl AuthInvalid
   | Some a \<Rightarrow>
       if \<not> valid_id player_id then Inl AuthInvalid
       else (let expires_at = now + pa_token_ttl a;
                 expires_unix_nano = i64 expires_at
             in if expires_unix_nano \<le> 0 \<or> expires_unix_nano \<noteq> expires_at then Inl AuthInvalid
                else (let payload = token_payload expires_unix_nano player_id;
                          raw = payload @ H (pa_key a) payload
                      in Inr (b64_encode raw, \<lparr>cl_player_id = player_id, cl_expires_at = expires_at\<rparr>))))"

definition verify :: "hmac_fun \<Rightarrow> player_auth option \<Rightarrow> string \<Rightarrow> time \<Rightarrow> auth_error + claims" where
  "verify H auth token now = (case auth of
     None \<Rightarrow> Inl AuthInvalid
   | Some a \<Rightarrow>
       (let minimum_raw = tokenHeaderSize + 1 + tokenTagSize;
            maximum_raw = tokenHeaderSize + maxPlayerIDSize + tokenTagSize
        in if length token < b64_encoded_len minimum_raw \<or> length token > b64_encoded_len maximum_raw then Inl AuthInvalid
        else (case b64_decode_strict token of
            None \<Rightarrow> Inl AuthInvalid
          | Some raw \<Rightarrow>
              if b64_encode raw \<noteq> token \<or> length raw < minimum_raw \<or> length raw > maximum_raw then Inl AuthInvalid
              else (let player_id_length = unat (raw ! 9) in
                if raw ! 0 \<noteq> tokenVersion \<or> player_id_length < 1 \<or> player_id_length > maxPlayerIDSize \<or>
                   length raw \<noteq> tokenHeaderSize + player_id_length + tokenTagSize then Inl AuthInvalid
                else (let payload = take (length raw - tokenTagSize) raw in
                  if drop (length payload) raw \<noteq> H (pa_key a) payload then Inl AuthInvalid
                  else (let player_id = bytes_str (drop tokenHeaderSize payload);
                            expires_unix_nano = sint (be64_value (take 8 (drop 1 payload)))
                        in if \<not> valid_id player_id \<or> expires_unix_nano \<le> 0 then Inl AuthInvalid
                           else if \<not> now < expires_unix_nano then Inl AuthExpired
                           else Inr \<lparr>cl_player_id = player_id, cl_expires_at = expires_unix_nano\<rparr>))))))"

section \<open>What a token is\<close>

definition token_of :: "hmac_fun \<Rightarrow> bytes32 \<Rightarrow> int \<Rightarrow> string \<Rightarrow> string" where
  "token_of H key expires player_id =
     b64_encode (token_payload expires player_id @ H key (token_payload expires player_id))"

lemma token_id_length: "valid_id s \<Longrightarrow> 1 \<le> length s \<and> length s \<le> 64"
  by (auto simp: valid_id_def MaxIDBytes_def Suc_le_eq split: if_splits)

lemma length_payload: "length (token_payload e p) = 10 + length p"
  by (simp add: token_payload_def)

lemma sint_of_int64: "in_i64 e \<Longrightarrow> sint (of_int e :: u64) = e"
  by (simp add: in_i64_def int_word_sint mod_pos_pos_trivial)

text \<open>The parts of a payload.\<close>

lemma payload_parts:
  assumes "valid_id p" and "in_i64 e"
  shows "token_payload e p ! 0 = tokenVersion" "unat (token_payload e p ! 9) = length p"
    "bytes_str (drop 10 (token_payload e p)) = p" "sint (be64_value (take 8 (drop 1 (token_payload e p)))) = e"
proof -
  have len: "length (be64 (of_int e)) = 8" by simp
  show "token_payload e p ! 0 = tokenVersion" by (simp add: token_payload_def)
  have "token_payload e p ! 9 = of_nat (length p)"
    using len by (simp add: token_payload_def nth_Cons nth_append)
  then show "unat (token_payload e p ! 9) = length p"
    using token_id_length [OF assms(1)] by (simp add: unat_of_nat take_bit_nat_eq_self)
  show "bytes_str (drop 10 (token_payload e p)) = p"
    using len by (simp add: token_payload_def)
  show "sint (be64_value (take 8 (drop 1 (token_payload e p)))) = e"
    using len by (simp add: token_payload_def sint_of_int64 [OF assms(2)])
qed

lemma str_bytes_bytes_str [simp]: "str_bytes (bytes_str bs) = bs"
proof -
  have "of_nat (of_char (char_of (unat b) :: char)) = b" for b :: byte
    using unat_byte_lt [of b] by simp
  then show ?thesis by (simp add: str_bytes_def bytes_str_def comp_def)
qed

lemma length_bytes_str [simp]: "length (bytes_str bs) = length bs"
  by (simp add: bytes_str_def)

lemma split_payload: "10 \<le> length P \<Longrightarrow> P = [P ! 0] @ take 8 (drop 1 P) @ [P ! 9] @ drop 10 P"
  by (rule nth_equalityI) (auto simp: nth_append nth_Cons min_def split: nat.split intro: arg_cong [of _ _ "(!) P"])

text \<open>A raw token with the right version and lengths is a payload and a tag.\<close>

lemma raw_payload:
  assumes len: "length raw = 42 + unat (raw ! 9)" and v: "raw ! 0 = tokenVersion"
  shows "take (length raw - 32) raw =
    token_payload (sint (be64_value (take 8 (drop 1 (take (length raw - 32) raw)))))
      (bytes_str (drop 10 (take (length raw - 32) raw)))"
proof -
  let ?P = "take (length raw - 32) raw"
  have P: "length ?P = 10 + unat (raw ! 9)" "?P ! 0 = tokenVersion" "?P ! 9 = raw ! 9" using len v by simp_all
  have "be64 (of_int (sint (be64_value (take 8 (drop 1 ?P))))) = take 8 (drop 1 ?P)"
    using P(1) by (simp add: be64_be64_value)
  moreover have "(of_nat (length (bytes_str (drop 10 ?P))) :: byte) = raw ! 9" using P(1) by simp
  moreover have "?P = [?P ! 0] @ take 8 (drop 1 ?P) @ [?P ! 9] @ drop 10 ?P" using P(1) by (intro split_payload) simp
  ultimately show ?thesis unfolding token_payload_def using P(2,3) by simp
qed

text \<open>\<open>Verify\<close> of a token of the same key.\<close>

lemma verify_token_of:
  assumes H: "\<And>k m. length (H k m) = 32" and p: "valid_id p" and e: "0 < e" "e \<le> max_int64"
  shows "verify H (Some auth) (token_of H (pa_key auth) e p) now =
    (if now < e then Inr \<lparr>cl_player_id = p, cl_expires_at = e\<rparr> else Inl AuthExpired)"
proof -
  define P where "P = token_payload e p"
  define raw where "raw = P @ H (pa_key auth) P"
  have token: "token_of H (pa_key auth) e p = b64_encode raw" by (simp add: token_of_def P_def raw_def)
  have id: "1 \<le> length p" "length p \<le> 64" using token_id_length [OF p] by blast+
  have len: "length P = 10 + length p" "length raw = 42 + length p"
    by (simp_all add: P_def raw_def length_payload H)
  have "in_i64 e" using e by (simp add: in_i64_def)
  note parts = payload_parts [OF p this, folded P_def]
  have "raw ! 0 = tokenVersion" "unat (raw ! 9) = length p"
    using parts(1,2) len id by (simp_all add: raw_def nth_append)
  moreover have "take (length raw - 32) raw = P" "drop (length P) raw = H (pa_key auth) P"
    using len by (simp_all add: raw_def)
  moreover have "\<not> length (b64_encode raw) < b64_encoded_len 43" "\<not> length (b64_encode raw) > b64_encoded_len 106"
    unfolding length_encode not_less using id len by (simp_all add: b64_encoded_len_mono)
  ultimately show ?thesis
    using parts(3,4) p e id len by (auto simp add: verify_def Let_def token_consts token b64_round_trip)
qed

text \<open>C20: the tokens that \<open>Verify\<close> accepts are exactly the ones that \<open>Issue\<close> makes with the same key: a
  token is accepted, with its player and expiry, exactly when it is the encoding of a payload for a valid
  player identifier and an expiry after now, followed by the HMAC of that payload under the key. No other
  text is accepted: no second encoding of the same bytes, no trailing bits, no line breaks.\<close>

theorem verify_accepts_iff:
  assumes "\<And>k m. length (H k m) = 32"
  shows "verify H (Some auth) token now = Inr c \<longleftrightarrow>
    token = token_of H (pa_key auth) (cl_expires_at c) (cl_player_id c) \<and> valid_id (cl_player_id c) \<and>
    0 < cl_expires_at c \<and> cl_expires_at c \<le> max_int64 \<and> now < cl_expires_at c"
proof (intro iffI)
  assume "verify H (Some auth) token now = Inr c"
  then obtain raw where raw: "b64_encode raw = token"
    and v: "raw ! 0 = tokenVersion" "length raw = 42 + unat (raw ! 9)"
    and tag: "drop (length (take (length raw - 32) raw)) raw = H (pa_key auth) (take (length raw - 32) raw)"
    and id: "valid_id (cl_player_id c)" "0 < cl_expires_at c" "now < cl_expires_at c"
    and c: "cl_player_id c = bytes_str (drop 10 (take (length raw - 32) raw))"
      "cl_expires_at c = sint (be64_value (take 8 (drop 1 (take (length raw - 32) raw))))"
    by (auto simp: verify_def Let_def token_consts split: option.splits if_splits)
  have "take (length raw - 32) raw = token_payload (cl_expires_at c) (cl_player_id c)"
    using raw_payload [OF v(2,1)] by (simp only: c)
  moreover have "raw = take (length raw - 32) raw @ drop (length (take (length raw - 32) raw)) raw" by simp
  ultimately have "token = token_of H (pa_key auth) (cl_expires_at c) (cl_player_id c)"
    unfolding token_of_def raw [symmetric] using tag by metis
  moreover have "cl_expires_at c \<le> max_int64"
    using sint_lt [of "be64_value (take 8 (drop 1 (take (length raw - 32) raw)))"] by (simp add: c)
  ultimately show "token = token_of H (pa_key auth) (cl_expires_at c) (cl_player_id c) \<and> valid_id (cl_player_id c) \<and>
    0 < cl_expires_at c \<and> cl_expires_at c \<le> max_int64 \<and> now < cl_expires_at c" using id by blast
next
  assume "token = token_of H (pa_key auth) (cl_expires_at c) (cl_player_id c) \<and> valid_id (cl_player_id c) \<and>
    0 < cl_expires_at c \<and> cl_expires_at c \<le> max_int64 \<and> now < cl_expires_at c"
  then show "verify H (Some auth) token now = Inr c"
    using verify_token_of [where H = H, OF assms, of "cl_player_id c" "cl_expires_at c" auth now] by simp
qed

definition demo_hmac :: hmac_fun where
  "demo_hmac key m = take 32 (rev m @ replicate 32 0)"

lemma length_demo_hmac: "length (demo_hmac k m) = 32"
  by (simp add: demo_hmac_def)

theorem verify_accepts_iff_witness:
  "verify demo_hmac (Some \<lparr>pa_key = replicate 32 7, pa_token_ttl = minute\<rparr>)
     (token_of demo_hmac (replicate 32 7) (5 * minute) ''alice'') minute =
   Inr \<lparr>cl_player_id = ''alice'', cl_expires_at = 5 * minute\<rparr>"
proof -
  have "valid_id ''alice''" by code_simp
  then show ?thesis
    using verify_accepts_iff [where H = demo_hmac, OF length_demo_hmac, of "\<lparr>pa_key = replicate 32 7, pa_token_ttl = minute\<rparr>"
        "token_of demo_hmac (replicate 32 7) (5 * minute) ''alice''" minute "\<lparr>cl_player_id = ''alice'', cl_expires_at = 5 * minute\<rparr>"]
    by simp
qed

text \<open>C21: tokens round-trip: what \<open>Issue\<close> returns for a player is accepted by \<open>Verify\<close> of the same authority at
  every moment before the expiry it reports, with exactly the claims it reported, and from the expiry on it is
  rejected as expired. \<open>Issue\<close> fails exactly for an invalid player identifier or an expiry that does not
  fit 64 bits of nanoseconds.\<close>

theorem token_round_trip:
  assumes "\<And>k m. length (H k m) = 32" and "0 < pa_token_ttl auth" and "0 \<le> now"
  shows "(\<forall>e. issue H (Some auth) p now = Inl e \<longleftrightarrow>
      e = AuthInvalid \<and> (\<not> valid_id p \<or> now + pa_token_ttl auth > max_int64)) \<and>
    (\<forall>token c. issue H (Some auth) p now = Inr (token, c) \<longrightarrow>
      c = \<lparr>cl_player_id = p, cl_expires_at = now + pa_token_ttl auth\<rparr> \<and>
      (\<forall>later. verify H (Some auth) token later =
         (if later < now + pa_token_ttl auth then Inr c else Inl AuthExpired)))"
proof -
  let ?e = "now + pa_token_ttl auth"
  have fits: "i64 ?e = ?e \<longleftrightarrow> ?e \<le> max_int64"
    using assms(2,3) i64_in_range [of ?e] i64_id [of ?e] by (auto simp: in_i64_def)
  have issue: "issue H (Some auth) p now = (if \<not> valid_id p \<or> ?e > max_int64 then Inl AuthInvalid
      else Inr (token_of H (pa_key auth) ?e p, \<lparr>cl_player_id = p, cl_expires_at = ?e\<rparr>))"
    using fits assms(2,3) by (auto simp: issue_def Let_def token_of_def not_le)
  show ?thesis
    using assms(2,3) by (auto simp: issue verify_token_of [where H = H, OF assms(1)])
qed

theorem token_round_trip_witness:
  "\<exists>token c. issue demo_hmac (Some \<lparr>pa_key = replicate 32 7, pa_token_ttl = minute\<rparr>) ''alice'' 5 = Inr (token, c) \<and>
    verify demo_hmac (Some \<lparr>pa_key = replicate 32 7, pa_token_ttl = minute\<rparr>) token 6 = Inr c"
proof -
  let ?a = "\<lparr>pa_key = replicate 32 7, pa_token_ttl = minute\<rparr>"
  have "valid_id ''alice''" by code_simp
  then obtain x where x: "issue demo_hmac (Some ?a) ''alice'' 5 = Inr x"
    using token_round_trip [where H = demo_hmac, OF length_demo_hmac, of ?a 5 "''alice''"]
    by (cases "issue demo_hmac (Some ?a) ''alice'' 5") auto
  then show ?thesis
    using token_round_trip [where H = demo_hmac, OF length_demo_hmac, of ?a 5 "''alice''"]
    by (cases x) auto
qed

end
