(* ===== verification/Control_Http.thy ===== *)
theory Control_Http
  imports Http Player_Auth
begin

text \<open>
  \<open>internal/control/http.go\<close>: the management API. A request passes the route check, the operator's bearer
  token, the identifier and method checks, the rate limiter and the semaphore, and only then reaches the
  handler of its method, which makes at most one call of the store.

  The state is the handler record; the store is shared with the other parts of the server and is passed and
  returned beside it. \<open>control_admit\<close> is \<open>ServeHTTP\<close> up to the semaphore, \<open>control_dispatch\<close> the rest and
  \<open>control_release\<close> its deferred release. The three clocks a request reads (limiter, store, token issuer)
  are the fields of \<open>serving_clock\<close>. A panic is \<^const>\<open>None\<close>.
\<close>

section \<open>Configuration\<close>

definition HardManagementRequestRate :: go_float where "HardManagementRequestRate = Fin 20"
definition HardManagementRequestBurst :: int where "HardManagementRequestBurst = 40"
definition HardManagementConcurrent :: int where "HardManagementConcurrent = 32"

record control_config =
  cc_operator_token :: bytes32
  cc_player_tokens :: "player_auth option"
  cc_advertised_host :: string
  cc_advertised_port :: u16
  cc_request_rate :: go_float
  cc_request_burst :: int
  cc_max_concurrent :: int
  cc_fatal :: bool

text \<open>The semaphore is the number of its slots in use and its capacity.\<close>

record 'l control_handler =
  ch_operator_token :: bytes32
  ch_advertised_host :: string
  ch_advertised_port :: u16
  ch_player_tokens :: player_auth
  ch_limiter :: 'l
  ch_semaphore :: int
  ch_max_concurrent :: int
  ch_fatal :: bool

text \<open>\<open>NewHandler\<close>; \<open>has_store\<close> says that the store is not nil.\<close>

definition control_new :: "'l limiter_api \<Rightarrow> control_config \<Rightarrow> bool \<Rightarrow> 'l control_handler option" where
  "control_new A config has_store = (case cc_player_tokens config of
     None \<Rightarrow> None
   | Some tokens \<Rightarrow>
       if \<not> has_store \<or> cc_operator_token config = replicate 32 0 \<or> cc_advertised_host config = [] \<or>
          cc_advertised_port config = 0 \<or>
          \<not> (fl_lt (Fin 0) (cc_request_rate config) \<and> fl_le (cc_request_rate config) HardManagementRequestRate) \<or>
          cc_request_burst config \<le> 0 \<or> cc_request_burst config > HardManagementRequestBurst \<or>
          cc_max_concurrent config \<le> 0 \<or> cc_max_concurrent config > HardManagementConcurrent
       then None
       else Some \<lparr>ch_operator_token = cc_operator_token config, ch_advertised_host = cc_advertised_host config,
         ch_advertised_port = cc_advertised_port config, ch_player_tokens = tokens,
         ch_limiter = new_limiter A (cc_request_rate config) (cc_request_burst config),
         ch_semaphore = 0, ch_max_concurrent = cc_max_concurrent config, ch_fatal = cc_fatal config\<rparr>)"

section \<open>Authorisation and routing\<close>

definition cut_prefix :: "string \<Rightarrow> string \<Rightarrow> string option" where
  "cut_prefix p s = (if take (length p) s = p then Some (drop (length p) s) else None)"

lemma cut_prefix_Some: "cut_prefix p s = Some t \<longleftrightarrow> s = p @ t"
  by (auto simp: cut_prefix_def) (metis append_take_drop_id)

text \<open>\<open>ParseOperatorToken\<close>\<close>

definition parse_operator_token :: "string \<Rightarrow> bytes32 option" where
  "parse_operator_token encoded =
     (if length encoded \<noteq> 43 then None
      else (case b64_decode_strict encoded of
          None \<Rightarrow> None
        | Some decoded \<Rightarrow>
            if length decoded \<noteq> 32 then None
            else if decoded = replicate 32 0 then None else Some decoded))"

definition authorized :: "http_request \<Rightarrow> bytes32 \<Rightarrow> bool" where
  "authorized rq expected =
     (let candidate = (case rq_authorization rq of
            [v] \<Rightarrow> Option.bind (cut_prefix ''Bearer '' v) parse_operator_token
          | _ \<Rightarrow> None)
      in candidate \<noteq> None \<and> (case candidate of None \<Rightarrow> replicate 32 0 | Some c \<Rightarrow> c) = expected)"

definition canonical_room_path :: "http_request \<Rightarrow> string \<times> bool" where
  "canonical_room_path rq =
     (if rq_escaped_path rq \<noteq> rq_path rq then ([], False)
      else (case cut_prefix ''/v1/rooms/'' (rq_path rq) of
          None \<Rightarrow> ([], False)
        | Some room_id \<Rightarrow> (room_id, room_id \<noteq> [] \<and> CHR ''/'' \<notin> set room_id)))"

definition token_route :: "http_request \<Rightarrow> bool" where
  "token_route rq \<longleftrightarrow> rq_escaped_path rq = rq_path rq \<and> rq_path rq = ''/v1/player-tokens''"

section \<open>Responses\<close>

fun grant_state_string :: "grant_state \<Rightarrow> string" where
  "grant_state_string GrantStateIssued = ''issued''"
| "grant_state_string GrantStateBound = ''bound''"
| "grant_state_string GrantStateExpired = ''expired''"
| "grant_state_string GrantStateRevoked = ''revoked''"

fun binding_state_string :: "binding_state \<Rightarrow> string" where
  "binding_state_string BindingStateUnset = ''''"
| "binding_state_string BindingStateUnbound = ''unbound''"
| "binding_state_string BindingStateBound = ''bound''"
| "binding_state_string BindingStateRebindPending = ''rebind_pending''"
| "binding_state_string BindingStateExpired = ''expired''"
| "binding_state_string BindingStateRevoked = ''revoked''"

definition relay_endpoint_json :: "string \<Rightarrow> u16 \<Rightarrow> json" where
  "relay_endpoint_json host port = JObject [(''host'', json_string host), (''port'', json_uint (unat port))]"

definition common_response :: "go_lib \<Rightarrow> string \<Rightarrow> time \<Rightarrow> time \<Rightarrow> u32 \<Rightarrow> string \<Rightarrow> u16 \<Rightarrow> (string \<times> json) list" where
  "common_response G room_id created_at expires_at capacity host port =
     [(''room_id'', json_string room_id), (''state'', json_string ''open''),
      (''created_at'', json_string (gl_format_time G created_at)),
      (''expires_at'', json_string (gl_format_time G expires_at)),
      (''capacity'', json_uint (unat capacity)), (''relay_endpoint'', relay_endpoint_json host port),
      (''protocol_revision'', json_uint (unat Revision)), (''max_datagram_bytes'', json_uint MaxDatagramBytes),
      (''max_payload_bytes'', json_uint MaxPayloadBytes)]"

definition grant_response :: "go_lib \<Rightarrow> grant_allocation \<Rightarrow> json" where
  "grant_response G grant = JObject
     ([(''participant_id'', json_string (ga_participant_id grant)), (''session_id'', json_string (ga_session_id grant)),
       (''grant_id'', json_string (b64_encode (ga_grant_id grant)))] @
      (case ga_grant_secret grant of None \<Rightarrow> [] | Some secret \<Rightarrow> [(''grant_secret'', json_string (b64_encode secret))]) @
      [(''grant_expires_at'', json_string (gl_format_time G (ga_grant_expires_at grant))),
       (''state'', json_string (grant_state_string (ga_state grant)))])"

definition allocation_response :: "go_lib \<Rightarrow> allocation \<Rightarrow> string \<Rightarrow> u16 \<Rightarrow> json" where
  "allocation_response G al host port = JObject
     (common_response G (al_room_id al) (al_created_at al) (al_expires_at al) (al_capacity al) host port @
      [(''grants'', JArray (map (grant_response G) (al_grants al)))])"

definition participant_response :: "go_lib \<Rightarrow> participant_snapshot \<Rightarrow> json" where
  "participant_response G p = JObject
     [(''participant_id'', json_string (ps_participant_id p)), (''session_id'', json_string (ps_session_id p)),
      (''grant_state'', json_string (grant_state_string (ps_grant_state p))),
      (''grant_expires_at'', json_string (gl_format_time G (ps_grant_expires_at p))),
      (''binding_state'', json_string (binding_state_string (ps_binding_state p)))]"

definition snapshot_response :: "go_lib \<Rightarrow> room_snapshot \<Rightarrow> string \<Rightarrow> u16 \<Rightarrow> json" where
  "snapshot_response G snapshot host port = JObject
     (common_response G (rs_room_id snapshot) (rs_created_at snapshot) (rs_expires_at snapshot) (rs_capacity snapshot) host port @
      [(''participants'', JArray (map (participant_response G) (rs_participants snapshot)))])"

fun write_store_error :: "store_error \<Rightarrow> http_writer \<Rightarrow> http_writer" where
  "write_store_error ErrInvalid w = write_error 400 ''invalid_request'' ''request is invalid'' w"
| "write_store_error ErrNotFound w = write_error 404 ''not_found'' ''room not found'' w"
| "write_store_error ErrConflict w =
     write_error 409 ''conflict'' ''room_id already exists with a different immutable definition'' w"
| "write_store_error ErrCapacity w = write_error 422 ''capacity_exceeded'' ''capacity limit exceeded'' w"
| "write_store_error _ w = write_error 500 ''internal_error'' ''internal server error'' w"

section \<open>The body of PUT\<close>

definition canonical_utc_time :: "go_lib \<Rightarrow> string \<Rightarrow> time option" where
  "canonical_utc_time G value =
     (if value = [] \<or> last value \<noteq> CHR ''Z'' then None
      else (case gl_parse_time G value of
          None \<Rightarrow> None
        | Some parsed \<Rightarrow> if gl_format_time G parsed = value then Some parsed else None))"

record participant_request =
  pq_participant_id :: string
  pq_session_id :: string
  pq_grant_expires_at :: string

record create_room_request =
  cq_capacity :: u32
  cq_expires_at :: string
  cq_participants :: "participant_request list"

definition decode_participant :: "json \<Rightarrow> participant_request option" where
  "decode_participant j =
     (case decode_field ''participant_id'' decode_string j of None \<Rightarrow> None | Some p \<Rightarrow>
       (case decode_field ''session_id'' decode_string j of None \<Rightarrow> None | Some s \<Rightarrow>
         (case decode_field ''grant_expires_at'' decode_string j of None \<Rightarrow> None | Some e \<Rightarrow>
           Some \<lparr>pq_participant_id = p, pq_session_id = s, pq_grant_expires_at = e\<rparr>)))"

definition decode_create_room :: "json \<Rightarrow> create_room_request option" where
  "decode_create_room j =
     (case decode_field ''capacity'' decode_u32 j of None \<Rightarrow> None | Some c \<Rightarrow>
       (case decode_field ''expires_at'' decode_string j of None \<Rightarrow> None | Some e \<Rightarrow>
         (case decode_field ''participants'' (decode_slice decode_participant) j of None \<Rightarrow> None | Some ps \<Rightarrow>
           Some \<lparr>cq_capacity = c, cq_expires_at = e, cq_participants = ps\<rparr>)))"

definition has_exact_room_request_fields :: "byte list \<Rightarrow> bool" where
  "has_exact_room_request_fields body = (case Option.bind (unmarshal body) raw_object of
     None \<Rightarrow> False
   | Some request \<Rightarrow>
       if \<not> has_exact_keys request [''capacity'', ''expires_at'', ''participants''] then False
       else (case decode_slice raw_object (the (fmlookup request ''participants'')) of
           None \<Rightarrow> False
         | Some participants \<Rightarrow> list_all (\<lambda>p. has_exact_keys p [''participant_id'', ''session_id'', ''grant_expires_at'']) participants))"

text \<open>The loop over the participants of the request.\<close>

fun define_participants :: "go_lib \<Rightarrow> participant_request list \<Rightarrow> participant_definition list option" where
  "define_participants G [] = Some []"
| "define_participants G (p # ps) = (case canonical_utc_time G (pq_grant_expires_at p) of
     None \<Rightarrow> None
   | Some expires \<Rightarrow> map_option (Cons \<lparr>pd_participant_id = pq_participant_id p, pd_session_id = pq_session_id p,
         pd_grant_expires_at = expires\<rparr>) (define_participants G ps))"

definition decode_room_definition :: "go_lib \<Rightarrow> byte list \<Rightarrow> room_definition option" where
  "decode_room_definition G body =
     (if \<not> has_unique_json_fields body \<or> \<not> has_exact_room_request_fields body then None
      else (case decode_document (lex body) of
          None \<Rightarrow> None
        | Some (j, rest) \<Rightarrow> (case decode_create_room j of
            None \<Rightarrow> None
          | Some request \<Rightarrow>
              if rest \<noteq> [] then None
              else (case canonical_utc_time G (cq_expires_at request) of
                  None \<Rightarrow> None
                | Some expires_at \<Rightarrow> map_option (\<lambda>ps. \<lparr>rd_capacity = cq_capacity request, rd_expires_at = expires_at,
                    rd_participants = ps\<rparr>) (define_participants G (cq_participants request))))))"

section \<open>Handlers\<close>

text \<open>\<open>postPlayerToken\<close>\<close>

definition decode_token_request :: "json \<Rightarrow> string option" where
  "decode_token_request = decode_field ''player_id'' decode_string"

definition post_player_token ::
    "go_lib \<Rightarrow> hmac_fun \<Rightarrow> time \<Rightarrow> http_request \<Rightarrow> 'l control_handler \<Rightarrow> http_writer \<Rightarrow> http_writer option" where
  "post_player_token G H now rq h w = (case decode_exact_json G decode_token_request [''player_id''] rq w of
     None \<Rightarrow> None
   | Some (Inl refused) \<Rightarrow> Some refused
   | Some (Inr player_id) \<Rightarrow>
       if \<not> valid_id player_id then Some (invalid_request w)
       else (case issue H (Some (ch_player_tokens h)) player_id now of
           Inl err \<Rightarrow> Some (call_fatal (err = AuthFatalRandom \<and> ch_fatal h)
             (write_error 500 ''internal_error'' ''internal server error'' w))
         | Inr (token, claims) \<Rightarrow> Some (write_json 201 (JObject [(''player_id'', json_string player_id),
             (''token'', json_string token), (''expires_at'', json_string (gl_format_time G (cl_expires_at claims)))]) w)))"

text \<open>\<open>putRoom\<close>, \<open>getRoom\<close> and \<open>deleteRoom\<close>\<close>

definition put_room ::
    "go_lib \<Rightarrow> 'l limiter_api \<Rightarrow> string \<Rightarrow> clock_reading \<Rightarrow> http_request \<Rightarrow> 'l control_handler \<Rightarrow> 'l store \<Rightarrow> http_writer \<Rightarrow>
     ('l store \<times> http_writer) option" where
  "put_room G A room_id reading rq h st w =
     (if gl_parse_media_type G (rq_content_type rq) \<noteq> Some ''application/json''
      then Some (st, write_error 415 ''unsupported_media_type'' ''Content-Type must be application/json'' w)
      else (case rq_body rq of
          None \<Rightarrow> None
        | Some source \<Rightarrow> (case read_limited maxRequestBodyBytes source of
            Inl Body_Too_Large \<Rightarrow> Some (st, write_error 413 ''body_too_large'' ''request body exceeds 65536 bytes'' w)
          | Inl Body_Failed \<Rightarrow> Some (st, invalid_request w)
          | Inr body \<Rightarrow> (case decode_room_definition G body of
              None \<Rightarrow> Some (st, invalid_request w)
            | Some d \<Rightarrow> (case create_room A room_id d reading st of
                (st', Inl err) \<Rightarrow> Some (st', call_fatal (err = ErrFatalRandom \<and> ch_fatal h) (write_store_error err w))
              | (st', Inr (al, created)) \<Rightarrow> Some (st', write_json (if created then 201 else 200)
                  (allocation_response G al (ch_advertised_host h) (ch_advertised_port h)) w))))))"

definition get_room_handler :: "go_lib \<Rightarrow> string \<Rightarrow> clock_reading \<Rightarrow> 'l control_handler \<Rightarrow> 'l store \<Rightarrow> http_writer \<Rightarrow> http_writer" where
  "get_room_handler G room_id reading h st w = (case get_room room_id reading st of
     Inl err \<Rightarrow> write_store_error err w
   | Inr snapshot \<Rightarrow> write_json 200 (snapshot_response G snapshot (ch_advertised_host h) (ch_advertised_port h)) w)"

definition delete_room :: "string \<Rightarrow> clock_reading \<Rightarrow> 'l store \<Rightarrow> http_writer \<Rightarrow> 'l store \<times> http_writer" where
  "delete_room room_id reading st w = (case end_room room_id reading st of
     (st', Some err) \<Rightarrow> (st', write_store_error err w)
   | (st', None) \<Rightarrow> (st', w\<lparr>hw_status := 204\<rparr>))"

section \<open>ServeHTTP\<close>

record serving_clock =
  sc_limiter :: int
  sc_store :: clock_reading
  sc_auth :: time

definition rate_limited :: "http_writer \<Rightarrow> http_writer" where
  "rate_limited w = write_error 429 ''rate_limited'' ''request rate or concurrency limit exceeded'' w"

text \<open>Up to the semaphore: \<^const>\<open>Inl\<close> is a response, \<^const>\<open>Inr\<close> the admitted request's writer.\<close>

definition control_admit ::
    "'l limiter_api \<Rightarrow> int \<Rightarrow> http_request \<Rightarrow> 'l control_handler \<Rightarrow> 'l control_handler \<times> (http_writer + http_writer)" where
  "control_admit A now rq h =
     (let w = set_header ''Cache-Control'' ''no-store'' new_writer;
          (room_id, room_route) = canonical_room_path rq
      in if \<not> room_route \<and> \<not> token_route rq then (h, Inl (write_error 404 ''not_found'' ''room not found'' w))
      else if \<not> authorized rq (ch_operator_token h)
      then (h, Inl (write_error 401 ''unauthorized'' ''valid bearer token required'' (set_header ''WWW-Authenticate'' ''Bearer'' w)))
      else if room_route \<and> \<not> valid_id room_id then (h, Inl (invalid_request w))
      else if token_route rq \<and> rq_method rq \<noteq> ''POST''
      then (h, Inl (write_error 405 ''method_not_allowed'' ''method not allowed'' (set_header ''Allow'' ''POST'' w)))
      else if room_route \<and> rq_method rq \<noteq> ''PUT'' \<and> rq_method rq \<noteq> ''GET'' \<and> rq_method rq \<noteq> ''DELETE''
      then (h, Inl (write_error 405 ''method_not_allowed'' ''method not allowed'' (set_header ''Allow'' ''PUT, GET, DELETE'' w)))
      else (case allow_n A (ch_limiter h) now 1 of (limiter, granted) \<Rightarrow>
        (let h1 = h\<lparr>ch_limiter := limiter\<rparr> in
         if \<not> granted then (h1, Inl (rate_limited w))
         else if ch_semaphore h1 < ch_max_concurrent h1
         then (h1\<lparr>ch_semaphore := ch_semaphore h1 + 1\<rparr>, Inr w)
         else (h1, Inl (rate_limited w)))))"

definition control_release :: "'l control_handler \<Rightarrow> 'l control_handler" where
  "control_release h = h\<lparr>ch_semaphore := ch_semaphore h - 1\<rparr>"

definition control_dispatch ::
    "go_lib \<Rightarrow> 'l limiter_api \<Rightarrow> hmac_fun \<Rightarrow> serving_clock \<Rightarrow> http_request \<Rightarrow> 'l control_handler \<Rightarrow> 'l store \<Rightarrow> http_writer \<Rightarrow>
     ('l store \<times> http_writer) option" where
  "control_dispatch G A H clk rq h st w =
     (let room_id = fst (canonical_room_path rq) in
      if token_route rq then map_option (Pair st) (post_player_token G H (sc_auth clk) rq h w)
      else if rq_method rq = ''PUT'' then put_room G A room_id (sc_store clk) rq h st w
      else if rq_method rq = ''GET''
      then (if request_has_body rq then Some (st, invalid_request w)
            else Some (st, get_room_handler G room_id (sc_store clk) h st w))
      else if rq_method rq = ''DELETE''
      then (if request_has_body rq then Some (st, invalid_request w)
            else Some (delete_room room_id (sc_store clk) st w))
      else Some (st, w))"

definition control_serve ::
    "go_lib \<Rightarrow> 'l limiter_api \<Rightarrow> hmac_fun \<Rightarrow> serving_clock \<Rightarrow> http_request \<Rightarrow> 'l control_handler \<Rightarrow> 'l store \<Rightarrow>
     ('l control_handler \<times> 'l store \<times> http_writer) option" where
  "control_serve G A H clk rq h st = (case control_admit A (sc_limiter clk) rq h of
     (h1, Inl refused) \<Rightarrow> Some (h1, st, refused)
   | (h1, Inr w) \<Rightarrow> (case control_dispatch G A H clk rq h1 st w of
       None \<Rightarrow> None
     | Some (st', w') \<Rightarrow> Some (control_release h1, st', w')))"

end
