(* ===== verification/Player_Http.thy ===== *)
theory Player_Http
  imports Control_Http Lobby_Machine
begin

text \<open>
  \<open>internal/playerapi/http.go\<close>: the API of the players. Every request is authorised with a player token first,
  then counted by the rate limiter and the semaphore, and only then routed; each route makes at most one call of
  the lobby manager, for the player of the token.

  The manager is shared with the sweeper of the server and is passed and returned beside the handler's state.
  \<open>player_clock\<close> holds what a request reads of the outside: the clocks of the limiter, of the token check and
  of the manager, and the orders in which the manager iterates over its maps. A panic is \<^const>\<open>None\<close>.
\<close>

section \<open>Configuration\<close>

definition HardPlayerRequestRate :: go_float where "HardPlayerRequestRate = Fin 100"
definition HardPlayerRequestBurst :: int where "HardPlayerRequestBurst = 200"
definition HardPlayerConcurrent :: int where "HardPlayerConcurrent = 64"

record player_config =
  pc_auth :: "player_auth option"
  pc_advertised_host :: string
  pc_advertised_port :: u16
  pc_request_rate :: go_float
  pc_request_burst :: int
  pc_max_concurrent :: int
  pc_fatal :: bool

record 'l player_handler =
  ph_auth :: player_auth
  ph_advertised_host :: string
  ph_advertised_port :: u16
  ph_limiter :: 'l
  ph_semaphore :: int
  ph_max_concurrent :: int
  ph_fatal :: bool

text \<open>\<open>NewHandler\<close>; \<open>has_lobbies\<close> says that the manager is not nil.\<close>

definition player_new :: "'l limiter_api \<Rightarrow> player_config \<Rightarrow> bool \<Rightarrow> 'l player_handler option" where
  "player_new A config has_lobbies = (case pc_auth config of
     None \<Rightarrow> None
   | Some auth \<Rightarrow>
       if \<not> has_lobbies \<or> pc_advertised_host config = [] \<or> pc_advertised_port config = 0 \<or>
          fl_le (pc_request_rate config) (Fin 0) \<or> fl_lt HardPlayerRequestRate (pc_request_rate config) \<or>
          pc_request_burst config \<le> 0 \<or> pc_request_burst config > HardPlayerRequestBurst \<or>
          pc_max_concurrent config \<le> 0 \<or> pc_max_concurrent config > HardPlayerConcurrent
       then None
       else Some \<lparr>ph_auth = auth, ph_advertised_host = pc_advertised_host config,
         ph_advertised_port = pc_advertised_port config,
         ph_limiter = new_limiter A (pc_request_rate config) (pc_request_burst config),
         ph_semaphore = 0, ph_max_concurrent = pc_max_concurrent config, ph_fatal = pc_fatal config\<rparr>)"

section \<open>Responses\<close>

fun visibility_string :: "visibility \<Rightarrow> string" where
  "visibility_string VisibilityPublic = ''public''"
| "visibility_string VisibilityPrivate = ''private''"

fun lobby_state_string :: "lobby_state \<Rightarrow> string" where
  "lobby_state_string LobbyStateOpen = ''open''"
| "lobby_state_string LobbyStateMatched = ''matched''"
| "lobby_state_string LobbyStateClosed = ''closed''"

fun ticket_state_string :: "ticket_state \<Rightarrow> string" where
  "ticket_state_string TicketStateQueued = ''queued''"
| "ticket_state_string TicketStateMatched = ''matched''"
| "ticket_state_string TicketStateCancelled = ''cancelled''"
| "ticket_state_string TicketStateExpired = ''expired''"

definition encode_assignment :: "go_lib \<Rightarrow> assignment \<Rightarrow> string \<Rightarrow> u16 \<Rightarrow> json" where
  "encode_assignment G a host port = JObject
     [(''match_id'', json_string (as_match_id a)), (''room_id'', json_string (as_room_id a)),
      (''player_id'', json_string (as_player_id a)), (''session_id'', json_string (as_session_id a)),
      (''grant_id'', json_string (b64_encode (as_grant_id a))),
      (''grant_secret'', json_string (b64_encode (as_grant_secret a))),
      (''grant_expires_at'', json_string (gl_format_time G (as_grant_expires_at a))),
      (''relay_endpoint'', relay_endpoint_json host port)]"

definition assignment_member :: "go_lib \<Rightarrow> assignment option \<Rightarrow> string \<Rightarrow> u16 \<Rightarrow> (string \<times> json) list" where
  "assignment_member G a host port = (case a of
     None \<Rightarrow> []
   | Some a \<Rightarrow> [(''assignment'', encode_assignment G a host port)])"

definition encode_lobby :: "go_lib \<Rightarrow> lobby_snapshot \<Rightarrow> string \<Rightarrow> u16 \<Rightarrow> json" where
  "encode_lobby G s host port = JObject
     ([(''lobby_id'', json_string (lsn_lobby_id s)), (''owner_player_id'', json_string (lsn_owner_player_id s)),
       (''queue_key'', json_string (lsn_queue_key s)), (''visibility'', json_string (visibility_string (lsn_visibility s))),
       (''capacity'', json_uint (unat (lsn_capacity s))), (''revision'', json_uint (unat (lsn_revision s))),
       (''state'', json_string (lobby_state_string (lsn_state s))),
       (''members'', JArray (map (\<lambda>member. JObject [(''player_id'', json_string (ms_player_id member)),
          (''ready'', json_bool (ms_ready member))]) (lsn_members s))),
       (''expires_at'', json_string (gl_format_time G (lsn_expires_at s)))] @
      assignment_member G (lsn_assignment s) host port)"

definition encode_ticket :: "go_lib \<Rightarrow> ticket_snapshot \<Rightarrow> string \<Rightarrow> u16 \<Rightarrow> json" where
  "encode_ticket G t host port = JObject
     ([(''ticket_id'', json_string (ts_ticket_id t)), (''player_id'', json_string (ts_player_id t)),
       (''queue_key'', json_string (ts_queue_key t)), (''state'', json_string (ticket_state_string (ts_state t))),
       (''capacity'', json_uint (unat (ts_capacity t))), (''revision'', json_uint (unat (ts_revision t))),
       (''expires_at'', json_string (gl_format_time G (ts_expires_at t)))] @
      assignment_member G (ts_assignment t) host port)"

definition encode_summary :: "go_lib \<Rightarrow> lobby_summary \<Rightarrow> json" where
  "encode_summary G item = JObject
     [(''lobby_id'', json_string (lsum_lobby_id item)), (''owner_player_id'', json_string (lsum_owner_player_id item)),
      (''queue_key'', json_string (lsum_queue_key item)),
      (''visibility'', json_string (visibility_string (lsum_visibility item))),
      (''capacity'', json_uint (unat (lsum_capacity item))), (''member_count'', json_uint (unat (lsum_member_count item))),
      (''revision'', json_uint (unat (lsum_revision item))), (''expires_at'', json_string (gl_format_time G (lsum_expires_at item)))]"

definition page_response :: "go_lib \<Rightarrow> lobby_page \<Rightarrow> json" where
  "page_response G page = JObject
     [(''lobbies'', JArray (map (encode_summary G) (lp_lobbies page))), (''next_cursor'', json_string (lp_next_cursor page))]"

datatype route_result = Lobby_Result lobby_snapshot | Assignment_Result assignment

fun player_response :: "go_lib \<Rightarrow> 'l player_handler \<Rightarrow> route_result \<Rightarrow> json" where
  "player_response G h (Lobby_Result s) = encode_lobby G s (ph_advertised_host h) (ph_advertised_port h)"
| "player_response G h (Assignment_Result a) = encode_assignment G a (ph_advertised_host h) (ph_advertised_port h)"

text \<open>\<open>writeResult\<close>: the status of a success is the caller's.\<close>

fun write_result :: "'l player_handler \<Rightarrow> nat \<Rightarrow> lobby_error + json \<Rightarrow> http_writer \<Rightarrow> http_writer" where
  "write_result h status (Inr v) w = write_json status v w"
| "write_result h status (Inl err) w = (case err of
     LobbyInvalid \<Rightarrow> invalid_request w
   | LobbyNotFound \<Rightarrow> write_error 404 ''not_found'' ''resource not found'' w
   | LobbyConflict \<Rightarrow> write_error 409 ''conflict'' ''state or revision conflict'' w
   | LobbyForbidden \<Rightarrow> write_error 403 ''forbidden'' ''operation is not allowed'' w
   | LobbyCapacity \<Rightarrow> write_error 409 ''capacity'' ''capacity limit exceeded'' w
   | LobbyUnavailable \<Rightarrow> write_error 503 ''unavailable'' ''service temporarily unavailable'' w
   | LobbyFatalRandom \<Rightarrow> call_fatal (ph_fatal h) (write_error 500 ''internal_error'' ''internal server error'' w))"

definition method_not_allowed :: "string \<Rightarrow> http_writer \<Rightarrow> http_writer" where
  "method_not_allowed allow w = write_error 405 ''method_not_allowed'' ''method not allowed'' (set_header ''Allow'' allow w)"

definition resource_not_found :: "http_writer \<Rightarrow> http_writer" where
  "resource_not_found w = write_error 404 ''not_found'' ''resource not found'' w"

section \<open>Queries\<close>

text \<open>\<open>exactQuery\<close>, \<open>noQuery\<close> and \<open>strconv.Atoi\<close>\<close>

definition exact_query :: "(string, string list) fmap \<Rightarrow> string list \<Rightarrow> bool" where
  "exact_query query allowed \<longleftrightarrow> fmpred (\<lambda>key values. key \<in> set allowed \<and> length values = 1) query"

definition no_query :: "(string, string list) fmap \<Rightarrow> bool" where
  "no_query query \<longleftrightarrow> len_map query = 0"

definition atoi :: "string \<Rightarrow> int option" where
  "atoi s =
     (let (negative, digits) = (case s of
            c # cs \<Rightarrow> if c = CHR ''-'' then (True, cs) else if c = CHR ''+'' then (False, cs) else (False, s)
          | [] \<Rightarrow> (False, []))
      in if digits = [] then None
      else (case parse_digits 0 digits of
          None \<Rightarrow> None
        | Some n \<Rightarrow> if negative then (if int n \<le> 9223372036854775808 then Some (- int n) else None)
            else (if int n \<le> max_int64 then Some (int n) else None)))"

section \<open>Routes\<close>

record player_clock =
  pk_limiter :: int
  pk_auth :: time
  pk_manager :: clock_reading
  pk_sweep :: sweep_order
  pk_list :: "string list"

type_synonym 'l routed = "('l manager \<times> http_writer) option"

text \<open>\<open>decodeExact\<close> repeats \<open>decodeExactJSON\<close> of \<open>control\<close> line by line.\<close>

definition decode_exact ::
    "go_lib \<Rightarrow> (json \<Rightarrow> 'a option) \<Rightarrow> string list \<Rightarrow> http_request \<Rightarrow> http_writer \<Rightarrow> (http_writer + 'a) option" where
  "decode_exact G target keys rq w = decode_exact_json G target keys rq w"

definition visibility_of :: "string \<Rightarrow> visibility option" where
  "visibility_of s = (if s = ''public'' then Some VisibilityPublic else if s = ''private'' then Some VisibilityPrivate else None)"

definition decode_create_lobby :: "json \<Rightarrow> create_request option" where
  "decode_create_lobby j =
     (case decode_field ''visibility'' decode_string j of None \<Rightarrow> None | Some v \<Rightarrow>
       (case decode_field ''queue_key'' decode_string j of None \<Rightarrow> None | Some k \<Rightarrow>
         (case decode_field ''capacity'' decode_u32 j of None \<Rightarrow> None | Some c \<Rightarrow>
           Some \<lparr>lq_visibility = visibility_of v, lq_queue_key = k, lq_capacity = c\<rparr>)))"

definition lobbies_post ::
    "go_lib \<Rightarrow> player_clock \<Rightarrow> http_request \<Rightarrow> string \<Rightarrow> 'l player_handler \<Rightarrow> 'l manager \<Rightarrow> http_writer \<Rightarrow> 'l routed" where
  "lobbies_post G clk rq player_id h m w =
     (if \<not> no_query (rq_query rq) then Some (m, invalid_request w)
      else (case decode_exact G decode_create_lobby [''visibility'', ''queue_key'', ''capacity''] rq w of
          None \<Rightarrow> None
        | Some (Inl refused) \<Rightarrow> Some (m, refused)
        | Some (Inr body) \<Rightarrow> (case lobby_create player_id body (pk_manager clk) (pk_sweep clk) m of
            (m', result) \<Rightarrow> Some (m', write_result h 201
               (map_sum id (\<lambda>s. encode_lobby G s (ph_advertised_host h) (ph_advertised_port h)) result) w))))"

text \<open>The optional parameters of the listing: at most one value each.\<close>

definition query_limit :: "(string, string list) fmap \<Rightarrow> int option" where
  "query_limit query = (case fmlookup query ''limit'' of
     None \<Rightarrow> Some 20
   | Some values \<Rightarrow> (case values of [v] \<Rightarrow> atoi v | _ \<Rightarrow> None))"

definition query_cursor :: "(string, string list) fmap \<Rightarrow> string option" where
  "query_cursor query = (case fmlookup query ''cursor'' of
     None \<Rightarrow> Some []
   | Some values \<Rightarrow> (case values of [v] \<Rightarrow> Some v | _ \<Rightarrow> None))"

definition lobbies_get ::
    "go_lib \<Rightarrow> player_clock \<Rightarrow> http_request \<Rightarrow> 'l player_handler \<Rightarrow> 'l manager \<Rightarrow> http_writer \<Rightarrow> 'l routed" where
  "lobbies_get G clk rq h m w =
     (if request_has_body rq then Some (m, invalid_request w)
      else if \<not> exact_query (rq_query rq) [''queue_key'', ''cursor'', ''limit'']
      then Some (m, invalid_request w)
      else (case fmlookup (rq_query rq) ''queue_key'' of
          Some [queue_key] \<Rightarrow> (case query_limit (rq_query rq) of
              None \<Rightarrow> Some (m, invalid_request w)
            | Some limit \<Rightarrow> (case query_cursor (rq_query rq) of
                None \<Rightarrow> Some (m, invalid_request w)
              | Some cursor \<Rightarrow> (case lobby_list queue_key cursor limit (pk_manager clk) (pk_sweep clk) (pk_list clk) m of
                  (m', result) \<Rightarrow> Some (m', write_result h 200 (map_sum id (page_response G) result) w))))
        | _ \<Rightarrow> Some (m, invalid_request w)))"

definition lobbies_route ::
    "go_lib \<Rightarrow> player_clock \<Rightarrow> http_request \<Rightarrow> string \<Rightarrow> 'l player_handler \<Rightarrow> 'l manager \<Rightarrow> http_writer \<Rightarrow> 'l routed" where
  "lobbies_route G clk rq player_id h m w =
     (if rq_method rq = ''POST'' then lobbies_post G clk rq player_id h m w
      else if rq_method rq = ''GET'' then lobbies_get G clk rq h m w
      else Some (m, method_not_allowed ''POST, GET'' w))"

definition one_lobby_route ::
    "go_lib \<Rightarrow> player_clock \<Rightarrow> http_request \<Rightarrow> string \<Rightarrow> string \<Rightarrow> 'l player_handler \<Rightarrow> 'l manager \<Rightarrow> http_writer \<Rightarrow> 'l routed" where
  "one_lobby_route G clk rq player_id lobby_id h m w =
     (if rq_method rq \<noteq> ''GET'' then Some (m, method_not_allowed ''GET'' w)
      else if request_has_body rq \<or> \<not> no_query (rq_query rq) then Some (m, invalid_request w)
      else (case lobby_get player_id lobby_id (pk_manager clk) (pk_sweep clk) m of
          (m', result) \<Rightarrow> Some (m', write_result h 200
             (map_sum id (\<lambda>s. encode_lobby G s (ph_advertised_host h) (ph_advertised_port h)) result) w)))"

definition decode_revision :: "json \<Rightarrow> u64 option" where
  "decode_revision = decode_field ''revision'' decode_u64"

definition revision_route ::
    "go_lib \<Rightarrow> http_request \<Rightarrow> string \<Rightarrow> (u64 \<Rightarrow> 'l manager \<times> (lobby_error + route_result)) \<Rightarrow>
     'l player_handler \<Rightarrow> 'l manager \<Rightarrow> http_writer \<Rightarrow> 'l routed" where
  "revision_route G rq expected_method action h m w =
     (if rq_method rq \<noteq> expected_method then Some (m, method_not_allowed expected_method w)
      else if \<not> no_query (rq_query rq) then Some (m, invalid_request w)
      else (case decode_exact G decode_revision [''revision''] rq w of
          None \<Rightarrow> None
        | Some (Inl refused) \<Rightarrow> Some (m, refused)
        | Some (Inr revision) \<Rightarrow> (case action revision of
            (m', result) \<Rightarrow> Some (m', write_result h 200 (map_sum id (player_response G h) result) w))))"

definition decode_ready :: "json \<Rightarrow> (u64 \<times> bool) option" where
  "decode_ready j =
     (case decode_field ''revision'' decode_u64 j of None \<Rightarrow> None | Some r \<Rightarrow>
       (case decode_field ''ready'' decode_bool j of None \<Rightarrow> None | Some b \<Rightarrow> Some (r, b)))"

definition ready_route ::
    "go_lib \<Rightarrow> player_clock \<Rightarrow> http_request \<Rightarrow> string \<Rightarrow> string \<Rightarrow> 'l player_handler \<Rightarrow> 'l manager \<Rightarrow> http_writer \<Rightarrow> 'l routed" where
  "ready_route G clk rq player_id lobby_id h m w =
     (if rq_method rq \<noteq> ''PUT'' then Some (m, method_not_allowed ''PUT'' w)
      else if \<not> no_query (rq_query rq) then Some (m, invalid_request w)
      else (case decode_exact G decode_ready [''revision'', ''ready''] rq w of
          None \<Rightarrow> None
        | Some (Inl refused) \<Rightarrow> Some (m, refused)
        | Some (Inr (revision, ready)) \<Rightarrow>
            (case lobby_set_ready player_id lobby_id revision ready (pk_manager clk) (pk_sweep clk) m of
              (m', result) \<Rightarrow> Some (m', write_result h 200
                 (map_sum id (\<lambda>s. encode_lobby G s (ph_advertised_host h) (ph_advertised_port h)) result) w))))"

definition decode_enqueue :: "json \<Rightarrow> enqueue_request option" where
  "decode_enqueue j =
     (case decode_field ''queue_key'' decode_string j of None \<Rightarrow> None | Some k \<Rightarrow>
       (case decode_field ''capacity'' decode_u32 j of None \<Rightarrow> None | Some c \<Rightarrow> Some \<lparr>eq_queue_key = k, eq_capacity = c\<rparr>))"

definition tickets_route ::
    "go_lib \<Rightarrow> player_clock \<Rightarrow> http_request \<Rightarrow> string \<Rightarrow> 'l player_handler \<Rightarrow> 'l manager \<Rightarrow> http_writer \<Rightarrow> 'l routed" where
  "tickets_route G clk rq player_id h m w =
     (if rq_method rq \<noteq> ''POST'' then Some (m, method_not_allowed ''POST'' w)
      else if \<not> no_query (rq_query rq) then Some (m, invalid_request w)
      else (case decode_exact G decode_enqueue [''queue_key'', ''capacity''] rq w of
          None \<Rightarrow> None
        | Some (Inl refused) \<Rightarrow> Some (m, refused)
        | Some (Inr body) \<Rightarrow> (case enqueue player_id body (pk_manager clk) (pk_sweep clk) m of
            None \<Rightarrow> None
          | Some (m', result) \<Rightarrow> Some (m', write_result h 201
             (map_sum id (\<lambda>t. encode_ticket G t (ph_advertised_host h) (ph_advertised_port h)) result) w))))"

definition my_ticket_route ::
    "go_lib \<Rightarrow> player_clock \<Rightarrow> http_request \<Rightarrow> string \<Rightarrow> 'l player_handler \<Rightarrow> 'l manager \<Rightarrow> http_writer \<Rightarrow> 'l routed" where
  "my_ticket_route G clk rq player_id h m w =
     (if rq_method rq = ''GET''
      then (if request_has_body rq \<or> \<not> no_query (rq_query rq) then Some (m, invalid_request w)
            else (case get_ticket player_id (pk_manager clk) (pk_sweep clk) m of
              (m', result) \<Rightarrow> Some (m', write_result h 200
                 (map_sum id (\<lambda>t. encode_ticket G t (ph_advertised_host h) (ph_advertised_port h)) result) w)))
      else if rq_method rq = ''DELETE''
      then (if \<not> no_query (rq_query rq) then Some (m, invalid_request w)
            else (case decode_exact G decode_revision [''revision''] rq w of
                None \<Rightarrow> None
              | Some (Inl refused) \<Rightarrow> Some (m, refused)
              | Some (Inr revision) \<Rightarrow> (case cancel_ticket player_id revision (pk_manager clk) (pk_sweep clk) m of
                  (m', result) \<Rightarrow> Some (m', write_result h 200
                     (map_sum id (\<lambda>t. encode_ticket G t (ph_advertised_host h) (ph_advertised_port h)) result) w))))
      else Some (m, method_not_allowed ''GET, DELETE'' w))"

text \<open>\<open>strings.Split(s, "/")\<close>\<close>

fun split_slash :: "string \<Rightarrow> string list" where
  "split_slash [] = [[]]"
| "split_slash (c # cs) = (if c = CHR ''/'' then [] # split_slash cs
     else (case split_slash cs of [] \<Rightarrow> [[c]] | p # ps \<Rightarrow> (c # p) # ps))"

text \<open>The routes under \<open>/v1/lobbies/\<close>, by the parts of the rest of the path.\<close>

definition lobby_route ::
    "go_lib \<Rightarrow> player_clock \<Rightarrow> http_request \<Rightarrow> string \<Rightarrow> string list \<Rightarrow> 'l player_handler \<Rightarrow> 'l manager \<Rightarrow> http_writer \<Rightarrow> 'l routed" where
  "lobby_route G clk rq player_id parts h m w =
     (let lobby_id = hd parts; reading = pk_manager clk; ord = pk_sweep clk in
      if tl parts = [] then one_lobby_route G clk rq player_id lobby_id h m w
      else if tl parts = [''join'']
      then revision_route G rq ''POST'' (\<lambda>revision. map_prod id (map_sum id Lobby_Result)
             (lobby_join player_id lobby_id revision reading ord m)) h m w
      else if tl parts = [''start'']
      then revision_route G rq ''POST'' (\<lambda>revision. map_prod id (map_sum id Assignment_Result)
             (lobby_start player_id lobby_id revision reading ord m)) h m w
      else if tl parts = [''members'', ''me'']
      then revision_route G rq ''DELETE'' (\<lambda>revision. map_prod id (map_sum id Lobby_Result)
             (lobby_leave player_id lobby_id revision reading ord m)) h m w
      else if tl parts = [''members'', ''me'', ''ready''] then ready_route G clk rq player_id lobby_id h m w
      else Some (m, resource_not_found w))"

definition player_route ::
    "go_lib \<Rightarrow> player_clock \<Rightarrow> http_request \<Rightarrow> string \<Rightarrow> 'l player_handler \<Rightarrow> 'l manager \<Rightarrow> http_writer \<Rightarrow> 'l routed" where
  "player_route G clk rq player_id h m w =
     (if rq_escaped_path rq \<noteq> rq_path rq then Some (m, resource_not_found w)
      else if rq_path rq = ''/v1/lobbies'' then lobbies_route G clk rq player_id h m w
      else if rq_path rq = ''/v1/matchmaking/tickets'' then tickets_route G clk rq player_id h m w
      else if rq_path rq = ''/v1/matchmaking/tickets/me'' then my_ticket_route G clk rq player_id h m w
      else (case cut_prefix ''/v1/lobbies/'' (rq_path rq) of
          None \<Rightarrow> Some (m, resource_not_found w)
        | Some rest \<Rightarrow>
            if hd (split_slash rest) = [] then Some (m, resource_not_found w)
            else lobby_route G clk rq player_id (split_slash rest) h m w))"

section \<open>ServeHTTP\<close>

definition player_authorize :: "hmac_fun \<Rightarrow> time \<Rightarrow> http_request \<Rightarrow> 'l player_handler \<Rightarrow> claims option" where
  "player_authorize H now rq h = (case rq_authorization rq of
     [v] \<Rightarrow> (case cut_prefix ''Bearer '' v of
         None \<Rightarrow> None
       | Some token \<Rightarrow> (case verify H (Some (ph_auth h)) token now of Inl _ \<Rightarrow> None | Inr claims \<Rightarrow> Some claims))
   | _ \<Rightarrow> None)"

text \<open>Up to the semaphore; an admitted request has a writer and the claims of its token.\<close>

definition player_admit ::
    "'l limiter_api \<Rightarrow> hmac_fun \<Rightarrow> player_clock \<Rightarrow> http_request \<Rightarrow> 'l player_handler \<Rightarrow>
     'l player_handler \<times> (http_writer + claims \<times> http_writer)" where
  "player_admit A H clk rq h =
     (let w = set_header ''Cache-Control'' ''no-store'' new_writer in
      case player_authorize H (pk_auth clk) rq h of
        None \<Rightarrow> (h, Inl (write_error 401 ''unauthorized'' ''valid player bearer token required''
                  (set_header ''WWW-Authenticate'' ''Bearer'' w)))
      | Some claims \<Rightarrow> (case allow_n A (ph_limiter h) (pk_limiter clk) 1 of (limiter, granted) \<Rightarrow>
          (let h1 = h\<lparr>ph_limiter := limiter\<rparr> in
           if \<not> granted then (h1, Inl (rate_limited w))
           else if ph_semaphore h1 < ph_max_concurrent h1
           then (h1\<lparr>ph_semaphore := ph_semaphore h1 + 1\<rparr>, Inr (claims, w))
           else (h1, Inl (rate_limited w)))))"

definition player_release :: "'l player_handler \<Rightarrow> 'l player_handler" where
  "player_release h = h\<lparr>ph_semaphore := ph_semaphore h - 1\<rparr>"

definition player_serve ::
    "go_lib \<Rightarrow> 'l limiter_api \<Rightarrow> hmac_fun \<Rightarrow> player_clock \<Rightarrow> http_request \<Rightarrow> 'l player_handler \<Rightarrow> 'l manager \<Rightarrow>
     ('l player_handler \<times> 'l manager \<times> http_writer) option" where
  "player_serve G A H clk rq h m = (case player_admit A H clk rq h of
     (h1, Inl refused) \<Rightarrow> Some (h1, m, refused)
   | (h1, Inr (claims, w)) \<Rightarrow> (case player_route G clk rq (cl_player_id claims) h1 m w of
       None \<Rightarrow> None
     | Some (m', w') \<Rightarrow> Some (player_release h1, m', w')))"

end
