(* ===== verification/Udp_Relay.thy ===== *)
theory Udp_Relay
  imports Store_Properties
begin

text \<open>
  \<open>internal/relay/udp.go\<close>: the UDP front end. \<open>dispatch\<close> decodes one datagram, calls the store, and
  writes the answers; \<open>run_relay\<close> is the loop around it. The socket is an interface of the code, the
  Protobuf library, HMAC and the rate limiter are third-party: they are the fields of \<open>externals\<close>, an
  argument of the definitions. A store operation takes its own clock reading, so a datagram that calls
  the store twice gets two readings.
\<close>

section \<open>The interfaces\<close>

text \<open>\<open>udpSocket\<close>: a call returns the socket after it and whether its error is nil; a write also returns
  the number of bytes written.\<close>

record 'k socket_api =
  set_write_deadline :: "'k \<Rightarrow> time \<Rightarrow> 'k \<times> bool"
  write_to :: "'k \<Rightarrow> byte list \<Rightarrow> addr_port \<Rightarrow> 'k \<times> int \<times> bool"
  close_socket :: "'k \<Rightarrow> 'k \<times> bool"

record ('l, 'k) externals =
  x_limiter :: "'l limiter_api"
  x_hmac :: hmac_fun
  x_unmarshal :: "byte list \<Rightarrow> envelope option"
  x_marshal :: "envelope \<Rightarrow> byte list option"
  x_socket :: "'k socket_api"

section \<open>State\<close>

record drop_reasons =
  dr_malformed :: u64
  dr_oversized :: u64
  dr_unsupported_version :: u64
  dr_unknown_grant :: u64
  dr_auth_failed :: u64
  dr_replay :: u64
  dr_expired :: u64
  dr_revoked :: u64
  dr_wrong_room :: u64
  dr_wrong_endpoint :: u64
  dr_not_bound :: u64
  dr_rate_limited :: u64
  dr_fanout_limited :: u64
  dr_draining :: u64

record counters =
  udp_received :: u64
  client_data_accepted :: u64
  udp_dropped :: u64
  fanout_write_attempts :: u64
  fanout_write_successes :: u64
  fanout_write_errors :: u64
  drop_reasons :: drop_reasons

definition no_drops :: drop_reasons where
  "no_drops = \<lparr>dr_malformed = 0, dr_oversized = 0, dr_unsupported_version = 0, dr_unknown_grant = 0, dr_auth_failed = 0,
     dr_replay = 0, dr_expired = 0, dr_revoked = 0, dr_wrong_room = 0, dr_wrong_endpoint = 0, dr_not_bound = 0,
     dr_rate_limited = 0, dr_fanout_limited = 0, dr_draining = 0\<rparr>"

definition no_counters :: counters where
  "no_counters = \<lparr>udp_received = 0, client_data_accepted = 0, udp_dropped = 0, fanout_write_attempts = 0,
     fanout_write_successes = 0, fanout_write_errors = 0, drop_reasons = no_drops\<rparr>"

datatype relay_error = errInvalidConfig | errRead | errClose | errAlreadyRun | errInternal

text \<open>\<open>rl_close_err\<close> is the error the first \<open>Close\<close> kept.\<close>

record ('l, 'k) relay =
  rl_socket :: 'k
  rl_rooms :: "'l store"
  rl_write_timeout :: duration
  rl_closed :: bool
  rl_close_err :: "relay_error option"
  rl_run :: bool
  rl_counters :: counters

definition defaultWriteTimeout :: duration where "defaultWriteTimeout = 2000000"
definition maxWriteTimeout :: duration where "maxWriteTimeout = 20000000"

text \<open>\<open>New\<close>; a nil socket or store is \<^const>\<open>None\<close>.\<close>

definition relay_new :: "'k option \<Rightarrow> 'l store option \<Rightarrow> duration \<Rightarrow> relay_error + ('l, 'k) relay" where
  "relay_new socket rooms write_timeout = (case (socket, rooms) of
     (Some k, Some st) \<Rightarrow>
       if write_timeout < 0 \<or> write_timeout > maxWriteTimeout then Inl errInvalidConfig
       else Inr \<lparr>rl_socket = k, rl_rooms = st,
         rl_write_timeout = (if write_timeout = 0 then defaultWriteTimeout else write_timeout),
         rl_closed = False, rl_close_err = None, rl_run = False, rl_counters = no_counters\<rparr>
   | _ \<Rightarrow> Inl errInvalidConfig)"

definition relay_close :: "('l, 'k) externals \<Rightarrow> ('l, 'k) relay \<Rightarrow> ('l, 'k) relay \<times> relay_error option" where
  "relay_close X relay =
     (if rl_closed relay then (relay, rl_close_err relay)
      else (let (k, ok) = close_socket (x_socket X) (rl_socket relay);
                err = (if ok then None else Some errClose)
            in (relay\<lparr>rl_closed := True, rl_socket := k, rl_close_err := err\<rparr>, err)))"

section \<open>Counting\<close>

text \<open>\<open>recordDrop\<close>: a reason that has no counter is not counted at all.\<close>

fun count_reason :: "reject_reason \<Rightarrow> drop_reasons \<Rightarrow> drop_reasons option" where
  "count_reason RejectMalformed d = Some (d\<lparr>dr_malformed := dr_malformed d + 1\<rparr>)"
| "count_reason RejectOversized d = Some (d\<lparr>dr_oversized := dr_oversized d + 1\<rparr>)"
| "count_reason RejectUnsupportedVersion d = Some (d\<lparr>dr_unsupported_version := dr_unsupported_version d + 1\<rparr>)"
| "count_reason RejectUnknownGrant d = Some (d\<lparr>dr_unknown_grant := dr_unknown_grant d + 1\<rparr>)"
| "count_reason RejectAuthFailed d = Some (d\<lparr>dr_auth_failed := dr_auth_failed d + 1\<rparr>)"
| "count_reason RejectReplay d = Some (d\<lparr>dr_replay := dr_replay d + 1\<rparr>)"
| "count_reason RejectExpired d = Some (d\<lparr>dr_expired := dr_expired d + 1\<rparr>)"
| "count_reason RejectRevoked d = Some (d\<lparr>dr_revoked := dr_revoked d + 1\<rparr>)"
| "count_reason RejectWrongRoom d = Some (d\<lparr>dr_wrong_room := dr_wrong_room d + 1\<rparr>)"
| "count_reason RejectWrongEndpoint d = Some (d\<lparr>dr_wrong_endpoint := dr_wrong_endpoint d + 1\<rparr>)"
| "count_reason RejectNotBound d = Some (d\<lparr>dr_not_bound := dr_not_bound d + 1\<rparr>)"
| "count_reason RejectRateLimited d = Some (d\<lparr>dr_rate_limited := dr_rate_limited d + 1\<rparr>)"
| "count_reason RejectFanoutLimited d = Some (d\<lparr>dr_fanout_limited := dr_fanout_limited d + 1\<rparr>)"
| "count_reason RejectDraining d = Some (d\<lparr>dr_draining := dr_draining d + 1\<rparr>)"
| "count_reason _ d = None"

definition record_drop :: "reject_reason \<Rightarrow> counters \<Rightarrow> counters" where
  "record_drop reason c = (case count_reason reason (drop_reasons c) of
     None \<Rightarrow> c
   | Some d \<Rightarrow> c\<lparr>drop_reasons := d, udp_dropped := udp_dropped c + 1\<rparr>)"

definition count_drop :: "reject_reason \<Rightarrow> ('l, 'k) relay \<Rightarrow> ('l, 'k) relay" where
  "count_drop reason relay = relay\<lparr>rl_counters := record_drop reason (rl_counters relay)\<rparr>"

definition protocol_reject_reason :: "codec_error \<Rightarrow> reject_reason" where
  "protocol_reject_reason err = (case reason_of err of
     ReasonOversized \<Rightarrow> RejectOversized
   | ReasonUnsupportedVersion \<Rightarrow> RejectUnsupportedVersion
   | ReasonMalformed \<Rightarrow> RejectMalformed)"

definition relay_reject :: "reject_reason \<Rightarrow> ('l, 'k) relay \<Rightarrow> ('l, 'k) relay \<times> relay_error option" where
  "relay_reject reason relay =
     (if reason = RejectFatalRandom then (relay, Some errInternal) else (count_drop reason relay, None))"

section \<open>Writing\<close>

definition write_one :: "('l, 'k) externals \<Rightarrow> time \<Rightarrow> byte list \<Rightarrow> addr_port \<Rightarrow> ('l, 'k) relay \<Rightarrow> ('l, 'k) relay" where
  "write_one X now datagram endpoint relay =
     (let (k, ok) = set_write_deadline (x_socket X) (rl_socket relay) (now + rl_write_timeout relay)
      in if ok then relay\<lparr>rl_socket := fst (write_to (x_socket X) k datagram endpoint)\<rparr>
         else relay\<lparr>rl_socket := k\<rparr>)"

text \<open>The loop over the recipients; it gives up at the first write that fails or is short.\<close>

fun write_each :: "('l, 'k) externals \<Rightarrow> byte list \<Rightarrow> addr_port list \<Rightarrow> ('l, 'k) relay \<Rightarrow> ('l, 'k) relay" where
  "write_each X datagram [] relay = relay"
| "write_each X datagram (recipient # recipients) relay =
     (let c = rl_counters relay;
          c1 = c\<lparr>fanout_write_attempts := fanout_write_attempts c + 1\<rparr>;
          (k, written, ok) = write_to (x_socket X) (rl_socket relay) datagram recipient
      in if \<not> ok \<or> written \<noteq> int (length datagram)
         then relay\<lparr>rl_socket := k, rl_counters := c1\<lparr>fanout_write_errors := fanout_write_errors c1 + 1\<rparr>\<rparr>
         else write_each X datagram recipients
           (relay\<lparr>rl_socket := k, rl_counters := c1\<lparr>fanout_write_successes := fanout_write_successes c1 + 1\<rparr>\<rparr>))"

definition write_fanout :: "('l, 'k) externals \<Rightarrow> time \<Rightarrow> byte list \<Rightarrow> addr_port list \<Rightarrow> ('l, 'k) relay \<Rightarrow> ('l, 'k) relay" where
  "write_fanout X now datagram recipients relay =
     (if recipients = [] then relay
      else (let (k, ok) = set_write_deadline (x_socket X) (rl_socket relay) (now + rl_write_timeout relay)
            in if ok then write_each X datagram recipients (relay\<lparr>rl_socket := k\<rparr>)
               else relay\<lparr>rl_socket := k\<rparr>))"
section \<open>Dispatch\<close>

text \<open>\<open>copy16\<close> and \<open>copy32\<close> copy into a zeroed array.\<close>

definition copy16 :: "byte list \<Rightarrow> bytes16" where
  "copy16 input = take 16 (input @ replicate 16 0)"

definition copy32 :: "byte list \<Rightarrow> bytes32" where
  "copy32 input = take 32 (input @ replicate 32 0)"

text \<open>The envelope of a response.\<close>

definition response_envelope :: "u64 \<Rightarrow> byte list \<Rightarrow> string \<Rightarrow> string \<Rightarrow> envelope_body \<Rightarrow> envelope" where
  "response_envelope sequence tag room_id session_id body =
     \<lparr>e_protocol_revision = Revision, e_sequence = sequence, e_auth_tag = tag, e_session_id = session_id,
      e_room_id = room_id, e_body = body, e_unknown = []\<rparr>"

text \<open>A datagram that does not decode is charged to its source and dropped.\<close>

definition dispatch_undecodable ::
    "('l, 'k) externals \<Rightarrow> codec_error \<Rightarrow> byte list \<Rightarrow> addr_port \<Rightarrow> clock_reading \<Rightarrow> ('l, 'k) relay \<Rightarrow>
     (('l, 'k) relay \<times> relay_error option) option" where
  "dispatch_undecodable X err datagram endpoint reading relay =
     (case admit_preauth (x_limiter X) endpoint (int (length datagram)) (mono reading) (rl_rooms relay) of
        None \<Rightarrow> None
      | Some (rooms, r) \<Rightarrow>
          Some (count_drop (if r \<noteq> RejectNone then RejectRateLimited else protocol_reject_reason err)
                  (relay\<lparr>rl_rooms := rooms\<rparr>), None))"

definition dispatch_hello ::
    "('l, 'k) externals \<Rightarrow> envelope \<Rightarrow> hello_msg \<Rightarrow> byte list \<Rightarrow> addr_port \<Rightarrow> clock_reading \<Rightarrow> time \<Rightarrow> ('l, 'k) relay \<Rightarrow>
     (('l, 'k) relay \<times> relay_error option) option" where
  "dispatch_hello X envelope hello datagram endpoint reading now relay =
     (case begin_challenge (x_limiter X) \<lparr>cq_room_id = e_room_id envelope, cq_session_id = e_session_id envelope,
         cq_grant_id = copy16 (h_grant_id hello), cq_client_nonce = copy16 (h_client_nonce hello),
         cq_endpoint = endpoint, cq_input_bytes = int (length datagram)\<rparr> reading (rl_rooms relay) of
        None \<Rightarrow> None
      | Some (rooms, Inl reason) \<Rightarrow> Some (relay_reject reason (relay\<lparr>rl_rooms := rooms\<rparr>))
      | Some (rooms, Inr result) \<Rightarrow>
          (case encode_server (x_marshal X) (Some (response_envelope 0 [] (e_room_id envelope) (e_session_id envelope)
              (Envelope_Challenge (Some \<lparr>cm_candidate_id = cr_candidate_id result, cm_server_nonce = cr_server_nonce result,
                 cm_expires_unix_ms = cr_expires_unix_ms result, cm_unknown = []\<rparr>)))) of
             Inl err \<Rightarrow> Some (relay\<lparr>rl_rooms := rooms\<rparr>, None)
           | Inr response \<Rightarrow>
               if length response < length datagram
               then Some (write_one X now response endpoint (relay\<lparr>rl_rooms := rooms\<rparr>), None)
               else Some (relay\<lparr>rl_rooms := rooms\<rparr>, None)))"

definition dispatch_auth ::
    "('l, 'k) externals \<Rightarrow> envelope \<Rightarrow> auth_msg \<Rightarrow> byte list \<Rightarrow> addr_port \<Rightarrow> clock_reading \<Rightarrow> time \<Rightarrow> ('l, 'k) relay \<Rightarrow>
     (('l, 'k) relay \<times> relay_error option) option" where
  "dispatch_auth X envelope auth datagram endpoint reading now relay =
     (case authenticate (x_limiter X) (x_hmac X) \<lparr>aq_room_id = e_room_id envelope, aq_session_id = e_session_id envelope,
         aq_candidate_id = copy16 (am_candidate_id auth), aq_endpoint = endpoint,
         aq_auth_tag = copy32 (e_auth_tag envelope), aq_input_bytes = int (length datagram)\<rparr> reading (rl_rooms relay) of
        None \<Rightarrow> None
      | Some (rooms, Inl reason) \<Rightarrow> Some (relay_reject reason (relay\<lparr>rl_rooms := rooms\<rparr>))
      | Some (rooms, Inr result) \<Rightarrow>
          (case encode_server (x_marshal X) (Some (response_envelope 0 (br_auth_tag result) (e_room_id envelope)
              (e_session_id envelope) (Envelope_Bound (Some \<lparr>bm_binding_id = br_binding_id result,
                 bm_expires_unix_ms = br_expires_unix_ms result, bm_unknown = []\<rparr>)))) of
             Inl err \<Rightarrow> Some (relay\<lparr>rl_rooms := rooms\<rparr>, None)
           | Inr response \<Rightarrow> Some (write_one X now response endpoint (relay\<lparr>rl_rooms := rooms\<rparr>), None)))"

definition dispatch_data ::
    "('l, 'k) externals \<Rightarrow> envelope \<Rightarrow> client_data_msg \<Rightarrow> byte list \<Rightarrow> addr_port \<Rightarrow> clock_reading \<Rightarrow> clock_reading \<Rightarrow>
     time \<Rightarrow> ('l, 'k) relay \<Rightarrow> (('l, 'k) relay \<times> relay_error option) option" where
  "dispatch_data X envelope data datagram endpoint reading1 reading2 now relay =
     (case admit_client_ingress (x_limiter X) (x_hmac X) \<lparr>dq_room_id = e_room_id envelope,
         dq_session_id = e_session_id envelope, dq_binding_id = copy16 (cd_binding_id data), dq_sequence = e_sequence envelope,
         dq_payload = cd_payload data, dq_endpoint = endpoint, dq_auth_tag = copy32 (e_auth_tag envelope)\<rparr>
         (int (length datagram)) reading1 (rl_rooms relay) of
        None \<Rightarrow> None
      | Some (rooms, Inl reason) \<Rightarrow> Some (relay_reject reason (relay\<lparr>rl_rooms := rooms\<rparr>))
      | Some (rooms, Inr admitted) \<Rightarrow>
          (case encode_server (x_marshal X) (Some (response_envelope (ad_sequence admitted) [] (ad_room_id admitted)
              (ad_session_id admitted) (Envelope_ServerData (Some \<lparr>sd_sender_participant_id = ad_sender_participant_id admitted,
                 sd_payload = cd_payload data, sd_unknown = []\<rparr>)))) of
             Inl err \<Rightarrow> Some (count_drop (protocol_reject_reason err) (relay\<lparr>rl_rooms := rooms\<rparr>), None)
           | Inr response \<Rightarrow>
               (case admit_fanout (x_limiter X) admitted (int (length response)) reading2 rooms of
                  None \<Rightarrow> None
                | Some (rooms2, Inl reason) \<Rightarrow> Some (relay_reject reason (relay\<lparr>rl_rooms := rooms2\<rparr>))
                | Some (rooms2, Inr plan) \<Rightarrow>
                    (let c = rl_counters relay in
                     Some (write_fanout X now response (rp_recipients plan)
                       (relay\<lparr>rl_rooms := rooms2, rl_counters := c\<lparr>client_data_accepted := client_data_accepted c + 1\<rparr>\<rparr>), None)))))"

definition dispatch_ping ::
    "('l, 'k) externals \<Rightarrow> envelope \<Rightarrow> ping_msg \<Rightarrow> byte list \<Rightarrow> addr_port \<Rightarrow> clock_reading \<Rightarrow> ('l, 'k) relay \<Rightarrow>
     (('l, 'k) relay \<times> relay_error option) option" where
  "dispatch_ping X envelope ping datagram endpoint reading relay =
     (case admit_ping (x_limiter X) (x_hmac X) \<lparr>pq_room_id = e_room_id envelope, pq_session_id = e_session_id envelope,
         pq_binding_id = copy16 (pm_binding_id ping), pq_sequence = e_sequence envelope, pq_endpoint = endpoint,
         pq_auth_tag = copy32 (e_auth_tag envelope)\<rparr> (int (length datagram)) reading (rl_rooms relay) of
        None \<Rightarrow> None
      | Some (rooms, reason) \<Rightarrow>
          if reason \<noteq> RejectNone then Some (relay_reject reason (relay\<lparr>rl_rooms := rooms\<rparr>))
          else Some (relay\<lparr>rl_rooms := rooms\<rparr>, None))"

text \<open>\<open>dispatch\<close>; a body that is a nil message is dereferenced: a panic.\<close>

definition dispatch ::
    "('l, 'k) externals \<Rightarrow> byte list \<Rightarrow> addr_port \<Rightarrow> clock_reading \<Rightarrow> clock_reading \<Rightarrow> time \<Rightarrow> ('l, 'k) relay \<Rightarrow>
     (('l, 'k) relay \<times> relay_error option) option" where
  "dispatch X datagram endpoint0 reading1 reading2 now relay0 =
     (let endpoint = normalize_endpoint endpoint0;
          c = rl_counters relay0;
          relay = relay0\<lparr>rl_counters := c\<lparr>udp_received := udp_received c + 1\<rparr>\<rparr>
      in case decode_client (x_unmarshal X) datagram of
        Inl err \<Rightarrow> dispatch_undecodable X err datagram endpoint reading1 relay
      | Inr envelope \<Rightarrow> (case e_body envelope of
          Envelope_Hello body \<Rightarrow> (case body of None \<Rightarrow> None
            | Some hello \<Rightarrow> dispatch_hello X envelope hello datagram endpoint reading1 now relay)
        | Envelope_Auth body \<Rightarrow> (case body of None \<Rightarrow> None
            | Some auth \<Rightarrow> dispatch_auth X envelope auth datagram endpoint reading1 now relay)
        | Envelope_ClientData body \<Rightarrow> (case body of None \<Rightarrow> None
            | Some data \<Rightarrow> dispatch_data X envelope data datagram endpoint reading1 reading2 now relay)
        | Envelope_Ping body \<Rightarrow> (case body of None \<Rightarrow> None
            | Some ping \<Rightarrow> dispatch_ping X envelope ping datagram endpoint reading1 relay)
        | _ \<Rightarrow> Some (relay, Some errInternal)))"

section \<open>Run\<close>

text \<open>
  One turn of the loop of \<open>Run\<close>: the socket was closed before the read, the read failed (the flag says
  whether the socket was closed by then), or it delivered \<open>read\<close> bytes of the buffer from an endpoint.
  A datagram comes with the clock readings its dispatch takes.
\<close>

datatype udp_turn =
    Closed_Before
  | Read_Failed bool
  | Read_Bytes int "byte list" addr_port clock_reading clock_reading time

datatype run_outcome = Still_Reading | Returned "relay_error option" | Panicked

fun run_loop :: "('l, 'k) externals \<Rightarrow> udp_turn list \<Rightarrow> ('l, 'k) relay \<Rightarrow> ('l, 'k) relay \<times> run_outcome" where
  "run_loop X [] relay = (relay, Still_Reading)"
| "run_loop X (Closed_Before # turns) relay = (relay, Returned None)"
| "run_loop X (Read_Failed closed_now # turns) relay = (relay, Returned (if closed_now then None else Some errRead))"
| "run_loop X (Read_Bytes n buffer endpoint reading1 reading2 now # turns) relay =
     (if n < 0 \<or> n > int (MaxDatagramBytes + 1) then (relay, Returned (Some errRead))
      else (case dispatch X (take (nat n) buffer) (normalize_endpoint endpoint) reading1 reading2 now relay of
          None \<Rightarrow> (relay, Panicked)
        | Some (relay', Some err) \<Rightarrow> (relay', Returned (Some err))
        | Some (relay', None) \<Rightarrow> run_loop X turns relay'))"

definition run_relay :: "('l, 'k) externals \<Rightarrow> udp_turn list \<Rightarrow> ('l, 'k) relay \<Rightarrow> ('l, 'k) relay \<times> run_outcome" where
  "run_relay X turns relay =
     (if rl_run relay then (relay, Returned (Some errAlreadyRun))
      else if rl_closed relay then (relay, Returned None)
      else run_loop X turns (relay\<lparr>rl_run := True\<rparr>))"
section \<open>The counters balance\<close>

definition drop_total :: "drop_reasons \<Rightarrow> u64" where
  "drop_total d = dr_malformed d + dr_oversized d + dr_unsupported_version d + dr_unknown_grant d + dr_auth_failed d +
     dr_replay d + dr_expired d + dr_revoked d + dr_wrong_room d + dr_wrong_endpoint d + dr_not_bound d +
     dr_rate_limited d + dr_fanout_limited d + dr_draining d"

definition counters_ok :: "counters \<Rightarrow> bool" where
  "counters_ok c \<longleftrightarrow> udp_dropped c = drop_total (drop_reasons c) \<and>
     fanout_write_attempts c = fanout_write_successes c + fanout_write_errors c"

lemma counters_ok_update [simp]:
  "counters_ok (c\<lparr>client_data_accepted := n\<rparr>) = counters_ok c" "counters_ok (c\<lparr>udp_received := n\<rparr>) = counters_ok c"
  by (simp_all add: counters_ok_def)

lemma count_reason_total: "count_reason reason d = Some d' \<Longrightarrow> drop_total d' = drop_total d + 1"
  by (cases "(reason, d)" rule: count_reason.cases) (auto simp: drop_total_def)

lemma count_reason_None: "count_reason reason d = None \<longleftrightarrow> reason = RejectNone \<or> reason = RejectFatalRandom"
  by (cases "(reason, d)" rule: count_reason.cases) auto

lemma record_drop_ok: "counters_ok c \<Longrightarrow> counters_ok (record_drop reason c)"
  by (auto simp: record_drop_def counters_ok_def count_reason_total split: option.split)

lemma count_drop_fields [simp]:
  "rl_socket (count_drop reason relay) = rl_socket relay" "rl_rooms (count_drop reason relay) = rl_rooms relay"
  "rl_counters (count_drop reason relay) = record_drop reason (rl_counters relay)"
  by (simp_all add: count_drop_def)

lemma relay_reject_cases:
  "relay_reject reason relay = (relay', err) \<Longrightarrow>
     rl_rooms relay' = rl_rooms relay \<and> rl_socket relay' = rl_socket relay \<and>
     rl_counters relay' = record_drop reason (rl_counters relay) \<and> (err \<noteq> None \<longleftrightarrow> reason = RejectFatalRandom)"
  by (auto simp: relay_reject_def record_drop_def split: if_splits)

lemma write_one_fields [simp]:
  "rl_rooms (write_one X now datagram endpoint relay) = rl_rooms relay"
  "rl_counters (write_one X now datagram endpoint relay) = rl_counters relay"
  by (simp_all add: write_one_def Let_def split: prod.split)

lemma write_each_fields:
  "rl_rooms (write_each X datagram recipients relay) = rl_rooms relay"
  "counters_ok (rl_counters relay) \<Longrightarrow> counters_ok (rl_counters (write_each X datagram recipients relay))"
  "udp_dropped (rl_counters (write_each X datagram recipients relay)) = udp_dropped (rl_counters relay)"
  "udp_received (rl_counters (write_each X datagram recipients relay)) = udp_received (rl_counters relay)"
  "client_data_accepted (rl_counters (write_each X datagram recipients relay)) = client_data_accepted (rl_counters relay)"
  by (induction X datagram recipients relay rule: write_each.induct)
    (auto simp: Let_def counters_ok_def split: prod.split if_splits)

lemma write_fanout_fields:
  "rl_rooms (write_fanout X now datagram recipients relay) = rl_rooms relay"
  "counters_ok (rl_counters relay) \<Longrightarrow> counters_ok (rl_counters (write_fanout X now datagram recipients relay))"
  "udp_dropped (rl_counters (write_fanout X now datagram recipients relay)) = udp_dropped (rl_counters relay)"
  "udp_received (rl_counters (write_fanout X now datagram recipients relay)) = udp_received (rl_counters relay)"
  "client_data_accepted (rl_counters (write_fanout X now datagram recipients relay)) = client_data_accepted (rl_counters relay)"
  by (simp_all add: write_fanout_def Let_def write_each_fields split: prod.split)

text \<open>Every way a dispatch ends, seen from the counters and the socket.\<close>

definition silent_drop :: "('l, 'k) relay \<Rightarrow> ('l, 'k) relay \<Rightarrow> bool" where
  "silent_drop relay relay' \<longleftrightarrow> rl_socket relay' = rl_socket relay \<and>
     (\<exists>reason. rl_counters relay' = record_drop reason (rl_counters relay))"

definition answered :: "('l, 'k) relay \<Rightarrow> ('l, 'k) relay \<Rightarrow> bool" where
  "answered relay relay' \<longleftrightarrow> udp_received (rl_counters relay') = udp_received (rl_counters relay) \<and>
     udp_dropped (rl_counters relay') = udp_dropped (rl_counters relay) \<and>
     (counters_ok (rl_counters relay) \<longrightarrow> counters_ok (rl_counters relay'))"

lemma silent_drop_simps:
  "silent_drop relay (count_drop reason (relay\<lparr>rl_rooms := rooms\<rparr>))"
  "relay_reject reason (relay\<lparr>rl_rooms := rooms\<rparr>) = (relay', err) \<Longrightarrow> silent_drop relay relay'"
  by (auto simp: silent_drop_def dest!: relay_reject_cases)

lemma dispatch_parts:
  "dispatch_undecodable X e datagram endpoint r1 relay = Some (relay', err) \<Longrightarrow> silent_drop relay relay' \<or> answered relay relay'"
  "dispatch_hello X envelope hello datagram endpoint r1 now relay = Some (relay', err) \<Longrightarrow> silent_drop relay relay' \<or> answered relay relay'"
  "dispatch_auth X envelope auth datagram endpoint r1 now relay = Some (relay', err) \<Longrightarrow> silent_drop relay relay' \<or> answered relay relay'"
  "dispatch_data X envelope data datagram endpoint r1 r2 now relay = Some (relay', err) \<Longrightarrow> silent_drop relay relay' \<or> answered relay relay'"
  "dispatch_ping X envelope ping datagram endpoint r1 relay = Some (relay', err) \<Longrightarrow> silent_drop relay relay' \<or> answered relay relay'"
proof -
  have a: "answered relay (relay\<lparr>rl_rooms := rooms\<rparr>)" "answered relay (write_one X now w endpoint (relay\<lparr>rl_rooms := rooms\<rparr>))"
    "answered relay (write_fanout X now w rs (relay\<lparr>rl_rooms := rooms,
       rl_counters := (rl_counters relay)\<lparr>client_data_accepted := n\<rparr>\<rparr>))" for rooms now w rs n
    by (simp_all add: answered_def write_fanout_fields)
  show "dispatch_undecodable X e datagram endpoint r1 relay = Some (relay', err) \<Longrightarrow> silent_drop relay relay' \<or> answered relay relay'"
    by (auto simp: dispatch_undecodable_def silent_drop_simps split: option.splits)
  show "dispatch_hello X envelope hello datagram endpoint r1 now relay = Some (relay', err) \<Longrightarrow> silent_drop relay relay' \<or> answered relay relay'"
    by (auto simp: dispatch_hello_def a silent_drop_simps split: option.splits sum.splits if_splits)
  show "dispatch_auth X envelope auth datagram endpoint r1 now relay = Some (relay', err) \<Longrightarrow> silent_drop relay relay' \<or> answered relay relay'"
    by (auto simp: dispatch_auth_def a silent_drop_simps split: option.splits sum.splits)
  show "dispatch_data X envelope data datagram endpoint r1 r2 now relay = Some (relay', err) \<Longrightarrow> silent_drop relay relay' \<or> answered relay relay'"
    by (auto simp: dispatch_data_def Let_def a silent_drop_simps split: option.splits sum.splits)
  show "dispatch_ping X envelope ping datagram endpoint r1 relay = Some (relay', err) \<Longrightarrow> silent_drop relay relay' \<or> answered relay relay'"
    by (auto simp: dispatch_ping_def a silent_drop_simps split: option.splits if_splits)
qed

definition received :: "('l, 'k) relay \<Rightarrow> ('l, 'k) relay" where
  "received relay = relay\<lparr>rl_counters := (rl_counters relay)\<lparr>udp_received := udp_received (rl_counters relay) + 1\<rparr>\<rparr>"

lemma dispatch_outcome:
  assumes "dispatch X datagram endpoint r1 r2 now relay = Some (relay', err)"
  shows "silent_drop (received relay) relay' \<or> answered (received relay) relay'"
  using assms unfolding dispatch_def Let_def received_def [symmetric]
  by (auto dest: dispatch_parts simp: answered_def split: sum.splits envelope_body.splits option.splits)

lemma received_fields [simp]:
  "rl_socket (received relay) = rl_socket relay" "rl_rooms (received relay) = rl_rooms relay"
  "udp_dropped (rl_counters (received relay)) = udp_dropped (rl_counters relay)"
  "udp_received (rl_counters (received relay)) = udp_received (rl_counters relay) + 1"
  "client_data_accepted (rl_counters (received relay)) = client_data_accepted (rl_counters relay)"
  "counters_ok (rl_counters (received relay)) = counters_ok (rl_counters relay)"
  by (simp_all add: received_def counters_ok_def)

text \<open>A drop is silent: a datagram whose handling counts as dropped causes no write at all, is counted
  received once and dropped once, and is not counted as accepted data.\<close>

lemma drops_are_silent:
  assumes "dispatch X datagram endpoint r1 r2 now relay = Some (relay', err)"
    and "udp_dropped (rl_counters relay') \<noteq> udp_dropped (rl_counters relay)"
  shows "rl_socket relay' = rl_socket relay \<and> udp_dropped (rl_counters relay') = udp_dropped (rl_counters relay) + 1 \<and>
    udp_received (rl_counters relay') = udp_received (rl_counters relay) + 1 \<and>
    client_data_accepted (rl_counters relay') = client_data_accepted (rl_counters relay)"
  using dispatch_outcome [OF assms(1)] assms(2)
  by (auto simp: answered_def silent_drop_def record_drop_def split: option.splits)
lemma run_loop_balance:
  "counters_ok (rl_counters relay) \<Longrightarrow> counters_ok (rl_counters (fst (run_loop X turns relay)))"
proof (induction X turns relay rule: run_loop.induct)
  case (4 X n buffer endpoint r1 r2 now turns relay)
  have "counters_ok (rl_counters relay')"
    if "dispatch X (take (nat n) buffer) (normalize_endpoint endpoint) r1 r2 now relay = Some (relay', err)" for relay' err
    using dispatch_outcome [OF that] 4 record_drop_ok by (auto simp: silent_drop_def answered_def)
  then show ?case using 4 by (auto split: option.split prod.split)
qed simp_all

text \<open>The counters balance along any run of the relay, from any state in which they do, modulo the
  64-bit width: the drops are the sum of the drops per reason, and every fan-out write attempted was either a
  success or an error.\<close>

lemma counters_balance:
  assumes "udp_dropped (rl_counters relay) = drop_total (drop_reasons (rl_counters relay))"
    and "fanout_write_attempts (rl_counters relay) =
      fanout_write_successes (rl_counters relay) + fanout_write_errors (rl_counters relay)"
    and "run_relay X turns relay = (relay', outcome)"
  shows "udp_dropped (rl_counters relay') = drop_total (drop_reasons (rl_counters relay')) \<and>
    fanout_write_attempts (rl_counters relay') =
      fanout_write_successes (rl_counters relay') + fanout_write_errors (rl_counters relay')"
proof -
  have "counters_ok (rl_counters (fst (run_relay X turns relay)))"
    using run_loop_balance [of "relay\<lparr>rl_run := True\<rparr>" X turns] assms(1,2)
    by (simp add: run_relay_def counters_ok_def)
  then show ?thesis by (simp add: assms(3) counters_ok_def)
qed

text \<open>A relay for the witnesses: a socket that keeps the list of its writes, and a Protobuf library that
  knows one hello of 256 bytes and one ping of 40.\<close>

definition log_socket :: "(byte list \<times> addr_port) list socket_api" where
  "log_socket = \<lparr>set_write_deadline = (\<lambda>k t. (k, True)),
     write_to = (\<lambda>k d e. (k @ [(d, e)], int (length d), True)), close_socket = (\<lambda>k. (k, True))\<rparr>"

definition demo_unmarshal :: "byte list \<Rightarrow> envelope option" where
  "demo_unmarshal d =
     (if length d = 256 then Some (response_envelope 0 [] ''room'' ''s1'' (Envelope_Hello (Some
        \<lparr>h_grant_id = bytes 0 16, h_client_nonce = bytes 7 16, h_padding = [], h_unknown = []\<rparr>)))
      else if length d = 40 then Some (response_envelope 9 (replicate 32 0) ''room'' ''s1''
        (Envelope_Ping (Some \<lparr>pm_binding_id = replicate 16 0, pm_unknown = []\<rparr>)))
      else None)"

definition demo_externals :: "(int \<times> int, (byte list \<times> addr_port) list) externals" where
  "demo_externals = \<lparr>x_limiter = bucket, x_hmac = hmac_message, x_unmarshal = demo_unmarshal,
     x_marshal = (\<lambda>e. Some (replicate 100 0)), x_socket = log_socket\<rparr>"

definition demo_relay :: "(int \<times> int, (byte list \<times> addr_port) list) relay" where
  "demo_relay = \<lparr>rl_socket = [], rl_rooms = demo_open, rl_write_timeout = 5, rl_closed = False, rl_close_err = None,
      rl_run = False, rl_counters = no_counters\<rparr>"

lemma counters_balance_witness:
  "\<exists>relay'. run_relay demo_externals [Read_Failed True] demo_relay = (relay', Returned None) \<and>
    udp_dropped (rl_counters relay') = drop_total (drop_reasons (rl_counters relay'))"
  using counters_balance [of demo_relay demo_externals "[Read_Failed True]"]
  by (simp add: run_relay_def demo_relay_def no_counters_def no_drops_def drop_total_def)

text \<open>A ping to an unknown binding is dropped.\<close>

lemma demo_drop: "(case dispatch demo_externals (replicate 40 0) demo_endpoint (demo_at 1) (demo_at 1) 1 demo_relay of
    Some (relay', err) \<Rightarrow> udp_dropped (rl_counters relay') = 1 | None \<Rightarrow> False)"
  by code_simp

lemma drops_are_silent_witness:
  "\<exists>relay' err. dispatch demo_externals (replicate 40 0) demo_endpoint (demo_at 1) (demo_at 1) 1 demo_relay = Some (relay', err) \<and>
    rl_socket relay' = []"
proof -
  obtain relay' err where d: "dispatch demo_externals (replicate 40 0) demo_endpoint (demo_at 1) (demo_at 1) 1 demo_relay = Some (relay', err)"
    and "udp_dropped (rl_counters relay') = 1"
    using demo_drop by (auto split: option.splits)
  with drops_are_silent [OF d] show ?thesis by (simp add: demo_relay_def no_counters_def)
qed

section \<open>What is written\<close>

text \<open>What one response write does to the socket.\<close>

definition sent_one :: "'k socket_api \<Rightarrow> byte list \<Rightarrow> addr_port \<Rightarrow> time \<Rightarrow> 'k \<Rightarrow> 'k \<Rightarrow> bool" where
  "sent_one S response endpoint deadline k k' \<longleftrightarrow> (case set_write_deadline S k deadline of
     (k1, ok) \<Rightarrow> k' = (if ok then fst (write_to S k1 response endpoint) else k1))"

lemma write_one_socket:
  "sent_one (x_socket X) response endpoint (now + rl_write_timeout relay) (rl_socket relay)
     (rl_socket (write_one X now response endpoint relay))"
  by (simp add: sent_one_def write_one_def Let_def split: prod.split)

text \<open>C19: an unauthenticated hello cannot be used for amplification or reflection: whatever the store holds,
  the datagram of a hello causes at most one write, of a response strictly shorter than the datagram, to the
  very endpoint it came from, and no fan-out.\<close>

theorem hello_never_amplifies:
  assumes "dispatch X datagram endpoint r1 r2 now relay = Some (relay', err)"
    and "decode_client (x_unmarshal X) datagram = Inr envelope" and "e_body envelope = Envelope_Hello body"
  shows "rl_socket relay' = rl_socket relay \<or>
    (\<exists>response. length response < length datagram \<and>
       sent_one (x_socket X) response (normalize_endpoint endpoint) (now + rl_write_timeout relay)
         (rl_socket relay) (rl_socket relay')) "
proof -
  obtain hello where "body = Some hello" using assms by (cases body) (auto simp: dispatch_def Let_def)
  then have d: "dispatch_hello X envelope hello datagram (normalize_endpoint endpoint) r1 now (received relay) = Some (relay', err)"
    using assms by (simp add: dispatch_def Let_def received_def)
  have w: "sent_one (x_socket X) w (normalize_endpoint endpoint) (now + rl_write_timeout relay) (rl_socket relay)
      (rl_socket (write_one X now w (normalize_endpoint endpoint) ((received relay)\<lparr>rl_rooms := rooms\<rparr>)))" for w rooms
    using write_one_socket [of X w "normalize_endpoint endpoint" now "(received relay)\<lparr>rl_rooms := rooms\<rparr>"]
    by (simp add: received_def)
  from d consider "rl_socket relay' = rl_socket relay" | w rooms where "length w < length datagram"
      "relay' = write_one X now w (normalize_endpoint endpoint) ((received relay)\<lparr>rl_rooms := rooms\<rparr>)"
    by (auto simp: dispatch_hello_def split: option.splits sum.splits if_splits dest!: relay_reject_cases)
  then show ?thesis using w by cases auto
qed

theorem hello_never_amplifies_witness:
  "\<exists>relay' err. dispatch demo_externals (replicate 256 0) demo_endpoint (demo_at 1) (demo_at 1) 1 demo_relay = Some (relay', err) \<and>
    (rl_socket relay' = [] \<or> (\<exists>response. length response < 256 \<and> rl_socket relay' = [(response, demo_endpoint)]))"
proof -
  have "dispatch demo_externals (replicate 256 0) demo_endpoint (demo_at 1) (demo_at 1) 1 demo_relay \<noteq> None \<and>
      (case decode_client (x_unmarshal demo_externals) (replicate 256 0) of Inr e \<Rightarrow>
        (case e_body e of Envelope_Hello body \<Rightarrow> True | _ \<Rightarrow> False) | _ \<Rightarrow> False) \<and>
      normalize_endpoint demo_endpoint = demo_endpoint"
    by code_simp
  then obtain relay' err envelope body where
    d: "dispatch demo_externals (replicate 256 0) demo_endpoint (demo_at 1) (demo_at 1) 1 demo_relay = Some (relay', err)"
      "decode_client (x_unmarshal demo_externals) (replicate 256 0) = Inr envelope" "e_body envelope = Envelope_Hello body"
    and e: "normalize_endpoint demo_endpoint = demo_endpoint"
    by (auto split: sum.splits envelope_body.splits)
  from hello_never_amplifies [OF d] d(1) e show ?thesis
    by (auto simp: sent_one_def demo_externals_def log_socket_def demo_relay_def)
qed
section \<open>The relay runs the store\<close>

text \<open>A dispatch is one or two operations of the store, whatever arrives.\<close>

definition store_runs :: "('l, 'k) externals \<Rightarrow> 'l store \<Rightarrow> 'l store \<Rightarrow> bool" where
  "store_runs X st st' \<longleftrightarrow> (\<exists>es. length es \<le> 2 \<and> run (store_step (x_limiter X) (x_hmac X)) st es st')"

lemma store_runs_refl: "store_runs X st st"
  unfolding store_runs_def by (rule exI [of _ "[]"]) simp

lemma store_runs_one: "store_step (x_limiter X) (x_hmac X) st e st' \<Longrightarrow> store_runs X st st'"
  unfolding store_runs_def by (rule exI [of _ "[e]"]) (simp add: run_Cons_iff)

lemma store_runs_two:
  assumes "store_step (x_limiter X) (x_hmac X) st e st1" and "store_step (x_limiter X) (x_hmac X) st1 e' st2"
  shows "store_runs X st st2"
  unfolding store_runs_def using assms by (intro exI [of _ "[e, e']"]) (auto simp: run_Cons_iff)

lemma store_runs_reachable:
  "store_runs X st st' \<Longrightarrow> store_reachable (x_limiter X) (x_hmac X) st \<Longrightarrow> store_reachable (x_limiter X) (x_hmac X) st'"
  unfolding store_runs_def using store_reachable_run by blast

lemma store_step_inv: "limiter_law A \<Longrightarrow> store_inv st \<Longrightarrow> store_step A H st e st' \<Longrightarrow> store_inv st'"
  using keeps.step_inv [of A H st e st'] by (simp add: lawful_inv_def)

text \<open>The store operations of a dispatch return, and each is a step.\<close>

lemma relay_ops_step:
  assumes "limiter_law A" and "store_inv st" and "reading_ok reading"
  shows "\<exists>st' x. admit_preauth A endpoint n (mono reading) st = Some (st', x) \<and> (\<exists>e. store_step A H st e st')"
    and "\<exists>st' x. begin_challenge A cq reading st = Some (st', x) \<and> (\<exists>e. store_step A H st e st')"
    and "\<exists>st' x. authenticate A H aq reading st = Some (st', x) \<and> (\<exists>e. store_step A H st e st')"
    and "\<exists>st' x. admit_client_ingress A H dq n reading st = Some (st', x) \<and> (\<exists>e. store_step A H st e st')"
    and "\<exists>st' x. admit_fanout A ad n reading st = Some (st', x) \<and> (\<exists>e. store_step A H st e st')"
    and "\<exists>st' x. admit_ping A H pq n reading st = Some (st', x) \<and> (\<exists>e. store_step A H st e st')"
proof -
  have total: "\<exists>st' r. perform A H op reading st = Some (st', r) \<and> store_step A H st (op, reading, r) st'"
    if "op_fits op st" for op
    using perform_fine [OF assms that, of H] assms(3) that by (auto simp: fine_def intro: store_step)
  show "\<exists>st' x. admit_preauth A endpoint n (mono reading) st = Some (st', x) \<and> (\<exists>e. store_step A H st e st')"
    using total [of "Preauth endpoint n"] by auto
  show "\<exists>st' x. begin_challenge A cq reading st = Some (st', x) \<and> (\<exists>e. store_step A H st e st')"
    using total [of "Challenge cq"] by auto
  show "\<exists>st' x. authenticate A H aq reading st = Some (st', x) \<and> (\<exists>e. store_step A H st e st')"
    using total [of "Handshake aq"] by auto
  show "\<exists>st' x. admit_client_ingress A H dq n reading st = Some (st', x) \<and> (\<exists>e. store_step A H st e st')"
    using total [of "Ingress dq n"] by auto
  show "\<exists>st' x. admit_fanout A ad n reading st = Some (st', x) \<and> (\<exists>e. store_step A H st e st')"
    using total [of "Fanout ad n"] by auto
  show "\<exists>st' x. admit_ping A H pq n reading st = Some (st', x) \<and> (\<exists>e. store_step A H st e st')"
    using total [of "Keepalive pq n"] by auto
qed

lemma reject_rooms [simp]: "rl_rooms (fst (relay_reject reason relay)) = rl_rooms relay"
  by (simp add: relay_reject_def)

definition dispatch_ok :: "('l, 'k) externals \<Rightarrow> 'l store \<Rightarrow> (('l, 'k) relay \<times> relay_error option) option \<Rightarrow> bool" where
  "dispatch_ok X st r \<longleftrightarrow> (\<exists>relay' err. r = Some (relay', err) \<and> store_runs X st (rl_rooms relay'))"

lemma dispatch_ok_Some [simp]: "dispatch_ok X st (Some p) \<longleftrightarrow> store_runs X st (rl_rooms (fst p))"
  by (cases p) (simp add: dispatch_ok_def)

lemma dispatch_parts_ok:
  assumes law: "limiter_law (x_limiter X)" and inv: "store_inv (rl_rooms relay)"
    and r: "reading_ok r1" "reading_ok r2"
  shows "dispatch_ok X (rl_rooms relay) (dispatch_undecodable X e datagram endpoint r1 relay)"
    and "dispatch_ok X (rl_rooms relay) (dispatch_hello X envelope hello datagram endpoint r1 now relay)"
    and "dispatch_ok X (rl_rooms relay) (dispatch_auth X envelope auth datagram endpoint r1 now relay)"
    and "dispatch_ok X (rl_rooms relay) (dispatch_data X envelope data datagram endpoint r1 r2 now relay)"
    and "dispatch_ok X (rl_rooms relay) (dispatch_ping X envelope ping datagram endpoint r1 relay)"
proof -
  note op = relay_ops_step [OF law inv r(1)]
  obtain st1 x e1 where "admit_preauth (x_limiter X) endpoint (int (length datagram)) (mono r1) (rl_rooms relay) = Some (st1, x)"
    "store_step (x_limiter X) (x_hmac X) (rl_rooms relay) e1 st1" using op(1) by blast
  then show "dispatch_ok X (rl_rooms relay) (dispatch_undecodable X e datagram endpoint r1 relay)"
    by (simp add: dispatch_undecodable_def store_runs_one)
  let ?cq = "\<lparr>cq_room_id = e_room_id envelope, cq_session_id = e_session_id envelope,
         cq_grant_id = copy16 (h_grant_id hello), cq_client_nonce = copy16 (h_client_nonce hello),
         cq_endpoint = endpoint, cq_input_bytes = int (length datagram)\<rparr>"
  obtain st2 x2 e2 where "begin_challenge (x_limiter X) ?cq r1 (rl_rooms relay) = Some (st2, x2)"
    "store_step (x_limiter X) (x_hmac X) (rl_rooms relay) e2 st2" using op(2) by blast
  then show "dispatch_ok X (rl_rooms relay) (dispatch_hello X envelope hello datagram endpoint r1 now relay)"
    by (auto simp: dispatch_hello_def store_runs_one split: sum.split)
  let ?aq = "\<lparr>aq_room_id = e_room_id envelope, aq_session_id = e_session_id envelope,
         aq_candidate_id = copy16 (am_candidate_id auth), aq_endpoint = endpoint,
         aq_auth_tag = copy32 (e_auth_tag envelope), aq_input_bytes = int (length datagram)\<rparr>"
  obtain st3 x3 e3 where "authenticate (x_limiter X) (x_hmac X) ?aq r1 (rl_rooms relay) = Some (st3, x3)"
    "store_step (x_limiter X) (x_hmac X) (rl_rooms relay) e3 st3" using op(3) by blast
  then show "dispatch_ok X (rl_rooms relay) (dispatch_auth X envelope auth datagram endpoint r1 now relay)"
    by (auto simp: dispatch_auth_def store_runs_one split: sum.split)
  let ?dq = "\<lparr>dq_room_id = e_room_id envelope,
         dq_session_id = e_session_id envelope, dq_binding_id = copy16 (cd_binding_id data), dq_sequence = e_sequence envelope,
         dq_payload = cd_payload data, dq_endpoint = endpoint, dq_auth_tag = copy32 (e_auth_tag envelope)\<rparr>"
  obtain st4 x4 e4 where four: "admit_client_ingress (x_limiter X) (x_hmac X) ?dq (int (length datagram)) r1 (rl_rooms relay) = Some (st4, x4)"
    "store_step (x_limiter X) (x_hmac X) (rl_rooms relay) e4 st4" using op(4) by blast
  have fan: "\<exists>st5 x5. admit_fanout (x_limiter X) ad n r2 st4 = Some (st5, x5) \<and> store_runs X (rl_rooms relay) st5" for ad n
    using relay_ops_step(5) [OF law store_step_inv [OF law inv four(2)] r(2), of ad n] store_runs_two [OF four(2)] by blast
  show "dispatch_ok X (rl_rooms relay) (dispatch_data X envelope data datagram endpoint r1 r2 now relay)"
  proof (cases x4)
    case (Inl reason)
    then show ?thesis using four by (simp add: dispatch_data_def store_runs_one)
  next
    case (Inr ad)
    let ?enc = "encode_server (x_marshal X) (Some (response_envelope (ad_sequence ad) [] (ad_room_id ad)
              (ad_session_id ad) (Envelope_ServerData (Some \<lparr>sd_sender_participant_id = ad_sender_participant_id ad,
                 sd_payload = cd_payload data, sd_unknown = []\<rparr>))))"
    show ?thesis
    proof (cases ?enc)
      case (Inl err)
      then show ?thesis using four Inr by (simp add: dispatch_data_def store_runs_one)
    next
      case enc: (Inr response)
      obtain st5 x5 where "admit_fanout (x_limiter X) ad (int (length response)) r2 st4 = Some (st5, x5)" "store_runs X (rl_rooms relay) st5"
        using fan by blast
      then show ?thesis
        using four Inr enc by (cases x5) (simp_all add: dispatch_data_def write_fanout_fields Let_def)
    qed
  qed
  let ?pq = "\<lparr>pq_room_id = e_room_id envelope, pq_session_id = e_session_id envelope,
         pq_binding_id = copy16 (pm_binding_id ping), pq_sequence = e_sequence envelope, pq_endpoint = endpoint,
         pq_auth_tag = copy32 (e_auth_tag envelope)\<rparr>"
  obtain st6 x6 e6 where "admit_ping (x_limiter X) (x_hmac X) ?pq (int (length datagram)) r1 (rl_rooms relay) = Some (st6, x6)"
    "store_step (x_limiter X) (x_hmac X) (rl_rooms relay) e6 st6" using op(6) by blast
  then show "dispatch_ok X (rl_rooms relay) (dispatch_ping X envelope ping datagram endpoint r1 relay)"
    by (simp add: dispatch_ping_def store_runs_one)
qed
lemma decoded_body:
  assumes "decode_client unmarshal datagram = Inr envelope"
  obtains m where "e_body envelope = Envelope_Hello (Some m)" | m where "e_body envelope = Envelope_Auth (Some m)"
  | m where "e_body envelope = Envelope_ClientData (Some m)" | m where "e_body envelope = Envelope_Ping (Some m)"
  using assms that
  by (auto simp: decode_client_def validate_client_def split: if_splits option.splits envelope_body.splits)

lemma dispatch_runs_store:
  assumes "limiter_law (x_limiter X)" and "store_inv (rl_rooms relay)"
    and "reading_ok r1" "reading_ok r2"
  shows "dispatch_ok X (rl_rooms relay) (dispatch X datagram endpoint r1 r2 now relay)"
proof -
  note parts = dispatch_parts_ok [where relay = "received relay", unfolded received_fields, OF assms]
  show ?thesis
  proof (cases "decode_client (x_unmarshal X) datagram")
    case (Inl err)
    then show ?thesis using parts(1) by (simp add: dispatch_def Let_def received_def)
  next
    case (Inr envelope)
    show ?thesis
      by (rule decoded_body [OF Inr]; use Inr parts(2-5) in \<open>simp add: dispatch_def Let_def received_def\<close>)
  qed
qed

fun turn_ok :: "udp_turn \<Rightarrow> bool" where
  "turn_ok (Read_Bytes n buffer endpoint r1 r2 now) \<longleftrightarrow> reading_ok r1 \<and> reading_ok r2"
| "turn_ok _ \<longleftrightarrow> True"

lemma run_loop_safe:
  assumes "limiter_law (x_limiter X)" and "store_reachable (x_limiter X) (x_hmac X) (rl_rooms relay)"
    and "\<forall>t \<in> set turns. turn_ok t"
  shows "snd (run_loop X turns relay) \<noteq> Panicked \<and>
    store_reachable (x_limiter X) (x_hmac X) (rl_rooms (fst (run_loop X turns relay)))"
  using assms
proof (induction X turns relay rule: run_loop.induct)
  case (4 X n buffer endpoint r1 r2 now turns relay)
  obtain relay' err where d: "dispatch X (take (nat n) buffer) (normalize_endpoint endpoint) r1 r2 now relay = Some (relay', err)"
    and st: "store_runs X (rl_rooms relay) (rl_rooms relay')"
    using dispatch_runs_store [OF 4(2) reachable_inv [OF 4(2,3)]] 4(4) by (fastforce simp: dispatch_ok_def)
  have reach: "store_reachable (x_limiter X) (x_hmac X) (rl_rooms relay')"
    by (rule store_runs_reachable [OF st 4(3)])
  show ?case using 4 d reach by (cases err) auto
qed simp_all

text \<open>C18: the relay refines the store and never panics. With a limiter that behaves as documented, whatever
  datagrams arrive from wherever, whatever the Protobuf library makes of them and however the socket fails,
  the loop of \<open>Run\<close> does not panic; each datagram makes at most two operations of the store, so the store
  stays reachable and everything proved of reachable stores holds of the running relay.\<close>

theorem relay_refines_store:
  assumes "limiter_law (x_limiter X)" and "store_reachable (x_limiter X) (x_hmac X) (rl_rooms relay)"
    and "\<forall>t \<in> set turns. turn_ok t"
  shows "snd (run_relay X turns relay) \<noteq> Panicked \<and>
    store_reachable (x_limiter X) (x_hmac X) (rl_rooms (fst (run_relay X turns relay))) \<and>
    (\<forall>datagram endpoint r1 r2 now. reading_ok r1 \<and> reading_ok r2 \<longrightarrow>
       (\<exists>relay' err es. dispatch X datagram endpoint r1 r2 now relay = Some (relay', err) \<and> length es \<le> 2 \<and>
          run (store_step (x_limiter X) (x_hmac X)) (rl_rooms relay) es (rl_rooms relay')))"
proof (intro conjI allI impI)
  show "snd (run_relay X turns relay) \<noteq> Panicked"
    "store_reachable (x_limiter X) (x_hmac X) (rl_rooms (fst (run_relay X turns relay)))"
    using run_loop_safe [of X "relay\<lparr>rl_run := True\<rparr>" turns] assms by (simp_all add: run_relay_def)
  fix datagram endpoint r1 r2 now assume "reading_ok r1 \<and> reading_ok r2"
  then show "\<exists>relay' err es. dispatch X datagram endpoint r1 r2 now relay = Some (relay', err) \<and> length es \<le> 2 \<and>
      run (store_step (x_limiter X) (x_hmac X)) (rl_rooms relay) es (rl_rooms relay')"
    using dispatch_runs_store [OF assms(1) reachable_inv [OF assms(1,2)], of r1 r2 datagram endpoint now]
    by (auto simp: dispatch_ok_def store_runs_def)
qed

theorem relay_refines_store_witness:
  "snd (run_relay demo_externals [Read_Bytes 40 (replicate 1201 0) demo_endpoint (demo_at 1) (demo_at 2) 3, Read_Failed False]
     demo_relay) \<noteq> Panicked"
  using relay_refines_store [of demo_externals demo_relay
      "[Read_Bytes 40 (replicate 1201 0) demo_endpoint (demo_at 1) (demo_at 2) 3, Read_Failed False]"]
    demo_reachable(2)
  by (simp add: demo_externals_def demo_relay_def in_i64_def)

end
