(* ===== verification/Server.thy ===== *)
theory Server
  imports Player_Http Udp_Relay
begin

text \<open>
  \<open>internal/server/server.go\<close>: the construction of the whole process from its configuration, with the listeners
  it opens and closes on the way, the lifecycle (\<open>Run\<close>, \<open>Close\<close>, the fatal signal, the coordination of the four
  loops) and the sweeper.

  Address resolution and the opening of sockets are parameters (\<open>server_net\<close>), as in the code, which takes them
  from a \<open>dependencies\<close> value; the order of openings and closings is returned as a list of events. The HTTP
  servers and goroutines themselves belong to \<open>net/http\<close> and the Go runtime: a loop is known by the result it
  sends when it ends.
\<close>

section \<open>Configuration\<close>

record server_config =
  sc_management_listen :: string
  sc_player_listen :: string
  sc_relay_network :: string
  sc_relay_listen :: string
  sc_advertised_host :: string
  sc_advertised_port :: u16
  sc_operator_token :: bytes32

datatype server_error = Server_Invalid_Config | Server_Bind | Server_Owned_Loop | Server_Already_Running | Server_Close

text \<open>
  The outside of \<open>newWithDependencies\<close>: resolution of TCP addresses and of UDP addresses (to their port), the two
  listen functions (nil is \<^const>\<open>None\<close>; the n-th call of \<open>listenTCP\<close> may fail, \<open>listenUDP\<close> returns a socket and
  its local port), the clock of the store as the lobby manager will read it, and the random sources.
\<close>

record 'k server_net =
  sn_resolve_tcp :: "string \<Rightarrow> bool"
  sn_resolve_udp :: "string \<Rightarrow> string \<Rightarrow> int option"
  sn_listen_tcp :: "(nat \<Rightarrow> string \<Rightarrow> bool) option"
  sn_listen_udp :: "(string \<Rightarrow> int \<Rightarrow> ('k \<times> int) option) option"
  sn_store_clock :: "nat \<Rightarrow> clock_reading"
  sn_store_random :: "byte list"
  sn_auth_random :: "byte list"
  sn_lobby_random :: "byte list"

text \<open>\<open>validateConfig\<close>: the port of the resolved relay address.\<close>

definition validate_config :: "'k server_net \<Rightarrow> server_config \<Rightarrow> int option" where
  "validate_config net config =
     (if sc_management_listen config = [] \<or> sc_player_listen config = [] \<or> sc_relay_listen config = [] \<or>
         sc_advertised_host config = [] \<or> sc_operator_token config = replicate 32 0 \<or>
         (sc_relay_network config \<noteq> ''udp4'' \<and> sc_relay_network config \<noteq> ''udp6'') then None
      else if \<not> sn_resolve_tcp net (sc_management_listen config) then None
      else if \<not> sn_resolve_tcp net (sc_player_listen config) then None
      else (case sn_resolve_udp net (sc_relay_network config) (sc_relay_listen config) of
          None \<Rightarrow> None
        | Some port \<Rightarrow> if sc_advertised_port config = 0 \<and> port \<noteq> 0 then None else Some port))"

section \<open>Construction\<close>

datatype socket_id = Management_Listener | Player_Listener | Relay_Socket

datatype socket_event = Opened socket_id | Closed socket_id

text \<open>
  The server. The store is one object that the manager, the management API and the relay share: it is the field
  \<open>m_relay\<close> of the manager and \<open>rl_rooms\<close> of the relay, which every step keeps equal. \<open>sv_shutdown\<close> is the
  result of \<open>shutdown\<close> once it has run.
\<close>

record ('l, 'k) server =
  sv_manager :: "'l manager"
  sv_management :: "'l control_handler"
  sv_players :: "'l player_handler"
  sv_relay :: "('l, 'k) relay"
  sv_run_started :: bool
  sv_close_requested :: bool
  sv_finished :: bool
  sv_close_signal :: bool
  sv_fatal_signal :: bool
  sv_shutdown :: "server_error option option"

definition management_config :: "server_config \<Rightarrow> player_auth \<Rightarrow> u16 \<Rightarrow> control_config" where
  "management_config config tokens port =
     \<lparr>cc_operator_token = sc_operator_token config, cc_player_tokens = Some tokens,
      cc_advertised_host = sc_advertised_host config, cc_advertised_port = port,
      cc_request_rate = HardManagementRequestRate, cc_request_burst = HardManagementRequestBurst,
      cc_max_concurrent = HardManagementConcurrent, cc_fatal = True\<rparr>"

definition players_config :: "server_config \<Rightarrow> player_auth \<Rightarrow> u16 \<Rightarrow> player_config" where
  "players_config config tokens port =
     \<lparr>pc_auth = Some tokens, pc_advertised_host = sc_advertised_host config, pc_advertised_port = port,
      pc_request_rate = HardPlayerRequestRate, pc_request_burst = HardPlayerRequestBurst,
      pc_max_concurrent = HardPlayerConcurrent, pc_fatal = True\<rparr>"

text \<open>The part after the three sockets are open; a failure runs the deferred clean-up.\<close>

definition server_assemble ::
    "'l limiter_api \<Rightarrow> server_config \<Rightarrow> 'l store \<Rightarrow> player_auth \<Rightarrow> 'l manager \<Rightarrow> 'k \<Rightarrow> int \<Rightarrow> (server_error + ('l, 'k) server)" where
  "server_assemble A config rooms tokens lobbies socket local_port =
     (let port = (if sc_advertised_port config = 0 then of_int local_port else sc_advertised_port config) in
      case control_new A (management_config config tokens port) True of
        None \<Rightarrow> Inl Server_Invalid_Config
      | Some management \<Rightarrow> (case player_new A (players_config config tokens port) True of
          None \<Rightarrow> Inl Server_Invalid_Config
        | Some players \<Rightarrow> (case relay_new (Some socket) (Some rooms) 0 of
            Inl _ \<Rightarrow> Inl Server_Invalid_Config
          | Inr relay \<Rightarrow> Inr \<lparr>sv_manager = lobbies, sv_management = management, sv_players = players, sv_relay = relay,
              sv_run_started = False, sv_close_requested = False, sv_finished = False, sv_close_signal = False,
              sv_fatal_signal = False, sv_shutdown = None\<rparr>)))"

definition server_new ::
    "'l limiter_api \<Rightarrow> hmac_fun \<Rightarrow> nat \<Rightarrow> 'k server_net \<Rightarrow> server_config \<Rightarrow> (server_error + ('l, 'k) server) \<times> socket_event list" where
  "server_new A H self net config = (case (validate_config net config, sn_listen_tcp net, sn_listen_udp net) of
     (Some relay_port, Some listen_tcp, Some listen_udp) \<Rightarrow>
       (case store_new A self default_limits (sn_store_random net) of
          Inl _ \<Rightarrow> (Inl Server_Invalid_Config, [])
        | Inr rooms \<Rightarrow> (case fst (player_auth_new H (sc_operator_token config) HardTokenTTL (sn_auth_random net)) of
            Inl _ \<Rightarrow> (Inl Server_Invalid_Config, [])
          | Inr tokens \<Rightarrow> (case manager_new A (Some rooms) (sn_store_clock net) (sn_lobby_random net) of
              Inl _ \<Rightarrow> (Inl Server_Invalid_Config, [])
            | Inr lobbies \<Rightarrow>
                if \<not> listen_tcp 0 (sc_management_listen config) then (Inl Server_Bind, [])
                else if \<not> listen_tcp 1 (sc_player_listen config)
                then (Inl Server_Bind, [Opened Management_Listener, Closed Management_Listener])
                else (case listen_udp (sc_relay_network config) relay_port of
                    None \<Rightarrow> (Inl Server_Bind, [Opened Management_Listener, Opened Player_Listener,
                      Closed Player_Listener, Closed Management_Listener])
                  | Some (socket, local_port) \<Rightarrow>
                      (let opened = [Opened Management_Listener, Opened Player_Listener, Opened Relay_Socket] in
                       case server_assemble A config rooms tokens lobbies socket local_port of
                         Inl err \<Rightarrow> (Inl err, opened @ [Closed Management_Listener, Closed Player_Listener, Closed Relay_Socket])
                       | Inr sv \<Rightarrow> (Inr sv, opened))))))
   | _ \<Rightarrow> (Inl Server_Invalid_Config, []))"

section \<open>Lifecycle\<close>

text \<open>\<open>notifyFatal\<close>, \<open>intentionalStop\<close> and \<open>classifyLoopResult\<close>; \<open>ctx_done\<close> is \<open>ctx.Err() != nil\<close>.\<close>

definition notify_fatal :: "('l, 'k) server \<Rightarrow> ('l, 'k) server" where
  "notify_fatal sv = sv\<lparr>sv_fatal_signal := True\<rparr>"

definition intentional_stop :: "bool \<Rightarrow> ('l, 'k) server \<Rightarrow> bool" where
  "intentional_stop ctx_done sv \<longleftrightarrow> ctx_done \<or> sv_close_requested sv"

datatype loop_name = Management_Loop | Player_Loop | Relay_Loop | Sweeper_Loop

record loop_result =
  lr_name :: loop_name
  lr_failed :: bool
  lr_unexpected :: bool

definition classify_loop_result :: "bool \<Rightarrow> loop_name \<Rightarrow> bool \<Rightarrow> ('l, 'k) server \<Rightarrow> loop_result" where
  "classify_loop_result ctx_done name failed sv =
     \<lparr>lr_name = name, lr_failed = failed, lr_unexpected = (\<not> intentional_stop ctx_done sv)\<rparr>"

text \<open>
  \<open>shutdown\<close>. The four \<open>Close\<close> calls of \<open>net/http\<close> and \<open>net\<close> return no error, an error that says "closed
  already" (\<open>http.ErrServerClosed\<close> or \<open>net.ErrClosed\<close>) or another; the relay closes its own socket.
\<close>

datatype close_result = Close_Ok | Close_Server_Closed | Close_Net_Closed | Close_Failed

record close_results =
  cr_management_server :: close_result
  cr_player_server :: close_result
  cr_management_listener :: close_result
  cr_player_listener :: close_result

definition server_shutdown ::
    "('l, 'k) externals \<Rightarrow> close_results \<Rightarrow> ('l, 'k) server \<Rightarrow> ('l, 'k) server \<times> server_error option" where
  "server_shutdown X results sv = (case sv_shutdown sv of
     Some err \<Rightarrow> (sv, err)
   | None \<Rightarrow> (case relay_close X (sv_relay sv) of
       (relay, relay_err) \<Rightarrow>
         (let err = (if cr_management_server results = Close_Failed \<or> cr_player_server results = Close_Failed \<or>
                cr_management_listener results \<notin> {Close_Ok, Close_Net_Closed} \<or>
                cr_player_listener results \<notin> {Close_Ok, Close_Net_Closed} \<or> relay_err \<noteq> None
              then Some Server_Close else None)
          in (sv\<lparr>sv_relay := relay, sv_shutdown := Some err\<rparr>, err))))"

definition server_close ::
    "('l, 'k) externals \<Rightarrow> close_results \<Rightarrow> ('l, 'k) server \<Rightarrow> ('l, 'k) server \<times> server_error option" where
  "server_close X results sv =
     server_shutdown X results (sv\<lparr>sv_close_requested := True, sv_close_signal := True\<rparr>)"

text \<open>
  \<open>coordinateLoopResults\<close>. The first \<open>select\<close> wakes up for one of four reasons; then \<open>stop\<close> runs, and the
  results still missing are received in the order \<open>incoming\<close>; \<open>fatal\<close> says whether the fatal signal has been
  given by the end. It waits for ever (\<^const>\<open>None\<close>) when fewer results arrive.
\<close>

datatype wake = Wake_Context | Wake_Close | Wake_Fatal | Wake_Result loop_result

fun receive_results :: "nat \<Rightarrow> loop_result list \<Rightarrow> bool \<Rightarrow> bool option" where
  "receive_results 0 incoming unexpected = Some unexpected"
| "receive_results (Suc n) [] unexpected = None"
| "receive_results (Suc n) (r # incoming) unexpected =
     receive_results n incoming (if lr_unexpected r then True else unexpected)"

definition coordinate_loop_results ::
    "wake \<Rightarrow> loop_result list \<Rightarrow> bool \<Rightarrow> ('s \<Rightarrow> 's) \<Rightarrow> 's \<Rightarrow> ('s \<times> server_error option) option" where
  "coordinate_loop_results wake incoming fatal stop s =
     (let (received, unexpected) = (case wake of
            Wake_Context \<Rightarrow> (0, False) | Wake_Close \<Rightarrow> (0, False) | Wake_Fatal \<Rightarrow> (0, True)
          | Wake_Result r \<Rightarrow> (1, lr_unexpected r));
          s' = stop s
      in case receive_results (4 - received) incoming unexpected of
        None \<Rightarrow> None
      | Some unexpected' \<Rightarrow> Some (s', if fatal \<or> unexpected' then Some Server_Owned_Loop else None))"

text \<open>The check of the flags with which \<open>Run\<close> begins.\<close>

definition run_admitted :: "bool \<Rightarrow> ('l, 'k) server \<Rightarrow> ('l, 'k) server \<times> (server_error option + unit)" where
  "run_admitted ctx_nil sv =
     (if ctx_nil then (sv, Inl (Some Server_Invalid_Config))
      else if sv_close_requested sv then (sv, Inl None)
      else if sv_run_started sv \<or> sv_finished sv then (sv, Inl (Some Server_Already_Running))
      else (sv\<lparr>sv_run_started := True\<rparr>, Inr ()))"

text \<open>One tick of \<open>runSweeper\<close>: \<open>Expire\<close> of the store and then of the manager.\<close>

definition sweep_tick ::
    "string list \<Rightarrow> prefix list \<Rightarrow> clock_reading \<Rightarrow> clock_reading \<Rightarrow> sweep_order \<Rightarrow> 'l manager \<Rightarrow> 'l manager" where
  "sweep_tick rids keys store_reading lobby_reading ord m =
     lobby_expire lobby_reading ord (m\<lparr>m_relay := expire rids keys (mono store_reading) (m_relay m)\<rparr>)"

end
