(* ===== verification/Admission.thy ===== *)
theory Admission
  imports Main
begin

text \<open>
  The semaphore of the HTTP handlers, as an interface: a request is admitted only while a slot is free, an
  admission takes one slot, a refusal none, and a release gives one back. Whatever the order in which requests
  arrive and finish, the requests being handled are then exactly the slots in use.
\<close>

text \<open>A request arrives, or one of the requests being handled finishes.\<close>

datatype 'q traffic = Arrive 'q | Finish

text \<open>The state of the handler and the number of requests being handled, after a sequence of such events.\<close>

fun traffic_run :: "('q \<Rightarrow> 'h \<Rightarrow> 'h \<times> bool) \<Rightarrow> ('h \<Rightarrow> 'h) \<Rightarrow> 'q traffic list \<Rightarrow> 'h \<times> int \<Rightarrow> 'h \<times> int" where
  "traffic_run admit release [] s = s"
| "traffic_run admit release (Arrive q # es) (h, n) = (case admit q h of
     (h', admitted) \<Rightarrow> traffic_run admit release es (h', if admitted then n + 1 else n))"
| "traffic_run admit release (Finish # es) (h, n) =
     traffic_run admit release es (if n > 0 then (release h, n - 1) else (h, n))"

locale admission =
  fixes admit :: "'q \<Rightarrow> 'h \<Rightarrow> 'h \<times> bool"
    and release :: "'h \<Rightarrow> 'h"
    and used :: "'h \<Rightarrow> int"
    and cap :: "'h \<Rightarrow> int"
  assumes admit_granted: "admit q h = (h', True) \<Longrightarrow> used h < cap h \<and> used h' = used h + 1 \<and> cap h' = cap h"
    and admit_refused: "admit q h = (h', False) \<Longrightarrow> used h' = used h \<and> cap h' = cap h"
    and release_frees: "used (release h) = used h - 1 \<and> cap (release h) = cap h"
begin

lemma slots_are_requests:
  "traffic_run admit release es (h, n) = (h', n') \<Longrightarrow> used h = n \<Longrightarrow> 0 \<le> n \<Longrightarrow> n \<le> cap h \<Longrightarrow>
     used h' = n' \<and> 0 \<le> n' \<and> n' \<le> cap h \<and> cap h' = cap h"
proof (induction es arbitrary: h n)
  case (Cons e es)
  show ?case
  proof (cases e)
    case (Arrive q)
    obtain h1 b where a: "admit q h = (h1, b)" by fastforce
    show ?thesis
    proof (cases b)
      case True
      then show ?thesis
        using Cons.IH [of h1 "n + 1"] Cons.prems Arrive a admit_granted [of q h h1] by simp
    next
      case False
      then show ?thesis
        using Cons.IH [of h1 n] Cons.prems Arrive a admit_refused [of q h h1] by simp
    qed
  next
    case Finish
    show ?thesis
      using Cons.IH [of "release h" "n - 1"] Cons.IH [of h n] Cons.prems Finish release_frees [of h]
      by (cases "n > 0") simp_all
  qed
qed simp

end

end
