(* ===== verification/Http_Demo.thy ===== *)
theory Http_Demo
  imports Player_Http Room_Contract
begin

text \<open>
  Concrete values for the witnesses of the HTTP properties: a library in which a time is written as the decimal
  number of its seconds followed by a \<open>Z\<close>, two handlers, requests with their bodies.
\<close>

definition demo_lib :: go_lib where
  "demo_lib = \<lparr>gl_parse_media_type = Some,
     gl_parse_time = (\<lambda>s. map_option (\<lambda>n. int n * second) (parse_digits 0 (butlast s))),
     gl_format_time = (\<lambda>t. format_uint (nat (t div second)) @ ''Z'')\<rparr>"

text \<open>A body with its quotation marks written as accents.\<close>

definition quoted :: "string \<Rightarrow> byte list" where
  "quoted s = map (\<lambda>b. if b = 94 then 34 else b) (str_bytes s)"

definition demo_control :: "(int \<times> int) control_handler" where
  "demo_control = \<lparr>ch_operator_token = replicate 32 5, ch_advertised_host = ''relay'', ch_advertised_port = 9000,
     ch_player_tokens = \<lparr>pa_key = replicate 32 7, pa_token_ttl = minute\<rparr>,
     ch_limiter = new_limiter bucket (Fin 20) 40, ch_semaphore = 0, ch_max_concurrent = 32, ch_fatal = True\<rparr>"

definition demo_request :: "string \<Rightarrow> string \<Rightarrow> string list \<Rightarrow> byte list \<Rightarrow> http_request" where
  "demo_request rm path credentials body = \<lparr>rq_method = rm, rq_path = path, rq_escaped_path = path,
     rq_query = fmempty, rq_authorization = credentials, rq_content_type = ''application/json'',
     rq_body = Some (Http_Body body False), rq_content_length = int (length body)\<rparr>"

definition demo_operator :: "string list" where
  "demo_operator = [''Bearer '' @ b64_encode (replicate 32 5)]"

definition demo_put_body :: "byte list" where
  "demo_put_body = quoted (''{^capacity^:2, ^expires_at^:^60Z^, ^participants^:['' @
     ''{^participant_id^:^b^,^session_id^:^s2^,^grant_expires_at^:^30Z^},'' @
     ''{^participant_id^:^a^,^session_id^:^s1^,^grant_expires_at^:^60Z^}]}'')"

definition demo_put :: http_request where
  "demo_put = demo_request ''PUT'' ''/v1/rooms/room'' demo_operator demo_put_body"

definition demo_clock :: serving_clock where
  "demo_clock = \<lparr>sc_limiter = 0, sc_store = demo_at 0, sc_auth = 0\<rparr>"

text \<open>The document of that body.\<close>

definition demo_participant_json :: "string \<Rightarrow> string \<Rightarrow> string \<Rightarrow> json" where
  "demo_participant_json p s e = JObject [(''participant_id'', json_string p), (''session_id'', json_string s),
     (''grant_expires_at'', json_string e)]"

definition demo_put_json :: json where
  "demo_put_json = JObject [(''capacity'', JScalar (SNumber ''2'')), (''expires_at'', json_string ''60Z''),
     (''participants'', JArray [demo_participant_json ''b'' ''s2'' ''30Z'', demo_participant_json ''a'' ''s1'' ''60Z''])]"

lemma demo_put_lexemes: "lex demo_put_body = lexemes demo_put_json"
  by code_simp

lemma demo_put_document: "unique_keys demo_put_json" "json_depth demo_put_json \<le> 10000"
  by (simp_all add: demo_put_json_def demo_participant_json_def)

lemmas demo_put_body_accepted = document_of_lexemes [OF demo_put_lexemes demo_put_document]

lemma demo_times: "canonical_utc_time demo_lib ''60Z'' = Some (60 * second)" "canonical_utc_time demo_lib ''30Z'' = Some (30 * second)"
  by (code_simp)+

lemma demo_put_request: "decode_create_room demo_put_json = Some \<lparr>cq_capacity = 2, cq_expires_at = ''60Z'',
    cq_participants = [\<lparr>pq_participant_id = ''b'', pq_session_id = ''s2'', pq_grant_expires_at = ''30Z''\<rparr>,
      \<lparr>pq_participant_id = ''a'', pq_session_id = ''s1'', pq_grant_expires_at = ''60Z''\<rparr>]\<rparr>"
proof -
  have "decode_participant (demo_participant_json p s e) =
      Some \<lparr>pq_participant_id = p, pq_session_id = s, pq_grant_expires_at = e\<rparr>" for p s e
    by (simp add: decode_participant_def demo_participant_json_def)
  moreover have "parse_uint ''2'' = Some 2" by (simp add: parse_uint_def decimal_digit_def Let_def)
  ultimately show ?thesis
    by (simp add: decode_create_room_def demo_put_json_def decode_u32_def)
qed

lemma demo_put_definition: "decode_room_definition demo_lib demo_put_body = Some demo_definition"
proof -
  have "has_exact_room_request_fields demo_put_body"
    unfolding has_exact_room_request_fields_def demo_put_body_accepted(2) by code_simp
  then show ?thesis
    by (simp add: decode_room_definition_def demo_put_body_accepted demo_put_request demo_times demo_definition_def)
qed


definition demo_control_config :: control_config where
  "demo_control_config = \<lparr>cc_operator_token = replicate 32 5,
     cc_player_tokens = Some \<lparr>pa_key = replicate 32 7, pa_token_ttl = minute\<rparr>, cc_advertised_host = ''relay'',
     cc_advertised_port = 9000, cc_request_rate = Fin 20, cc_request_burst = 40, cc_max_concurrent = 32, cc_fatal = True\<rparr>"

definition demo_player_config :: player_config where
  "demo_player_config = \<lparr>pc_auth = Some \<lparr>pa_key = replicate 32 7, pa_token_ttl = minute\<rparr>, pc_advertised_host = ''relay'',
     pc_advertised_port = 9000, pc_request_rate = Fin 100, pc_request_burst = 200, pc_max_concurrent = 64, pc_fatal = True\<rparr>"

lemma demo_handlers:
  "\<exists>h. control_new bucket demo_control_config True = Some h" "\<exists>p. player_new bucket demo_player_config True = Some p"
proof -
  have "case control_new bucket demo_control_config True of None \<Rightarrow> False | Some _ \<Rightarrow> True"
    "case player_new bucket demo_player_config True of None \<Rightarrow> False | Some _ \<Rightarrow> True" by code_simp+
  then show "\<exists>h. control_new bucket demo_control_config True = Some h" "\<exists>p. player_new bucket demo_player_config True = Some p"
    by (auto split: option.splits)
qed

text \<open>A token request, and a player who carries a token of the same authority.\<close>

definition demo_token_body :: "byte list" where
  "demo_token_body = quoted ''{^player_id^:^alice^}''"

definition demo_token_request :: http_request where
  "demo_token_request = demo_request ''POST'' ''/v1/player-tokens'' demo_operator demo_token_body"

definition demo_token_json :: json where
  "demo_token_json = JObject [(''player_id'', json_string ''alice'')]"

lemma demo_token_decoded:
  "decode_exact_json demo_lib decode_token_request [''player_id''] demo_token_request w = Some (Inr ''alice'')"
proof -
  have ls: "lex demo_token_body = lexemes demo_token_json" and len: "length demo_token_body \<le> 300" by code_simp+
  have "unique_keys demo_token_json" "json_depth demo_token_json \<le> 10000" by (simp_all add: demo_token_json_def)
  note body = document_of_lexemes [OF ls this]
  have keys: "has_exact_keys (the (raw_object demo_token_json)) [''player_id'']" by code_simp
  obtain obj where obj: "raw_object demo_token_json = Some obj" by (simp add: demo_token_json_def)
  have "decode_token_request demo_token_json = Some ''alice''"
    by (simp add: demo_token_json_def decode_token_request_def)
  then show ?thesis
    using len keys body
    by (simp add: obj decode_exact_json_def demo_token_request_def demo_request_def demo_lib_def maxRequestBodyBytes_def)
qed

definition demo_issuer :: player_auth where
  "demo_issuer = \<lparr>pa_key = replicate 32 7, pa_token_ttl = minute\<rparr>"

definition demo_player :: "(int \<times> int) player_handler" where
  "demo_player = \<lparr>ph_auth = demo_issuer, ph_advertised_host = ''relay'', ph_advertised_port = 9000,
     ph_limiter = new_limiter bucket (Fin 100) 200, ph_semaphore = 0, ph_max_concurrent = 64, ph_fatal = True\<rparr>"

definition demo_player_clock :: player_clock where
  "demo_player_clock = \<lparr>pk_limiter = 0, pk_auth = 0, pk_manager = demo_at 0, pk_sweep = ([], []), pk_list = []\<rparr>"

definition demo_ticket_query :: http_request where
  "demo_ticket_query = (demo_request ''GET'' ''/v1/matchmaking/tickets/me''
     [''Bearer '' @ token_of demo_hmac (pa_key demo_issuer) minute ''alice''] [])"

lemma demo_token_issued:
  "\<exists>w'. post_player_token demo_lib demo_hmac 0 demo_token_request demo_control w = Some w' \<and> hw_status w' = 201"
proof -
  have "valid_id ''alice''" by code_simp
  then have "\<exists>token c. issue demo_hmac (Some (ch_player_tokens demo_control)) ''alice'' 0 = Inr (token, c)"
    by (simp add: issue_def Let_def demo_control_def i64_id in_i64_def)
  then show ?thesis by (auto simp: post_player_token_def demo_token_decoded \<open>valid_id ''alice''\<close>)
qed

definition demo_lobbies :: "(int \<times> int) manager" where
  "demo_lobbies = (case manager_new bucket (Some demo_start) (\<lambda>_. demo_at 0) (map of_nat [0..<200]) of Inr m \<Rightarrow> m)"

lemma demo_player_authorized:
  "player_authorize demo_hmac 0 demo_ticket_query demo_player = Some \<lparr>cl_player_id = ''alice'', cl_expires_at = minute\<rparr>"
proof -
  have "valid_id ''alice''" by code_simp
  then show ?thesis
    using verify_token_of [where H = demo_hmac, OF length_demo_hmac, of "''alice''" minute demo_issuer 0]
    by (simp add: player_authorize_def demo_ticket_query_def demo_request_def cut_prefix_def demo_player_def)
qed

end
