(* ===== verification/Http_Properties.thy ===== *)
theory Http_Properties
  imports Admission Http_Demo
begin

text \<open>
  What the two HTTP handlers promise: who may call them, which operation of the store or of the lobby manager a
  request becomes, which status answers it, and how many requests run at once.
\<close>

section \<open>The management API\<close>

lemma filter_same_length: "length (filter P xs) = length xs \<Longrightarrow> filter P xs = xs"
  by (metis filter_True length_filter_less order_less_irrefl)

lemma operator_token_iff:
  "parse_operator_token s = Some t \<longleftrightarrow> s = b64_encode t \<and> length t = 32 \<and> t \<noteq> replicate 32 0"
proof -
  have len: "length (b64_encode bs) = 43" if "length bs = 32" for bs
    using that by (simp add: length_encode b64_encoded_len_def)
  have "s = b64_encode t" if "length s = 43" "b64_decode_strict s = Some t" "length t = 32"
    using that filter_same_length [of "\<lambda>c. c \<notin> {CHR 0x0A, CHR 0x0D}" s] len [of t] by (simp add: b64_decode_strict_Some)
  then show ?thesis
    using len [of t] b64_round_trip [of t]
    by (auto simp: parse_operator_token_def split: option.splits if_splits)
qed

text \<open>C29: the operator token has exactly one spelling: a text is accepted, as a given token, exactly when it is the
  unpadded URL-safe Base64 of that token, and the token has 32 bytes that are not all zero. Line breaks, padding
  and trailing bits, which a lenient decoder takes, are refused.\<close>

theorem operator_token_canonical:
  "parse_operator_token s = Some t \<longleftrightarrow> s = b64_encode t \<and> length t = 32 \<and> t \<noteq> replicate 32 0"
  by (rule operator_token_iff)

lemma authorized_iff:
  assumes "length t = 32"
  shows "authorized rq t \<longleftrightarrow> rq_authorization rq = [''Bearer '' @ b64_encode t] \<and> t \<noteq> replicate 32 0"
proof -
  have "authorized rq t \<longleftrightarrow> (\<exists>v. rq_authorization rq = [v] \<and> Option.bind (cut_prefix ''Bearer '' v) parse_operator_token = Some t)"
    by (auto simp: authorized_def Let_def split: list.splits option.splits)
  then show ?thesis using assms by (auto simp: bind_eq_Some_conv cut_prefix_Some operator_token_iff)
qed

lemma new_writer_fields [simp]: "hw_fatal new_writer = False" "hw_status new_writer = 200"
  by (simp_all add: new_writer_def)

lemma control_admit_unauthorized:
  "\<not> authorized rq (ch_operator_token h) \<Longrightarrow>
     \<exists>w. control_admit A now rq h = (h, Inl w) \<and> hw_status w \<in> {401, 404} \<and> \<not> hw_fatal w"
  by (simp add: control_admit_def Let_def split: prod.split)

text \<open>C30: without the operator's credential nothing happens: a request whose only \<open>Authorization\<close> header is not
  the operator token in its one spelling is answered 404 or 401, the store is left as it is, and not even the
  rate limiter is charged.\<close>

theorem control_requires_operator:
  assumes "length (ch_operator_token h) = 32"
    and "rq_authorization rq \<noteq> [''Bearer '' @ b64_encode (ch_operator_token h)]"
  shows "\<exists>w. control_serve G A H clk rq h st = Some (h, st, w) \<and> hw_status w \<in> {401, 404} \<and> \<not> hw_fatal w"
proof -
  have "\<not> authorized rq (ch_operator_token h)" using assms by (simp add: authorized_iff)
  from control_admit_unauthorized [OF this, of A "sc_limiter clk"] show ?thesis by (auto simp: control_serve_def)
qed

theorem control_requires_operator_witness:
  "\<exists>w. control_serve demo_lib bucket demo_hmac demo_clock (demo_request ''DELETE'' ''/v1/rooms/room'' [''Bearer x''] []) demo_control demo_start =
     Some (demo_control, demo_start, w) \<and> hw_status w \<in> {401, 404}"
proof -
  let ?rq = "demo_request ''DELETE'' ''/v1/rooms/room'' [''Bearer x''] []"
  have "length (ch_operator_token demo_control) = 32" by (simp add: demo_control_def)
  moreover have "rq_authorization ?rq \<noteq> [''Bearer '' @ b64_encode (ch_operator_token demo_control)]" by code_simp
  ultimately show ?thesis using control_requires_operator [where h = demo_control and rq = ?rq and G = demo_lib and A = bucket and H = demo_hmac and clk = demo_clock and st = demo_start] by blast
qed

text \<open>The operation of the store that an admitted request asks for.\<close>

definition requested_definition :: "go_lib \<Rightarrow> http_request \<Rightarrow> room_definition option" where
  "requested_definition G rq = (case rq_body rq of
     Some source \<Rightarrow> (case read_limited maxRequestBodyBytes source of
         Inr body \<Rightarrow> if gl_parse_media_type G (rq_content_type rq) = Some ''application/json''
           then decode_room_definition G body else None
       | Inl _ \<Rightarrow> None)
   | None \<Rightarrow> None)"

definition requested_op :: "go_lib \<Rightarrow> http_request \<Rightarrow> store_op option" where
  "requested_op G rq =
     (if token_route rq then None
      else if rq_method rq = ''PUT''
      then map_option (Create_Room (fst (canonical_room_path rq))) (requested_definition G rq)
      else if rq_method rq = ''DELETE'' \<and> \<not> request_has_body rq then Some (End_Room (fst (canonical_room_path rq)))
      else None)"

text \<open>The status that answers what the store said.\<close>

fun store_status :: "store_error \<Rightarrow> nat" where
  "store_status ErrInvalid = 400"
| "store_status ErrNotFound = 404"
| "store_status ErrConflict = 409"
| "store_status ErrCapacity = 422"
| "store_status ErrFatalRandom = 500"

fun response_status :: "store_response \<Rightarrow> nat" where
  "response_status (Created (Inr (al, True))) = 201"
| "response_status (Created (Inr (al, False))) = 200"
| "response_status (Created (Inl err)) = store_status err"
| "response_status (Ended None) = 204"
| "response_status (Ended (Some err)) = store_status err"
| "response_status _ = 200"

lemma write_store_error_status [simp]:
  "hw_status (write_store_error err w) = store_status err" "hw_fatal (write_store_error err w) = hw_fatal w"
  by (cases err; simp)+

lemma control_admitted:
  assumes "control_admit A now rq h = (h1, Inr w)"
  shows "w = set_header ''Cache-Control'' ''no-store'' new_writer" and "ch_fatal h1 = ch_fatal h"
    and "ch_semaphore h < ch_max_concurrent h" and "ch_semaphore h1 = ch_semaphore h + 1"
    and "ch_max_concurrent h1 = ch_max_concurrent h"
    and "authorized rq (ch_operator_token h)"
  using assms by (auto simp: control_admit_def Let_def split: prod.splits if_splits)

lemma put_room_spec:
  assumes "rq_body rq \<noteq> None" and "\<not> hw_fatal w" and "reading_ok reading"
  shows "case requested_definition G rq of
      None \<Rightarrow> (\<exists>w'. put_room G A rid reading rq h st w = Some (st, w') \<and> hw_status w' \<in> {400, 413, 415} \<and> \<not> hw_fatal w')
    | Some d \<Rightarrow> (\<exists>st' r w'. store_step A H st (Create_Room rid d, reading, r) st' \<and>
        put_room G A rid reading rq h st w = Some (st', w') \<and> hw_status w' = response_status r \<and>
        (hw_fatal w' \<longleftrightarrow> r = Created (Inl ErrFatalRandom) \<and> ch_fatal h))"
proof (cases "requested_definition G rq")
  case None
  then show ?thesis
    using assms by (auto simp: put_room_def requested_definition_def split: sum.splits body_error.splits option.splits)
next
  case (Some d)
  obtain st' res where cr: "create_room A rid d reading st = (st', res)" by fastforce
  have "store_step A H st (Create_Room rid d, reading, Created res) st'"
    using assms(3) cr by (auto intro: store_step)
  moreover have "\<exists>w'. put_room G A rid reading rq h st w = Some (st', w') \<and> hw_status w' = response_status (Created res) \<and>
      (hw_fatal w' \<longleftrightarrow> Created res = Created (Inl ErrFatalRandom) \<and> ch_fatal h)"
    using Some assms(2) cr
    by (cases res) (auto simp: put_room_def requested_definition_def split: option.splits sum.splits if_splits)
  ultimately show ?thesis using Some by auto
qed


lemma decode_exact_json_returns:
  assumes "rq_body rq \<noteq> None"
  obtains (refused) w' where "decode_exact_json G target keys rq w = Some (Inl w')" "hw_status w' \<in> {400, 413, 415}" "hw_fatal w' = hw_fatal w"
  | (decoded) v where "decode_exact_json G target keys rq w = Some (Inr v)"
proof -
  have "\<exists>x. decode_exact_json G target keys rq w = Some x \<and>
      (\<forall>w'. x = Inl w' \<longrightarrow> hw_status w' \<in> {400, 413, 415} \<and> hw_fatal w' = hw_fatal w)"
    using assms by (auto simp: decode_exact_json_def split: option.splits sum.splits body_error.splits)
  then obtain x where "decode_exact_json G target keys rq w = Some x"
      "\<forall>w'. x = Inl w' \<longrightarrow> hw_status w' \<in> {400, 413, 415} \<and> hw_fatal w' = hw_fatal w" by blast
  then show ?thesis using that by (cases x) auto
qed

lemma post_player_token_returns:
  assumes "rq_body rq \<noteq> None"
  shows "\<exists>w'. post_player_token G H now rq h w = Some w'"
proof (rule decode_exact_json_returns [OF assms, of G decode_token_request "[''player_id'']" w])
  fix player_id assume "decode_exact_json G decode_token_request [''player_id''] rq w = Some (Inr player_id)"
  then show ?thesis
    by (cases "issue H (Some (ch_player_tokens h)) player_id now") (auto simp: post_player_token_def)
qed (simp add: post_player_token_def)

lemma control_serve_spec:
  assumes "rq_body rq \<noteq> None" and "reading_ok (sc_store clk)"
  shows "case control_admit A (sc_limiter clk) rq h of
      (h1, Inl refused) \<Rightarrow> control_serve G A H clk rq h st = Some (h1, st, refused)
    | (h1, Inr w0) \<Rightarrow> (case requested_op G rq of
        None \<Rightarrow> (\<exists>w. control_serve G A H clk rq h st = Some (control_release h1, st, w))
      | Some op \<Rightarrow> (\<exists>st' r w. store_step A H st (op, sc_store clk, r) st' \<and>
          control_serve G A H clk rq h st = Some (control_release h1, st', w) \<and>
          hw_status w = response_status r \<and> (hw_fatal w \<longleftrightarrow> r = Created (Inl ErrFatalRandom) \<and> ch_fatal h)))"
proof -
  obtain h1 x where a: "control_admit A (sc_limiter clk) rq h = (h1, x)" by fastforce
  let ?rid = "fst (canonical_room_path rq)"
  show ?thesis
  proof (cases x)
    case (Inr w0)
    note adm = control_admitted [OF a [unfolded Inr]]
    have w0: "\<not> hw_fatal w0" "hw_status w0 = 200" by (simp_all add: adm(1))
    have serve: "control_serve G A H clk rq h st = Some (control_release h1, st', w)"
      if "control_dispatch G A H clk rq h1 st w0 = Some (st', w)" for st' w
      using that by (simp add: control_serve_def a Inr)
    consider (token) "token_route rq" | (put) "\<not> token_route rq" "rq_method rq = ''PUT''"
      | (delete) "\<not> token_route rq" "rq_method rq = ''DELETE''" "\<not> request_has_body rq"
      | (other) "\<not> token_route rq" "rq_method rq \<noteq> ''PUT''" "rq_method rq = ''DELETE'' \<longrightarrow> request_has_body rq"
      by blast
    then show ?thesis
    proof cases
      case token
      then have "\<exists>w. control_dispatch G A H clk rq h1 st w0 = Some (st, w)"
        using post_player_token_returns [OF assms(1), of G H "sc_auth clk" h1 w0] by (auto simp: control_dispatch_def Let_def)
      then show ?thesis using token serve by (auto simp: a Inr requested_op_def)
    next
      case put
      have d: "control_dispatch G A H clk rq h1 st w0 = put_room G A ?rid (sc_store clk) rq h1 st w0"
        using put by (simp add: control_dispatch_def Let_def)
      show ?thesis
      proof (cases "requested_definition G rq")
        case None
        then show ?thesis
          using put_room_spec [OF assms(1) w0(1) assms(2), of G A ?rid h1 st H] serve put d
          by (auto simp: a Inr requested_op_def)
      next
        case (Some d')
        from put_room_spec [OF assms(1) w0(1) assms(2), of G A ?rid h1 st H] Some adm(2)
        obtain st' r w where "store_step A H st (Create_Room ?rid d', sc_store clk, r) st'"
          "put_room G A ?rid (sc_store clk) rq h1 st w0 = Some (st', w)" "hw_status w = response_status r"
          "hw_fatal w \<longleftrightarrow> r = Created (Inl ErrFatalRandom) \<and> ch_fatal h" by auto
        then show ?thesis
          using serve put d Some by (auto simp: a Inr requested_op_def intro!: exI [of _ st'] exI [of _ r])
      qed
    next
      case delete
      obtain st' e where e: "end_room ?rid (sc_store clk) st = (st', e)" by fastforce
      have "store_step A H st (End_Room ?rid, sc_store clk, Ended e) st'" using assms(2) e by (auto intro: store_step)
      moreover have "\<exists>w. control_dispatch G A H clk rq h1 st w0 = Some (st', w) \<and> hw_status w = response_status (Ended e) \<and> \<not> hw_fatal w"
        using delete e w0 by (cases e) (auto simp: control_dispatch_def Let_def delete_room_def)
      ultimately show ?thesis
        using serve delete by (auto simp: a Inr requested_op_def intro!: exI [of _ st'] exI [of _ "Ended e"])
    next
      case other
      then have "\<exists>w. control_dispatch G A H clk rq h1 st w0 = Some (st, w)"
        by (auto simp: control_dispatch_def Let_def)
      then show ?thesis using other serve by (auto simp: a Inr requested_op_def)
    qed
  qed (simp add: control_serve_def a)
qed

text \<open>The operation that \<open>demo_put\<close> asks for.\<close>

lemma demo_put_requested:
  "requested_op demo_lib demo_put = Some (Create_Room ''room'' demo_definition)" "rq_body demo_put \<noteq> None"
  "reading_ok (sc_store demo_clock)" "sc_limiter demo_clock = 0" "sc_store demo_clock = demo_at 0"
proof -
  have "length demo_put_body \<le> 300" by code_simp
  then have "requested_definition demo_lib demo_put = Some demo_definition"
    using demo_put_definition
    by (simp add: requested_definition_def demo_put_def demo_request_def maxRequestBodyBytes_def demo_lib_def)
  moreover have "\<not> token_route demo_put" "fst (canonical_room_path demo_put) = ''room''" "rq_method demo_put = ''PUT''"
    "rq_body demo_put \<noteq> None" by code_simp+
  ultimately show "requested_op demo_lib demo_put = Some (Create_Room ''room'' demo_definition)" "rq_body demo_put \<noteq> None"
    by (simp_all add: requested_op_def)
qed (simp_all add: demo_clock_def in_i64_def)

text \<open>C31: the management API refines the store: a refused request leaves the store alone; an admitted \<open>PUT\<close>
  with a decodable body and an admitted \<open>DELETE\<close> without one are exactly one step of the store, for the room
  named in the path, and the status is that of the store's answer (the process is told to stop exactly when the
  store ran out of randomness); every other admitted request leaves the store alone. No request panics.\<close>

theorem control_refines_store:
  assumes "rq_body rq \<noteq> None" and "reading_ok (sc_store clk)"
  shows "case control_admit A (sc_limiter clk) rq h of
      (h1, Inl refused) \<Rightarrow> control_serve G A H clk rq h st = Some (h1, st, refused)
    | (h1, Inr w0) \<Rightarrow> (case requested_op G rq of
        None \<Rightarrow> (\<exists>w. control_serve G A H clk rq h st = Some (control_release h1, st, w))
      | Some op \<Rightarrow> (\<exists>st' r w. store_step A H st (op, sc_store clk, r) st' \<and>
          control_serve G A H clk rq h st = Some (control_release h1, st', w) \<and>
          hw_status w = response_status r \<and> (hw_fatal w \<longleftrightarrow> r = Created (Inl ErrFatalRandom) \<and> ch_fatal h)))"
  using assms by (rule control_serve_spec)


theorem control_refines_store_witness:
  "\<exists>h st w. control_serve demo_lib bucket demo_hmac demo_clock demo_put demo_control demo_start = Some (h, st, w) \<and> hw_status w = 201"
proof -
  have "fst (case snd (control_admit bucket (sc_limiter demo_clock) demo_put demo_control) of Inl w \<Rightarrow> (False, w) | Inr w \<Rightarrow> (True, w))"
    by code_simp
  then obtain h1 w0 where adm: "control_admit bucket (sc_limiter demo_clock) demo_put demo_control = (h1, Inr w0)"
    by (cases "control_admit bucket (sc_limiter demo_clock) demo_put demo_control") (auto split: sum.splits)
  note op = demo_put_requested(1,2) and clk = demo_put_requested(5,3)
  obtain st' r w where s: "store_step bucket demo_hmac demo_start (Create_Room ''room'' demo_definition, demo_at 0, r) st'"
    "control_serve demo_lib bucket demo_hmac demo_clock demo_put demo_control demo_start = Some (control_release h1, st', w)"
    "hw_status w = response_status r"
    using control_refines_store [OF op(2) clk(2), where A = bucket and h = demo_control and G = demo_lib and H = demo_hmac and st = demo_start] op(1) clk(1)
    by (auto simp: adm)
  moreover obtain st2 al where "create_room bucket ''room'' demo_definition (demo_at 0) demo_start = (st2, Inr (al, True))"
    using demo_created by blast
  ultimately show ?thesis by (auto simp: store_step_iff)
qed


section \<open>The player API\<close>

text \<open>The player an operation of the manager acts for, and the status that answers it.\<close>

fun acts_for :: "string \<Rightarrow> lobby_op \<Rightarrow> bool" where
  "acts_for p (L_Create q _) = (q = p)"
| "acts_for p (L_List _ _ _ _) = True"
| "acts_for p (L_Get q _) = (q = p)"
| "acts_for p (L_Join q _ _) = (q = p)"
| "acts_for p (L_Leave q _ _) = (q = p)"
| "acts_for p (L_Set_Ready q _ _ _) = (q = p)"
| "acts_for p (L_Start q _ _) = (q = p)"
| "acts_for p L_Expire = False"
| "acts_for p (L_Enqueue q _) = (q = p)"
| "acts_for p (L_Get_Ticket q) = (q = p)"
| "acts_for p (L_Cancel_Ticket q _) = (q = p)"

fun success_status :: "lobby_op \<Rightarrow> nat" where
  "success_status (L_Create _ _) = 201"
| "success_status (L_Enqueue _ _) = 201"
| "success_status _ = 200"

fun lobby_status :: "lobby_error \<Rightarrow> nat" where
  "lobby_status LobbyInvalid = 400"
| "lobby_status LobbyNotFound = 404"
| "lobby_status LobbyConflict = 409"
| "lobby_status LobbyForbidden = 403"
| "lobby_status LobbyCapacity = 409"
| "lobby_status LobbyUnavailable = 503"
| "lobby_status LobbyFatalRandom = 500"

definition error_of :: "lobby_error + 'a \<Rightarrow> lobby_error option" where
  "error_of r = (case r of Inl err \<Rightarrow> Some err | Inr _ \<Rightarrow> None)"

fun response_error :: "lobby_response \<Rightarrow> lobby_error option" where
  "response_error (R_Lobby r) = error_of r"
| "response_error (R_Page r) = error_of r"
| "response_error (R_Assignment r) = error_of r"
| "response_error (R_Ticket r) = error_of r"
| "response_error R_Done = None"

definition answer_status :: "lobby_op \<Rightarrow> lobby_response \<Rightarrow> nat" where
  "answer_status op r = (case response_error r of None \<Rightarrow> success_status op | Some err \<Rightarrow> lobby_status err)"

text \<open>What a route may do: refuse and leave the manager alone, or make one call for the player.\<close>

definition refused_by_api :: "http_writer \<Rightarrow> bool" where
  "refused_by_api w \<longleftrightarrow> hw_status w \<in> {400, 401, 404, 405, 413, 415, 429} \<and> \<not> hw_fatal w"

definition answers :: "clock_reading \<Rightarrow> sweep_order \<Rightarrow> bool \<Rightarrow> string \<Rightarrow> 'l manager \<Rightarrow> 'l manager \<Rightarrow> http_writer \<Rightarrow> bool" where
  "answers reading ord registered p m m' w \<longleftrightarrow> (\<exists>op r. acts_for p op \<and> lobby_perform op reading ord m = Some (m', r) \<and>
     hw_status w = answer_status op r \<and> (hw_fatal w \<longleftrightarrow> response_error r = Some LobbyFatalRandom \<and> registered))"

definition route_ok :: "player_clock \<Rightarrow> http_request \<Rightarrow> 'l player_handler \<Rightarrow> string \<Rightarrow> 'l manager \<Rightarrow> 'l routed \<Rightarrow> bool" where
  "route_ok clk rq h p m res \<longleftrightarrow> (case res of
     None \<Rightarrow> rq_body rq = None \<or> \<not> manager_inv m
   | Some (m', w) \<Rightarrow> m' = m \<and> refused_by_api w \<or> answers (pk_manager clk) (pk_sweep clk) (ph_fatal h) p m m' w)"

lemma route_refused:
  "\<not> hw_fatal w \<Longrightarrow> route_ok clk rq h p m (Some (m, invalid_request w))"
  "\<not> hw_fatal w \<Longrightarrow> route_ok clk rq h p m (Some (m, resource_not_found w))"
  "\<not> hw_fatal w \<Longrightarrow> route_ok clk rq h p m (Some (m, method_not_allowed allow w))"
  "refused_by_api w \<Longrightarrow> route_ok clk rq h p m (Some (m, w))"
  by (simp_all add: route_ok_def refused_by_api_def resource_not_found_def method_not_allowed_def)

lemma write_result_fields:
  "hw_status (write_result h s (map_sum id f res) w) = (case error_of res of None \<Rightarrow> s | Some err \<Rightarrow> lobby_status err)"
  "\<not> hw_fatal w \<Longrightarrow> hw_fatal (write_result h s (map_sum id f res) w) \<longleftrightarrow> error_of res = Some LobbyFatalRandom \<and> ph_fatal h"
  by (cases res; simp add: error_of_def split: lobby_error.split)+

lemma route_answered:
  assumes "lobby_perform op (pk_manager clk) (pk_sweep clk) m = Some (m', r)" and "acts_for p op"
    and "response_error r = error_of res" and "s = success_status op" and "\<not> hw_fatal w"
  shows "route_ok clk rq h p m (Some (m', write_result h s (map_sum id f res) w))"
  using assms unfolding route_ok_def answers_def
  by (auto simp: write_result_fields answer_status_def intro!: exI [of _ op] exI [of _ r])

lemma route_decoded:
  assumes "\<not> hw_fatal w" and "\<And>v. route_ok clk rq h p m (body v)"
  shows "route_ok clk rq h p m (case decode_exact G target keys rq w of
      None \<Rightarrow> None | Some (Inl refused) \<Rightarrow> Some (m, refused) | Some (Inr v) \<Rightarrow> body v)"
proof (cases "rq_body rq")
  case None
  have "decode_exact G target keys rq w = None \<or> (\<exists>w'. decode_exact G target keys rq w = Some (Inl w') \<and> refused_by_api w')"
    using None assms(1) by (auto simp: decode_exact_def decode_exact_json_def refused_by_api_def)
  then show ?thesis using None by (auto simp: route_ok_def)
next
  case (Some b)
  then have "rq_body rq \<noteq> None" by simp
  then show ?thesis
    by (rule decode_exact_json_returns [of rq G target keys w])
      (use assms in \<open>auto simp: decode_exact_def refused_by_api_def intro!: route_refused(4)\<close>)
qed


text \<open>The calls of the routes.\<close>

lemma call_answered:
  assumes "\<not> hw_fatal w"
  shows "route_ok clk rq h p m (case lobby_create p q (pk_manager clk) (pk_sweep clk) m of (m', res) \<Rightarrow>
       Some (m', write_result h 201 (map_sum id f res) w))"
    and "route_ok clk rq h p m (case lobby_list key cursor limit (pk_manager clk) (pk_sweep clk) (pk_list clk) m of (m', res) \<Rightarrow>
       Some (m', write_result h 200 (map_sum id g res) w))"
    and "route_ok clk rq h p m (case lobby_get p i (pk_manager clk) (pk_sweep clk) m of (m', res) \<Rightarrow>
       Some (m', write_result h 200 (map_sum id f res) w))"
    and "route_ok clk rq h p m (case lobby_set_ready p i revision ready (pk_manager clk) (pk_sweep clk) m of (m', res) \<Rightarrow>
       Some (m', write_result h 200 (map_sum id f res) w))"
    and "route_ok clk rq h p m (case get_ticket p (pk_manager clk) (pk_sweep clk) m of (m', res) \<Rightarrow>
       Some (m', write_result h 200 (map_sum id k res) w))"
    and "route_ok clk rq h p m (case cancel_ticket p revision (pk_manager clk) (pk_sweep clk) m of (m', res) \<Rightarrow>
       Some (m', write_result h 200 (map_sum id k res) w))"
proof -
  show "route_ok clk rq h p m (case lobby_create p q (pk_manager clk) (pk_sweep clk) m of (m', res) \<Rightarrow>
       Some (m', write_result h 201 (map_sum id f res) w))"
    by (cases "lobby_create p q (pk_manager clk) (pk_sweep clk) m")
      (simp add: assms route_answered [of "L_Create p q" _ _ _ "R_Lobby res" p res for res])
  show "route_ok clk rq h p m (case lobby_list key cursor limit (pk_manager clk) (pk_sweep clk) (pk_list clk) m of (m', res) \<Rightarrow>
       Some (m', write_result h 200 (map_sum id g res) w))"
    by (cases "lobby_list key cursor limit (pk_manager clk) (pk_sweep clk) (pk_list clk) m")
      (simp add: assms route_answered [of "L_List key cursor limit (pk_list clk)" _ _ _ "R_Page res" p res for res])
  show "route_ok clk rq h p m (case lobby_get p i (pk_manager clk) (pk_sweep clk) m of (m', res) \<Rightarrow>
       Some (m', write_result h 200 (map_sum id f res) w))"
    by (cases "lobby_get p i (pk_manager clk) (pk_sweep clk) m")
      (simp add: assms route_answered [of "L_Get p i" _ _ _ "R_Lobby res" p res for res])
  show "route_ok clk rq h p m (case lobby_set_ready p i revision ready (pk_manager clk) (pk_sweep clk) m of (m', res) \<Rightarrow>
       Some (m', write_result h 200 (map_sum id f res) w))"
    by (cases "lobby_set_ready p i revision ready (pk_manager clk) (pk_sweep clk) m")
      (simp add: assms route_answered [of "L_Set_Ready p i revision ready" _ _ _ "R_Lobby res" p res for res])
  show "route_ok clk rq h p m (case get_ticket p (pk_manager clk) (pk_sweep clk) m of (m', res) \<Rightarrow>
       Some (m', write_result h 200 (map_sum id k res) w))"
    by (cases "get_ticket p (pk_manager clk) (pk_sweep clk) m")
      (simp add: assms route_answered [of "L_Get_Ticket p" _ _ _ "R_Ticket res" p res for res])
  show "route_ok clk rq h p m (case cancel_ticket p revision (pk_manager clk) (pk_sweep clk) m of (m', res) \<Rightarrow>
       Some (m', write_result h 200 (map_sum id k res) w))"
    by (cases "cancel_ticket p revision (pk_manager clk) (pk_sweep clk) m")
      (simp add: assms route_answered [of "L_Cancel_Ticket p revision" _ _ _ "R_Ticket res" p res for res])
qed

lemma enqueue_answered:
  assumes "\<not> hw_fatal w"
  shows "route_ok clk rq h p m (case enqueue p e (pk_manager clk) (pk_sweep clk) m of
      None \<Rightarrow> None | Some (m', res) \<Rightarrow> Some (m', write_result h 201 (map_sum id k res) w))"
proof (cases "enqueue p e (pk_manager clk) (pk_sweep clk) m")
  case None
  then have "\<not> manager_inv m" using enqueue_total [of m p e "pk_manager clk" "pk_sweep clk"] by auto
  then show ?thesis by (simp add: None route_ok_def)
next
  case (Some x)
  then show ?thesis
    by (cases x) (simp add: assms route_answered [of "L_Enqueue p e" _ _ _ "R_Ticket res" p res for res])
qed

lemma revision_answered:
  assumes "\<not> hw_fatal w"
  shows "route_ok clk rq h p m (revision_route G rq meth (\<lambda>revision. map_prod id (map_sum id Lobby_Result)
        (lobby_join p i revision (pk_manager clk) (pk_sweep clk) m)) h m w)"
    and "route_ok clk rq h p m (revision_route G rq meth (\<lambda>revision. map_prod id (map_sum id Lobby_Result)
        (lobby_leave p i revision (pk_manager clk) (pk_sweep clk) m)) h m w)"
    and "route_ok clk rq h p m (revision_route G rq meth (\<lambda>revision. map_prod id (map_sum id Assignment_Result)
        (lobby_start p i revision (pk_manager clk) (pk_sweep clk) m)) h m w)"
proof -
  have split: "route_ok clk rq h p m (case map_prod id (map_sum id R) call of (m', res) \<Rightarrow>
      Some (m', write_result h 200 (map_sum id (player_response G h) res) w))"
    if "\<And>m' res. call = (m', res) \<Longrightarrow> route_ok clk rq h p m (Some (m', write_result h 200 (map_sum id (player_response G h \<circ> R) res) w))"
    for R and call :: "'a manager \<times> (lobby_error + 'b)"
    using that by (cases call) (simp add: map_sum.comp sum.map_comp)
  have join: "route_ok clk rq h p m (case map_prod id (map_sum id Lobby_Result)
      (lobby_join p i revision (pk_manager clk) (pk_sweep clk) m) of (m', res) \<Rightarrow>
      Some (m', write_result h 200 (map_sum id (player_response G h) res) w))" for revision
    by (rule split) (simp add: assms route_answered [of "L_Join p i revision" _ _ _ "R_Lobby res" p res for res])
  have leave: "route_ok clk rq h p m (case map_prod id (map_sum id Lobby_Result)
      (lobby_leave p i revision (pk_manager clk) (pk_sweep clk) m) of (m', res) \<Rightarrow>
      Some (m', write_result h 200 (map_sum id (player_response G h) res) w))" for revision
    by (rule split) (simp add: assms route_answered [of "L_Leave p i revision" _ _ _ "R_Lobby res" p res for res])
  have start: "route_ok clk rq h p m (case map_prod id (map_sum id Assignment_Result)
      (lobby_start p i revision (pk_manager clk) (pk_sweep clk) m) of (m', res) \<Rightarrow>
      Some (m', write_result h 200 (map_sum id (player_response G h) res) w))" for revision
    by (rule split) (simp add: assms route_answered [of "L_Start p i revision" _ _ _ "R_Assignment res" p res for res])
  show "route_ok clk rq h p m (revision_route G rq meth (\<lambda>revision. map_prod id (map_sum id Lobby_Result)
        (lobby_join p i revision (pk_manager clk) (pk_sweep clk) m)) h m w)"
    and "route_ok clk rq h p m (revision_route G rq meth (\<lambda>revision. map_prod id (map_sum id Lobby_Result)
        (lobby_leave p i revision (pk_manager clk) (pk_sweep clk) m)) h m w)"
    and "route_ok clk rq h p m (revision_route G rq meth (\<lambda>revision. map_prod id (map_sum id Assignment_Result)
        (lobby_start p i revision (pk_manager clk) (pk_sweep clk) m)) h m w)"
    unfolding revision_route_def
    by (auto intro!: route_refused(1-3) [OF assms] route_decoded assms join leave start split: if_split)
qed

lemma routes_ok:
  assumes w: "\<not> hw_fatal w"
  shows "route_ok clk rq h p m (lobbies_post G clk rq p h m w)"
    and "route_ok clk rq h p m (lobbies_get G clk rq h m w)"
    and "route_ok clk rq h p m (one_lobby_route G clk rq p i h m w)"
    and "route_ok clk rq h p m (ready_route G clk rq p i h m w)"
    and "route_ok clk rq h p m (my_ticket_route G clk rq p h m w)"
    and "route_ok clk rq h p m (tickets_route G clk rq p h m w)"
proof -
  note rules = route_refused(1-3) [OF w] route_decoded [OF w] call_answered [OF w] enqueue_answered [OF w]
  show "route_ok clk rq h p m (lobbies_post G clk rq p h m w)"
    unfolding lobbies_post_def by (auto intro!: rules split: if_split)
  show "route_ok clk rq h p m (lobbies_get G clk rq h m w)"
    unfolding lobbies_get_def by (simp split: option.split list.split) (auto intro!: rules split: if_split)
  show "route_ok clk rq h p m (one_lobby_route G clk rq p i h m w)"
    unfolding one_lobby_route_def by (auto intro!: rules split: if_split)
  show "route_ok clk rq h p m (ready_route G clk rq p i h m w)"
    unfolding ready_route_def by (auto intro!: rules split: if_split)
  show "route_ok clk rq h p m (my_ticket_route G clk rq p h m w)"
    unfolding my_ticket_route_def by (auto intro!: rules split: if_split)
  show "route_ok clk rq h p m (tickets_route G clk rq p h m w)"
    unfolding tickets_route_def by (auto intro!: rules split: if_split)
qed


lemma player_route_ok:
  assumes w: "\<not> hw_fatal w"
  shows "route_ok clk rq h p m (player_route G clk rq p h m w)"
proof -
  have "route_ok clk rq h p m (lobby_route G clk rq p parts h m w)" for parts
    unfolding lobby_route_def Let_def
    by (auto intro!: route_refused(2) [OF w] routes_ok [OF w] revision_answered [OF w] split: if_split)
  moreover have "route_ok clk rq h p m (lobbies_route G clk rq p h m w)"
    unfolding lobbies_route_def by (auto intro!: route_refused(3) [OF w] routes_ok [OF w] split: if_split)
  ultimately show ?thesis
    unfolding player_route_def
    by (auto intro!: route_refused(2) [OF w] routes_ok [OF w] split: if_split option.split)
qed

lemma player_admit_cases:
  obtains (refused) h1 w where "player_admit A H clk rq h = (h1, Inl w)" "refused_by_api w"
  | (admitted) h1 claims w where "player_admit A H clk rq h = (h1, Inr (claims, w))"
      "player_authorize H (pk_auth clk) rq h = Some claims" "\<not> hw_fatal w" "ph_fatal h1 = ph_fatal h"
proof -
  have "case player_admit A H clk rq h of
      (h1, Inl w) \<Rightarrow> refused_by_api w
    | (h1, Inr (claims, w)) \<Rightarrow> player_authorize H (pk_auth clk) rq h = Some claims \<and> \<not> hw_fatal w \<and> ph_fatal h1 = ph_fatal h"
    by (auto simp: player_admit_def Let_def refused_by_api_def rate_limited_def split: option.split prod.split)
  then show ?thesis using that by (auto split: prod.splits sum.splits)
qed

lemma player_serve_cases:
  assumes "player_serve G A H clk rq h m = Some (h', m', w)"
  shows "m' = m \<and> refused_by_api w \<or>
    (\<exists>claims op r. player_authorize H (pk_auth clk) rq h = Some claims \<and> acts_for (cl_player_id claims) op \<and>
      lobby_perform op (pk_manager clk) (pk_sweep clk) m = Some (m', r) \<and> hw_status w = answer_status op r \<and>
      (hw_fatal w \<longleftrightarrow> response_error r = Some LobbyFatalRandom \<and> ph_fatal h))"
proof (cases rule: player_admit_cases [of A H clk rq h])
  case (refused h1 w1)
  then show ?thesis using assms by (simp add: player_serve_def)
next
  case (admitted h1 claims w1)
  then have "player_route G clk rq (cl_player_id claims) h1 m w1 = Some (m', w)"
    using assms by (auto simp: player_serve_def split: option.splits)
  then show ?thesis
    using player_route_ok [OF admitted(3), of clk rq h1 "cl_player_id claims" m G] admitted(2,4)
    by (auto simp: route_ok_def answers_def)
qed

text \<open>C32: the player API refines the lobby manager: whatever a request contains, either it is refused with a client
  error and the manager is left as it is, or it is exactly one operation of the manager, for the player whose
  token the request carries and for no other, and the status is the one of the manager's answer; the process is
  told to stop exactly when the manager ran out of randomness.\<close>

theorem player_refines_manager:
  assumes "player_serve G A H clk rq h m = Some (h', m', w)"
  shows "m' = m \<and> refused_by_api w \<or>
    (\<exists>claims op r. player_authorize H (pk_auth clk) rq h = Some claims \<and> acts_for (cl_player_id claims) op \<and>
      lobby_perform op (pk_manager clk) (pk_sweep clk) m = Some (m', r) \<and> hw_status w = answer_status op r \<and>
      (hw_fatal w \<longleftrightarrow> response_error r = Some LobbyFatalRandom \<and> ph_fatal h))"
  using assms by (rule player_serve_cases)

theorem player_refines_manager_witness:
  "\<exists>h' m' w. player_serve demo_lib bucket demo_hmac demo_player_clock demo_ticket_query demo_player demo_lobbies = Some (h', m', w) \<and>
     hw_status w = 404 \<and> (m' = demo_lobbies \<and> refused_by_api w \<or>
       (\<exists>op r. acts_for ''alice'' op \<and> lobby_perform op (demo_at 0) ([], []) demo_lobbies = Some (m', r) \<and> answer_status op r = 404))"
proof -
  note auth = demo_player_authorized
  have "snd (allow_n bucket (ph_limiter demo_player) 0 1)" by code_simp
  then obtain l where l: "allow_n bucket (ph_limiter demo_player) 0 1 = (l, True)"
    by (cases "allow_n bucket (ph_limiter demo_player) 0 1") simp
  let ?h = "demo_player\<lparr>ph_limiter := l, ph_semaphore := 1\<rparr>"
  let ?w = "set_header ''Cache-Control'' ''no-store'' new_writer"
  have "player_admit bucket demo_hmac demo_player_clock demo_ticket_query demo_player =
      (?h, Inr (\<lparr>cl_player_id = ''alice'', cl_expires_at = minute\<rparr>, ?w))"
    using auth l by (simp add: player_admit_def demo_player_clock_def) (simp add: demo_player_def)
  moreover have "snd (get_ticket ''alice'' (demo_at 0) ([], []) demo_lobbies) = Inl LobbyNotFound" by code_simp
  then obtain m' where "get_ticket ''alice'' (demo_at 0) ([], []) demo_lobbies = (m', Inl LobbyNotFound)"
    by (cases "get_ticket ''alice'' (demo_at 0) ([], []) demo_lobbies") simp
  ultimately have serve: "player_serve demo_lib bucket demo_hmac demo_player_clock demo_ticket_query demo_player demo_lobbies =
      Some (player_release ?h, m', write_error 404 ''not_found'' ''resource not found'' ?w)"
    by (simp add: player_serve_def player_route_def my_ticket_route_def demo_ticket_query_def demo_request_def request_has_body_def
        no_query_def demo_player_clock_def)
  from player_refines_manager [OF serve] auth show ?thesis
    unfolding serve by (auto simp: demo_player_clock_def)
qed

lemma player_serve_sound:
  assumes "manager_inv m" and "rq_body rq \<noteq> None"
  shows "\<exists>h' m' w. player_serve G A H clk rq h m = Some (h', m', w) \<and> manager_inv m'"
proof (cases rule: player_admit_cases [of A H clk rq h])
  case (refused h1 w)
  then show ?thesis using assms(1) by (simp add: player_serve_def)
next
  case (admitted h1 claims w)
  note ok = player_route_ok [OF admitted(3), of clk rq h1 "cl_player_id claims" m G]
  then obtain m' w' where r: "player_route G clk rq (cl_player_id claims) h1 m w = Some (m', w')"
    using assms by (auto simp: route_ok_def split: option.splits)
  then have "manager_inv m'"
    using ok assms(1) by (auto simp: route_ok_def answers_def intro: lobby_perform_inv)
  then show ?thesis by (simp add: player_serve_def admitted(1) r)
qed

text \<open>No request makes the player API panic, and every answer leaves a manager in which the invariant holds:
  from every state that satisfies it, serving any request that has a body returns.\<close>

lemma player_api_sound:
  assumes "manager_inv m" and "rq_body rq \<noteq> None"
  shows "\<exists>h' m' w. player_serve G A H clk rq h m = Some (h', m', w) \<and> manager_inv m'"
  using assms by (rule player_serve_sound)

lemma player_api_sound_witness:
  "\<exists>h' m' w. player_serve demo_lib bucket demo_hmac demo_player_clock demo_ticket_query demo_player demo_lobbies = Some (h', m', w) \<and>
     manager_inv m'"
proof -
  have "manager_new bucket (Some demo_start) (\<lambda>_. demo_at 0) (map of_nat [0..<200]) = Inr demo_lobbies"
    by (simp add: demo_lobbies_def manager_new_def)
  then have "manager_inv demo_lobbies" by (rule manager_new_inv) (simp_all add: demo_start_inv in_i64_def)
  then show ?thesis by (rule player_api_sound) (simp add: demo_ticket_query_def demo_request_def)
qed

text \<open>What \<open>Issue\<close> makes.\<close>

lemma issue_Inr:
  assumes "issue H (Some auth) p now = Inr (token, c)"
  shows "valid_id p" "token = token_of H (pa_key auth) (now + pa_token_ttl auth) p"
    "0 < now + pa_token_ttl auth" "now + pa_token_ttl auth \<le> max_int64" "cl_expires_at c = now + pa_token_ttl auth"
proof -
  have fits: "i64 e \<le> max_int64" for e using i64_in_range [of e] by (simp add: in_i64_def)
  show "valid_id p" "token = token_of H (pa_key auth) (now + pa_token_ttl auth) p"
    "0 < now + pa_token_ttl auth" "now + pa_token_ttl auth \<le> max_int64" "cl_expires_at c = now + pa_token_ttl auth"
    using assms fits [of "now + pa_token_ttl auth"]
    by (auto simp: issue_def Let_def token_of_def split: if_splits)
qed

text \<open>C33: the two APIs fit together: when the management API answers a token request with 201, its body carries a
  player and a token with which the player API lets that very player in at every moment until the expiry, and
  nobody from then on.\<close>

theorem issued_token_admits:
  assumes "\<And>k msg. length (H k msg) = 32" and "ph_auth ph = ch_player_tokens h"
    and "post_player_token G H now rq h w = Some w'" and "hw_status w' = 201"
  shows "\<exists>player token expires. hw_body w' = Some (JObject [(''player_id'', json_string player),
        (''token'', json_string token), (''expires_at'', json_string (gl_format_time G expires))]) \<and>
      valid_id player \<and> expires = now + pa_token_ttl (ch_player_tokens h) \<and>
      (\<forall>later rq'. rq_authorization rq' = [''Bearer '' @ token] \<longrightarrow>
        player_authorize H later rq' ph =
          (if later < expires then Some \<lparr>cl_player_id = player, cl_expires_at = expires\<rparr> else None))"
proof -
  let ?auth = "ch_player_tokens h"
  obtain player token c where body: "issue H (Some ?auth) player now = Inr (token, c)"
    "w' = write_json 201 (JObject [(''player_id'', json_string player), (''token'', json_string token),
       (''expires_at'', json_string (gl_format_time G (cl_expires_at c)))]) w"
    using assms(3,4) unfolding post_player_token_def decode_exact_json_def
    by (auto split: option.splits sum.splits if_splits body_error.splits)
  note tok = issue_Inr [OF body(1)]
  have "player_authorize H later rq' ph = (if later < now + pa_token_ttl ?auth
      then Some \<lparr>cl_player_id = player, cl_expires_at = now + pa_token_ttl ?auth\<rparr> else None)"
    if "rq_authorization rq' = [''Bearer '' @ token]" for later rq'
    using that verify_token_of [where H = H, OF assms(1) tok(1,3,4), of ?auth later] tok(2) assms(2)
    by (simp add: player_authorize_def cut_prefix_def)
  then show ?thesis using body(2) tok(1,5) by (auto simp: write_json_def)
qed

theorem issued_token_admits_witness:
  "\<exists>player token. valid_id player \<and> (\<forall>rq. rq_authorization rq = [''Bearer '' @ token] \<longrightarrow>
     player_authorize demo_hmac 5 rq demo_player = Some \<lparr>cl_player_id = player, cl_expires_at = minute\<rparr>)"
proof -
  obtain w' where issued: "post_player_token demo_lib demo_hmac 0 demo_token_request demo_control new_writer = Some w'" "hw_status w' = 201"
    using demo_token_issued by blast
  have same: "ph_auth demo_player = ch_player_tokens demo_control" "pa_token_ttl (ch_player_tokens demo_control) = minute"
    by (simp_all add: demo_player_def demo_control_def demo_issuer_def)
  obtain player token where "valid_id player" "\<forall>later rq'. rq_authorization rq' = [''Bearer '' @ token] \<longrightarrow>
      player_authorize demo_hmac later rq' demo_player =
        (if later < minute then Some \<lparr>cl_player_id = player, cl_expires_at = minute\<rparr> else None)"
    using issued_token_admits [where H = demo_hmac, OF length_demo_hmac same(1) issued] same(2) by auto
  then show ?thesis by (intro exI [of _ player] exI [of _ token]) simp
qed

section \<open>Requests in flight\<close>

definition control_arrive :: "'l limiter_api \<Rightarrow> int \<times> http_request \<Rightarrow> 'l control_handler \<Rightarrow> 'l control_handler \<times> bool" where
  "control_arrive A q h = map_prod id (case_sum (\<lambda>_. False) (\<lambda>_. True)) (control_admit A (fst q) (snd q) h)"

definition player_arrive ::
    "'l limiter_api \<Rightarrow> hmac_fun \<Rightarrow> player_clock \<times> http_request \<Rightarrow> 'l player_handler \<Rightarrow> 'l player_handler \<times> bool" where
  "player_arrive A H q h = map_prod id (case_sum (\<lambda>_. False) (\<lambda>_. True)) (player_admit A H (fst q) (snd q) h)"

interpretation management: admission "control_arrive A" control_release ch_semaphore ch_max_concurrent
  for A :: "'l limiter_api"
  by unfold_locales (auto simp: control_arrive_def control_admit_def control_release_def Let_def split: prod.splits if_splits)

interpretation players: admission "player_arrive A H" player_release ph_semaphore ph_max_concurrent
  for A :: "'l limiter_api" and H :: hmac_fun
  by unfold_locales
    (auto simp: player_arrive_def player_admit_def player_release_def Let_def split: prod.splits if_splits option.splits)

text \<open>
  Every call of \<open>ServeHTTP\<close> is such traffic: an arrival, and after an admission exactly one release, on every route
  and with every answer (the release is deferred).
\<close>

lemma control_serve_traffic:
  assumes "control_serve G A H clk rq h st = Some (h', st', w)" and "0 \<le> n"
  shows "\<exists>es \<in> {[], [Finish]}. traffic_run (control_arrive A) control_release (Arrive (sc_limiter clk, rq) # es) (h, n) = (h', n)"
  using assms by (auto simp: control_serve_def control_arrive_def split: prod.splits sum.splits option.splits)

lemma player_serve_traffic:
  assumes "player_serve G A H clk rq h m = Some (h', m', w)" and "0 \<le> n"
  shows "\<exists>es \<in> {[], [Finish]}. traffic_run (player_arrive A H) player_release (Arrive (clk, rq) # es) (h, n) = (h', n)"
  using assms by (auto simp: player_serve_def player_arrive_def split: prod.splits sum.splits option.splits)

text \<open>C34: however requests arrive and finish, at most 32 of them are inside a handler of the management API at any
  moment and at most 64 inside one of the player API, whatever the configuration that the constructors accepted;
  and the semaphores count exactly the requests inside, so no slot is ever lost.\<close>

theorem requests_in_flight_bounded:
  assumes "control_new A cfg True = Some h0" and "traffic_run (control_arrive A) control_release es (h0, 0) = (h, n)"
    and "player_new A pcfg True = Some p0" and "traffic_run (player_arrive A H) player_release fs (p0, 0) = (p, k)"
  shows "n = ch_semaphore h \<and> 0 \<le> n \<and> n \<le> HardManagementConcurrent \<and>
    k = ph_semaphore p \<and> 0 \<le> k \<and> k \<le> HardPlayerConcurrent"
proof -
  have c: "ch_semaphore h0 = 0" "0 \<le> ch_max_concurrent h0" "ch_max_concurrent h0 \<le> HardManagementConcurrent"
    using assms(1) by (auto simp: control_new_def split: option.splits if_splits)
  have q: "ph_semaphore p0 = 0" "0 \<le> ph_max_concurrent p0" "ph_max_concurrent p0 \<le> HardPlayerConcurrent"
    using assms(3) by (auto simp: player_new_def split: option.splits if_splits)
  show ?thesis
    using management.slots_are_requests [OF assms(2)] players.slots_are_requests [OF assms(4)] c q by auto
qed

definition demo_traffic :: "(int \<times> http_request) traffic list" where
  "demo_traffic = [Arrive (0, demo_put), Arrive (0, demo_put), Finish]"

theorem requests_in_flight_bounded_witness:
  "\<exists>h0 h n. control_new bucket demo_control_config True = Some h0 \<and>
    traffic_run (control_arrive bucket) control_release demo_traffic (h0, 0) = (h, n) \<and> n \<le> 32"
proof -
  obtain h0 p0 where h0: "control_new bucket demo_control_config True = Some h0"
    and p0: "player_new bucket demo_player_config True = Some p0" using demo_handlers by blast
  obtain h n where run: "traffic_run (control_arrive bucket) control_release demo_traffic (h0, 0) = (h, n)" by fastforce
  have none: "traffic_run (player_arrive bucket demo_hmac) player_release [] (p0, 0) = (p0, 0)" by simp
  show ?thesis
    using requests_in_flight_bounded [OF h0 run p0 none] h0 run by (auto simp: HardManagementConcurrent_def)
qed


section \<open>Rates that are not numbers\<close>

text \<open>The two constructors check the request rate differently: the management API refuses NaN, the player API takes it.\<close>

lemma nan_rate_accepted:
  "control_new A (demo_control_config\<lparr>cc_request_rate := NaN\<rparr>) has_store = None"
  "\<exists>h. player_new A (demo_player_config\<lparr>pc_request_rate := NaN\<rparr>) True = Some h"
  by (simp_all add: control_new_def player_new_def demo_control_config_def demo_player_config_def HardPlayerRequestRate_def
      HardPlayerRequestBurst_def HardPlayerConcurrent_def)

end
