(* ===== verification/System.thy ===== *)
theory System
  imports Server Http_Properties
begin

text \<open>
  The whole process: what its construction leaves open, what the coordinator makes of the loops, and the
  composition of all the components over the one store that they share.
\<close>

section \<open>Construction\<close>

text \<open>The sockets open after a sequence of events; \<^const>\<open>None\<close> if one is closed that is not open, or opened twice.\<close>

fun sockets_after :: "socket_event list \<Rightarrow> socket_id list \<Rightarrow> socket_id list option" where
  "sockets_after [] s = Some s"
| "sockets_after (Opened i # es) s = (if i \<in> set s then None else sockets_after es (i # s))"
| "sockets_after (Closed i # es) s = (if i \<in> set s then sockets_after es (remove1 i s) else None)"

text \<open>C35: the construction of the server leaks no socket: whatever fails on the way (the configuration, a random
  source, one of the three listeners, a component), every socket that has been opened by then has been closed,
  once; and when the construction succeeds, exactly the three sockets are open.\<close>

theorem server_new_leaks_nothing:
  "case server_new A H self net config of
     (Inl err, events) \<Rightarrow> sockets_after events [] = Some []
   | (Inr sv, events) \<Rightarrow> sockets_after events [] = Some [Relay_Socket, Player_Listener, Management_Listener]"
  by (auto simp: server_new_def Let_def split: option.split sum.split prod.split)

text \<open>When a component cannot be assembled, the sockets are closed in the order in which they were opened.\<close>

lemma cleanup_order:
  assumes "server_new A H self net config = (Inl err, events)" and "Opened Relay_Socket \<in> set events"
  shows "events = [Opened Management_Listener, Opened Player_Listener, Opened Relay_Socket,
    Closed Management_Listener, Closed Player_Listener, Closed Relay_Socket]"
  using assms by (auto simp: server_new_def Let_def split: option.splits sum.splits prod.splits if_splits)

section \<open>The coordination of the loops\<close>

lemma receive_results_spec:
  "n \<le> length incoming \<Longrightarrow>
     receive_results n incoming unexpected = Some (unexpected \<or> (\<exists>r \<in> set (take n incoming). lr_unexpected r))"
  by (induction n incoming unexpected rule: receive_results.induct) auto

lemma server_shutdown_done: "sv_shutdown (fst (server_shutdown X results sv)) \<noteq> None"
  by (auto simp: server_shutdown_def Let_def split: option.split prod.split)

definition wake_missing :: "wake \<Rightarrow> nat" where
  "wake_missing wake = (case wake of Wake_Result _ \<Rightarrow> 3 | _ \<Rightarrow> 4)"

definition wake_unexpected :: "wake \<Rightarrow> bool" where
  "wake_unexpected wake = (case wake of Wake_Result r \<Rightarrow> lr_unexpected r | Wake_Fatal \<Rightarrow> True | _ \<Rightarrow> False)"

lemma coordinate_result:
  "coordinate_loop_results wake incoming fatal stop s =
     (if length incoming < wake_missing wake then None
      else Some (stop s,
        if fatal \<or> wake_unexpected wake \<or> (\<exists>r \<in> set (take (wake_missing wake) incoming). lr_unexpected r)
        then Some Server_Owned_Loop else None))"
proof -
  have short: "length incoming < n \<Longrightarrow> receive_results n incoming u = None" for n u
    by (induction n incoming u rule: receive_results.induct) auto
  show ?thesis
    using short receive_results_spec [of 4 incoming] receive_results_spec [of 3 incoming]
    by (auto simp: coordinate_loop_results_def Let_def wake_missing_def wake_unexpected_def not_less split: wake.split)
qed

section \<open>The running process\<close>

datatype system_event =
    Management_Request serving_clock http_request
  | Player_Request player_clock http_request
  | Datagram "byte list" addr_port clock_reading clock_reading time
  | Sweeper_Tick "string list" "prefix list" clock_reading clock_reading sweep_order
  | Close_Call close_results

definition with_manager :: "'l manager \<Rightarrow> ('l, 'k) server \<Rightarrow> ('l, 'k) server" where
  "with_manager m sv = sv\<lparr>sv_manager := m, sv_relay := (sv_relay sv)\<lparr>rl_rooms := m_relay m\<rparr>\<rparr>"

definition signalled :: "http_writer \<Rightarrow> ('l, 'k) server \<Rightarrow> ('l, 'k) server" where
  "signalled w sv = (if hw_fatal w then notify_fatal sv else sv)"

text \<open>One event; \<^const>\<open>None\<close> is a panic.\<close>

fun system_apply :: "go_lib \<Rightarrow> ('l, 'k) externals \<Rightarrow> system_event \<Rightarrow> ('l, 'k) server \<Rightarrow> ('l, 'k) server option" where
  "system_apply G X (Management_Request clk rq) sv =
     map_option (\<lambda>(h, st, w). signalled w ((with_manager ((sv_manager sv)\<lparr>m_relay := st\<rparr>) sv)\<lparr>sv_management := h\<rparr>))
       (control_serve G (x_limiter X) (x_hmac X) clk rq (sv_management sv) (m_relay (sv_manager sv)))"
| "system_apply G X (Player_Request clk rq) sv =
     map_option (\<lambda>(h, m, w). signalled w ((with_manager m sv)\<lparr>sv_players := h\<rparr>))
       (player_serve G (x_limiter X) (x_hmac X) clk rq (sv_players sv) (sv_manager sv))"
| "system_apply G X (Datagram datagram endpoint r1 r2 now) sv =
     map_option (\<lambda>(relay, err). sv\<lparr>sv_relay := relay, sv_manager := (sv_manager sv)\<lparr>m_relay := rl_rooms relay\<rparr>\<rparr>)
       (dispatch X datagram endpoint r1 r2 now (sv_relay sv))"
| "system_apply G X (Sweeper_Tick rids keys r1 r2 ord) sv =
     Some (with_manager (sweep_tick rids keys r1 r2 ord (sv_manager sv)) sv)"
| "system_apply G X (Close_Call results) sv = Some (fst (server_close X results sv))"

text \<open>What the outside guarantees: a request has a body, clocks are in range, an iteration over a map meets its keys.\<close>

fun event_ok :: "system_event \<Rightarrow> ('l, 'k) server \<Rightarrow> bool" where
  "event_ok (Management_Request clk rq) sv \<longleftrightarrow> rq_body rq \<noteq> None \<and> reading_ok (sc_store clk)"
| "event_ok (Player_Request clk rq) sv \<longleftrightarrow> rq_body rq \<noteq> None"
| "event_ok (Datagram datagram endpoint r1 r2 now) sv \<longleftrightarrow> reading_ok r1 \<and> reading_ok r2"
| "event_ok (Sweeper_Tick rids keys r1 r2 ord) sv \<longleftrightarrow> reading_ok r1 \<and> op_fits (Sweep rids keys) (m_relay (sv_manager sv))"
| "event_ok (Close_Call results) sv \<longleftrightarrow> True"

inductive system_step :: "go_lib \<Rightarrow> ('l, 'k) externals \<Rightarrow> ('l, 'k) server \<Rightarrow> system_event \<Rightarrow> ('l, 'k) server \<Rightarrow> bool" for G X where
  system_step: "event_ok e sv \<Longrightarrow> system_apply G X e sv = Some sv' \<Longrightarrow> system_step G X sv e sv'"

inductive_cases system_stepE: "system_step G X sv e sv'"
inductive_simps system_step_iff: "system_step G X sv e sv'"

definition consistent :: "('l, 'k) server \<Rightarrow> bool" where
  "consistent sv \<longleftrightarrow> manager_inv (sv_manager sv) \<and> rl_rooms (sv_relay sv) = m_relay (sv_manager sv)"

lemma consistent_fields:
  "consistent (sv\<lparr>sv_management := h\<rparr>) = consistent sv" "consistent (sv\<lparr>sv_players := p\<rparr>) = consistent sv"
  "consistent (signalled w sv) = consistent sv" "consistent (with_manager m sv) = manager_inv m"
  "consistent (sv\<lparr>sv_close_requested := b, sv_close_signal := c\<rparr>) = consistent sv"
  "consistent (sv\<lparr>sv_run_started := b\<rparr>) = consistent sv" "consistent (sv\<lparr>sv_finished := b\<rparr>) = consistent sv"
  by (simp_all add: consistent_def signalled_def notify_fatal_def with_manager_def)

lemma consistent_shutdown: "consistent s \<Longrightarrow> consistent (fst (server_shutdown X results s))"
  by (auto simp: server_shutdown_def relay_close_def consistent_def Let_def split: option.split prod.split)

lemma consistent_store:
  assumes "limiter_law A" and "consistent sv" and "run (store_step A H) (m_relay (sv_manager sv)) es st"
  shows "manager_inv ((sv_manager sv)\<lparr>m_relay := st\<rparr>)"
proof -
  have "store_inv st"
    using assms keeps.run_inv [OF assms(3)]
    by (simp add: lawful_inv_def consistent_def manager_inv_def relay_inv_def)
  then show ?thesis using assms(2) by (simp add: consistent_def manager_inv_def tables_inv_def relay_inv_def)
qed

text \<open>Every event that may happen returns, and what it leaves is consistent.\<close>

lemma system_event_returns:
  assumes law: "limiter_law (x_limiter X)" and inv: "consistent sv" and ok: "event_ok e sv"
  shows "\<exists>sv'. system_apply G X e sv = Some sv' \<and> consistent sv'"
proof (cases e)
  case (Management_Request clk rq)
  let ?A = "x_limiter X" and ?st = "m_relay (sv_manager sv)"
  have same: "manager_inv ((sv_manager sv)\<lparr>m_relay := ?st\<rparr>)" using inv by (simp add: consistent_def)
  have "\<exists>h st w. control_serve G ?A (x_hmac X) clk rq (sv_management sv) ?st = Some (h, st, w) \<and>
      manager_inv ((sv_manager sv)\<lparr>m_relay := st\<rparr>)"
  proof (cases "control_admit ?A (sc_limiter clk) rq (sv_management sv)")
    case (Pair h1 x)
    have body: "rq_body rq \<noteq> None" and r: "reading_ok (sc_store clk)" using ok Management_Request by simp_all
    note spec = control_serve_spec [OF body r, where A = ?A and h = "sv_management sv" and G = G and H = "x_hmac X" and st = ?st, unfolded Pair]
    show ?thesis
    proof (cases x)
      case Inl
      then show ?thesis using spec same by simp
    next
      case (Inr w0)
      show ?thesis
      proof (cases "requested_op G rq")
        case None
        then show ?thesis using spec Inr same by auto
      next
        case (Some op)
        with spec Inr obtain st' r w where s: "store_step ?A (x_hmac X) ?st (op, sc_store clk, r) st'"
          "control_serve G ?A (x_hmac X) clk rq (sv_management sv) ?st = Some (control_release h1, st', w)" by auto
        have "run (store_step ?A (x_hmac X)) ?st [(op, sc_store clk, r)] st'" using s(1) by (auto simp: run_Cons_iff)
        then show ?thesis using s(2) consistent_store [OF law inv] by blast
      qed
    qed
  qed
  then show ?thesis using Management_Request by (auto simp: consistent_fields)
next
  case (Player_Request clk rq)
  have "manager_inv (sv_manager sv)" "rq_body rq \<noteq> None" using inv ok Player_Request by (simp_all add: consistent_def)
  from player_serve_sound [OF this, where G = G and A = "x_limiter X" and H = "x_hmac X" and clk = clk and h = "sv_players sv"]
  show ?thesis using Player_Request by (auto simp: consistent_fields)
next
  case (Datagram datagram endpoint r1 r2 now)
  have "store_inv (rl_rooms (sv_relay sv))" using inv by (simp add: consistent_def manager_inv_def relay_inv_def)
  then obtain relay err es where d: "dispatch X datagram endpoint r1 r2 now (sv_relay sv) = Some (relay, err)"
    "run (store_step (x_limiter X) (x_hmac X)) (rl_rooms (sv_relay sv)) es (rl_rooms relay)"
    using dispatch_runs_store [OF law, of "sv_relay sv" r1 r2 datagram endpoint now] ok Datagram
    by (auto simp: dispatch_ok_def store_runs_def)
  then have "manager_inv ((sv_manager sv)\<lparr>m_relay := rl_rooms relay\<rparr>)"
    using consistent_store [OF law inv] inv by (simp add: consistent_def)
  then show ?thesis using Datagram d(1) by (simp add: consistent_def)
next
  case (Sweeper_Tick rids keys r1 r2 ord)
  let ?st = "m_relay (sv_manager sv)"
  have "store_step (x_limiter X) (x_hmac X) ?st (Sweep rids keys, r1, Swept) (expire rids keys (mono r1) ?st)"
    using ok Sweeper_Tick by (auto intro: store_step)
  then have "run (store_step (x_limiter X) (x_hmac X)) ?st [(Sweep rids keys, r1, Swept)] (expire rids keys (mono r1) ?st)"
    by (auto simp: run_Cons_iff)
  from consistent_store [OF law inv this] have "manager_inv (sweep_tick rids keys r1 r2 ord (sv_manager sv))"
    unfolding sweep_tick_def lobby_expire_def by (rule expire_locked_inv)
  then show ?thesis using Sweeper_Tick by (simp add: consistent_fields)
next
  case (Close_Call results)
  show ?thesis using inv Close_Call by (simp add: server_close_def consistent_fields consistent_shutdown)
qed


definition lawful_server :: "('l, 'k) externals \<Rightarrow> ('l, 'k) server \<Rightarrow> bool" where
  "lawful_server X sv \<longleftrightarrow> (limiter_law (x_limiter X) \<longrightarrow> consistent sv)"

interpretation system: preserved "system_step G X" "lawful_server X" for G X
proof
  fix sv sv' e assume "system_step G X sv e sv'" "lawful_server X sv"
  then show "lawful_server X sv'"
    using system_event_returns [of X sv e G] by (auto simp: lawful_server_def system_step_iff)
qed

text \<open>A server that has just been built.\<close>

lemma server_new_consistent:
  assumes "fst (server_new A H self net config) = Inr sv" and "\<forall>k. reading_ok (sn_store_clock net k)"
  shows "consistent sv"
proof -
  obtain rooms tokens lobbies socket port where st: "store_new A self default_limits (sn_store_random net) = Inr rooms"
    and m: "manager_new A (Some rooms) (sn_store_clock net) (sn_lobby_random net) = Inr lobbies"
    and sv: "server_assemble A config rooms tokens lobbies socket port = Inr sv"
    using assms(1) by (auto simp: server_new_def Let_def split: option.splits sum.splits prod.splits if_splits)
  have "sv_manager sv = lobbies" "rl_rooms (sv_relay sv) = rooms"
    using sv by (auto simp: server_assemble_def relay_new_def Let_def split: option.splits sum.splits if_splits)
  moreover have "m_relay lobbies = rooms" using m by (auto simp: manager_new_def)
  moreover have "manager_inv lobbies" using manager_new_inv [OF m] store_new_inv [OF st] assms(2) by simp
  ultimately show ?thesis by (simp add: consistent_def)
qed

text \<open>C38: the whole process is sound. From a server that its constructor has built, after any sequence of management
  requests, player requests, datagrams, sweeps and calls of \<open>Close\<close>, in any order and with any contents, every
  further one of them returns without a panic and leads to a state in which the manager, the two APIs and the
  relay agree on one store, the store's invariant holds and so does the lobby manager's. The limiter has to behave
  as documented, and clocks have to be in range.\<close>

theorem system_sound:
  assumes "limiter_law (x_limiter X)" and "fst (server_new (x_limiter X) (x_hmac X) self net config) = Inr sv0"
    and "\<forall>k. reading_ok (sn_store_clock net k)" and "run (system_step G X) sv0 es sv" and "event_ok e sv"
  shows "\<exists>sv'. system_apply G X e sv = Some sv' \<and> system_step G X sv e sv' \<and> manager_inv (sv_manager sv') \<and>
    rl_rooms (sv_relay sv') = m_relay (sv_manager sv') \<and> store_inv (m_relay (sv_manager sv'))"
proof -
  have "lawful_server X sv0" using server_new_consistent [OF assms(2,3)] by (simp add: lawful_server_def)
  then have "consistent sv" using system.run_inv [OF assms(4)] assms(1) by (simp add: lawful_server_def)
  from system_event_returns [OF assms(1) this assms(5), of G] obtain sv' where
    "system_apply G X e sv = Some sv'" "consistent sv'" by blast
  then show ?thesis using assms(5) by (auto simp: consistent_def manager_inv_def relay_inv_def intro: system_step)
qed

definition demo_net :: "(byte list \<times> addr_port) list server_net" where
  "demo_net = \<lparr>sn_resolve_tcp = (\<lambda>_. True), sn_resolve_udp = (\<lambda>_ _. Some 0), sn_listen_tcp = Some (\<lambda>_ _. True),
     sn_listen_udp = Some (\<lambda>_ _. Some ([], 9000)), sn_store_clock = (\<lambda>_. demo_at 0),
     sn_store_random = map of_nat [0..<200], sn_auth_random = replicate 32 9, sn_lobby_random = map of_nat [0..<200]\<rparr>"

definition demo_config :: server_config where
  "demo_config = \<lparr>sc_management_listen = ''127.0.0.1:0'', sc_player_listen = ''127.0.0.1:0'', sc_relay_network = ''udp4'',
     sc_relay_listen = ''127.0.0.1:0'', sc_advertised_host = ''relay'', sc_advertised_port = 9000,
     sc_operator_token = replicate 32 5\<rparr>"

theorem system_sound_witness:
  "\<exists>sv0 sv. fst (server_new (x_limiter demo_externals) (x_hmac demo_externals) 0 demo_net demo_config) = Inr sv0 \<and>
     system_apply demo_lib demo_externals (Management_Request demo_clock demo_put) sv0 = Some sv \<and> manager_inv (sv_manager sv)"
proof -
  have "case fst (server_new (x_limiter demo_externals) (x_hmac demo_externals) 0 demo_net demo_config) of Inl _ \<Rightarrow> False | Inr _ \<Rightarrow> True"
    by code_simp
  then obtain sv0 where sv0: "fst (server_new (x_limiter demo_externals) (x_hmac demo_externals) 0 demo_net demo_config) = Inr sv0"
    by (auto split: sum.splits)
  have clock: "\<forall>k. reading_ok (sn_store_clock demo_net k)" by (simp add: demo_net_def in_i64_def)
  have law: "limiter_law (x_limiter demo_externals)" by (simp add: demo_externals_def)
  have "event_ok (Management_Request demo_clock demo_put) sv0"
    by (simp add: demo_clock_def demo_put_def demo_request_def in_i64_def)
  from system_sound [OF law sv0 clock run_Nil this, of demo_lib] sv0 show ?thesis by blast
qed

end
