(* ===== verification/Lobby_Runs.thy ===== *)
theory Lobby_Runs
  imports Lobby_Machine
begin

text \<open>
  The lobby manager as a client of the store: whatever it does to the store that it shares with the relay and
  the management API is a run of the store, made of the public operations \<open>CreateRoom\<close> and \<open>EndRoom\<close> at the
  readings of the store's clock.
\<close>

section \<open>From one manager to a later one\<close>

definition store_leads :: "hmac_fun \<Rightarrow> 'l manager \<Rightarrow> 'l manager \<Rightarrow> bool" where
  "store_leads H m m' \<longleftrightarrow> m_limiter m' = m_limiter m \<and> m_store_clock m' = m_store_clock m \<and>
     ((\<forall>k. reading_ok (m_store_clock m k)) \<longrightarrow>
        (\<exists>es. run (store_step (m_limiter m) H) (m_relay m) es (m_relay m')))"

lemma store_leads_frame:
  "m_limiter m' = m_limiter m \<Longrightarrow> m_store_clock m' = m_store_clock m \<Longrightarrow> m_relay m' = m_relay m \<Longrightarrow> store_leads H m m'"
  unfolding store_leads_def by (auto intro: exI [of _ "[]"])

lemma store_leads_refl [simp]: "store_leads H m m"
  by (rule store_leads_frame) simp_all

lemma store_leads_trans: "store_leads H a b \<Longrightarrow> store_leads H b c \<Longrightarrow> store_leads H a c"
  unfolding store_leads_def by (auto intro: run_append [THEN iffD2])

text \<open>What an operation writes to its own tables is nothing to the store.\<close>

lemma store_leads_tables [simp]:
  "store_leads H m (m'\<lparr>m_random := src\<rparr>) = store_leads H m m'" "store_leads H m (m'\<lparr>m_lobbies := ls\<rparr>) = store_leads H m m'"
  "store_leads H m (m'\<lparr>m_lobby_by_player := lp\<rparr>) = store_leads H m m'" "store_leads H m (m'\<lparr>m_match_ids := ids\<rparr>) = store_leads H m m'"
  "store_leads H m (m'\<lparr>m_tickets := ts\<rparr>) = store_leads H m m'" "store_leads H m (m'\<lparr>m_queues := qs\<rparr>) = store_leads H m m'"
  "store_leads H m (m'\<lparr>m_next_sequence := n\<rparr>) = store_leads H m m'" "store_leads H (m\<lparr>m_random := src\<rparr>) m' = store_leads H m m'"
  by (simp_all add: store_leads_def)

lemma store_leads_helpers [simp]:
  "store_leads H m (set_lobby i r m') = store_leads H m m'" "store_leads H m (remove_queued_player key p m') = store_leads H m m'"
  "store_leads H m (snd (take_sequence m')) = store_leads H m m'" "store_leads H m (compact_queue key m') = store_leads H m m'"
  by (auto simp: set_lobby_def remove_queued_player_def take_sequence_def compact_queue_def Let_def split: option.split)

section \<open>The calls of the store\<close>

lemma relay_create_room_leads:
  assumes "relay_create_room rid d m = (m', res)"
  shows "store_leads H m m'"
proof -
  obtain st where "create_room (m_limiter m) rid d (m_store_clock m (m_calls m)) (m_relay m) = (st, res)"
    and m': "m' = m\<lparr>m_relay := st, m_calls := m_calls m + 1\<rparr>"
    using assms by (auto simp: relay_create_room_def split: prod.splits)
  then have "store_step (m_limiter m) H (m_relay m) (Create_Room rid d, m_store_clock m (m_calls m), Created res) st"
    if "\<forall>k. reading_ok (m_store_clock m k)"
    using that by (auto intro: store_step)
  then show ?thesis unfolding store_leads_def m' by (auto simp: run_Cons_iff intro!: exI [of _ "[e]" for e])
qed

lemma relay_end_room_leads [simp]: "store_leads H m (relay_end_room rid m)"
proof -
  obtain st err where "end_room rid (m_store_clock m (m_calls m)) (m_relay m) = (st, err)" by fastforce
  then have "store_step (m_limiter m) H (m_relay m) (End_Room rid, m_store_clock m (m_calls m), Ended err)
      (m_relay (relay_end_room rid m))" if "\<forall>k. reading_ok (m_store_clock m k)"
    using that by (auto simp: relay_end_room_def intro: store_step)
  then show ?thesis unfolding store_leads_def
    by (auto simp: relay_end_room_def run_Cons_iff intro!: exI [of _ "[e]" for e])
qed

lemma relay_end_room_leads_after: "store_leads H m m' \<Longrightarrow> store_leads H m (relay_end_room rid m')"
  by (rule store_leads_trans [OF _ relay_end_room_leads])

section \<open>The sweep\<close>

lemma expire_ticket_leads: "store_leads H m m' \<Longrightarrow> store_leads H m (expire_ticket reading p m')"
  by (auto simp: expire_ticket_def Let_def relay_end_room_leads_after split: option.split)

lemma expire_lobby_leads: "store_leads H m m' \<Longrightarrow> store_leads H m (expire_lobby reading i m')"
  by (auto simp: expire_lobby_def Let_def relay_end_room_leads_after split: option.split)

lemma expire_locked_leads: "store_leads H m (expire_locked reading ord m)"
proof -
  have "store_leads H m (fold (expire_lobby reading) is m')" if "store_leads H m m'" for "is" m'
    using that by (induction "is" arbitrary: m') (simp_all add: expire_lobby_leads)
  moreover have "store_leads H m (fold (expire_ticket reading) ps m')" if "store_leads H m m'" for ps m'
    using that by (induction ps arbitrary: m') (simp_all add: expire_ticket_leads)
  ultimately show ?thesis by (simp add: expire_locked_def expire_tickets_def)
qed

section \<open>Matches\<close>

lemma commit_attempt_leads:
  assumes "commit_attempt players e d mid rid ps m = (m', out)"
  shows "store_leads H m m'"
  using assms unfolding commit_attempt_def
  by (auto split: prod.splits sum.splits option.splits if_splits dest!: relay_create_room_leads [where H = H]
      intro: relay_end_room_leads_after)

lemma allocate_attempt_leads:
  assumes "allocate_attempt players e d m = (m', out)"
  shows "store_leads H m m'"
  using assms unfolding allocate_attempt_def
  by (auto split: prod.splits sum.splits option.splits dest!: commit_attempt_leads [where H = H])

lemma allocate_attempts_leads: "allocate_attempts n players e d m = (m', res) \<Longrightarrow> store_leads H m m'"
proof (induction n players e d m rule: allocate_attempts.induct)
  case (2 n players e d m)
  obtain m1 out where a: "allocate_attempt players e d m = (m1, out)" by fastforce
  note first = allocate_attempt_leads [OF a, where H = H]
  show ?case
  proof (cases out)
    case Attempt_Again
    then show ?thesis using 2 a store_leads_trans [OF first] by simp
  qed (use 2(2) a first in simp_all)
qed simp

lemma allocate_match_leads: "allocate_match players reading m = (m', res) \<Longrightarrow> store_leads H m m'"
  by (auto simp: allocate_match_def split: option.splits dest: allocate_attempts_leads)

lemma mark_matched_leads: "mark_matched asg e d ps m1 = Some m' \<Longrightarrow> store_leads H m m1 \<Longrightarrow> store_leads H m m'"
  by (induction asg e d ps m1 rule: mark_matched.induct) (auto split: option.splits)

lemma match_loop_leads: "match_loop key reading queue m = Some (m', err) \<Longrightarrow> store_leads H m m'"
proof (induction key reading queue m rule: match_loop.induct)
  case (1 key reading queue m)
  show ?case
  proof (cases "length queue < unat (qk_capacity key)")
    case False
    let ?players = "take (unat (qk_capacity key)) queue"
    obtain m1 res where al: "allocate_match ?players reading m = (m1, res)" by fastforce
    note first = allocate_match_leads [OF al, where H = H]
    show ?thesis
    proof (cases res)
      case (Inl x)
      then show ?thesis using 1(2) False al first by (simp add: match_loop.simps [of key reading queue m])
    next
      case (Inr x)
      obtain mid rid asg e d where x: "x = (mid, rid, asg, e, d)" by (cases x)
      obtain m2 where mk: "mark_matched asg e d ?players m1 = Some m2"
        using 1(2) False al Inr x by (auto simp: match_loop.simps [of key reading queue m] split: option.splits)
      note second = mark_matched_leads [OF mk first]
      show ?thesis
      proof (cases "drop (unat (qk_capacity key)) queue = []")
        case True
        then show ?thesis using 1(2) False al Inr x mk second
          by (auto simp: match_loop.simps [of key reading queue m] Let_def)
      next
        case more: False
        let ?rest = "drop (unat (qk_capacity key)) queue"
        let ?m3 = "m2\<lparr>m_match_ids := finsert mid (m_match_ids m2)\<rparr>"
        have step: "store_leads H m (?m3\<lparr>m_queues := fmupd key ?rest (m_queues ?m3)\<rparr>)" using second by simp
        have "match_loop key reading ?rest (?m3\<lparr>m_queues := fmupd key ?rest (m_queues ?m3)\<rparr>) = Some (m', err)"
          using 1(2) False al Inr x mk more by (simp add: match_loop.simps [of key reading queue m] Let_def del: drop_eq_Nil)
        from 1(1) [OF False refl al [symmetric] Inr x [symmetric] refl refl refl mk refl refl more this] show ?thesis
          by (rule store_leads_trans [OF step])
      qed
    qed
  qed (use 1(2) in \<open>simp add: match_loop.simps [of key reading queue m]\<close>)
qed

lemma match_queue_leads: "match_queue key reading m = Some (m', err) \<Longrightarrow> store_leads H m m'"
  using store_leads_trans [of H m "compact_queue key m" m'] by (auto simp: match_queue_def Let_def dest!: match_loop_leads [where H = H])

section \<open>Every operation\<close>

lemma with_open_lobby_leads:
  assumes "with_open_lobby p i revision reading ord m0 body = (m', res)"
    and "\<And>r m m' res. body r m = (m', res) \<Longrightarrow> store_leads H m m'"
  shows "store_leads H m0 m'"
  using assms(1) store_leads_trans [OF expire_locked_leads assms(2)] expire_locked_leads [of H m0 reading ord]
  by (auto simp: with_open_lobby_def Let_def split: option.splits if_splits)

lemma open_lobby_ops_leads:
  "lobby_join p i revision reading ord m = (m', res) \<Longrightarrow> store_leads H m m'"
  "lobby_leave p i revision reading ord m = (m', res) \<Longrightarrow> store_leads H m m'"
  "lobby_set_ready p i revision ready reading ord m = (m', res) \<Longrightarrow> store_leads H m m'"
  unfolding lobby_join_def lobby_leave_def lobby_set_ready_def
  by (erule with_open_lobby_leads; auto simp: Let_def take_sequence_def split: if_splits option.splits)+

lemma lobby_start_leads: "lobby_start p i revision reading ord m = (m', res) \<Longrightarrow> store_leads H m m'"
  unfolding lobby_start_def
  by (erule with_open_lobby_leads) (auto split: if_splits prod.splits sum.splits dest: allocate_match_leads [where H = H])

lemma table_ops_leads:
  "lobby_create p q reading ord m = (m', r1) \<Longrightarrow> store_leads H m m'"
  "lobby_list key cursor limit reading ord ids m = (m', r2) \<Longrightarrow> store_leads H m m'"
  "lobby_get p i reading ord m = (m', r3) \<Longrightarrow> store_leads H m m'"
  "get_ticket p reading ord m = (m', r4) \<Longrightarrow> store_leads H m m'"
  "cancel_ticket p revision reading ord m = (m', r4) \<Longrightarrow> store_leads H m m'"
  using expire_locked_leads [of H m reading ord]
  by (auto simp: lobby_create_def lobby_list_def lobby_get_def get_ticket_def cancel_ticket_def Let_def take_sequence_def
      split: if_splits option.splits sum.splits prod.splits)

lemma enqueue_leads:
  assumes "enqueue p q reading ord m = Some (m', res)"
  shows "store_leads H m m'"
  using assms expire_locked_leads [of H m reading ord]
  by (auto simp: enqueue_def Let_def take_sequence_def split: if_splits option.splits sum.splits prod.splits
      dest!: match_queue_leads [where H = H] elim: store_leads_trans [rotated])

text \<open>An operation of the manager, with its answer, is a run of the store.\<close>

lemma lobby_perform_leads:
  assumes "lobby_perform op reading ord m = Some (m', r)"
  shows "store_leads H m m'"
proof (cases op)
  case (L_Enqueue p q)
  then show ?thesis using assms by (auto intro: enqueue_leads)
next
  case L_Expire
  then show ?thesis using assms by (auto simp: lobby_expire_def expire_locked_leads)
qed (use assms in \<open>auto simp: prod_eq_iff intro: open_lobby_ops_leads [OF prod.collapse [symmetric]]
    lobby_start_leads [OF prod.collapse [symmetric]] table_ops_leads [OF prod.collapse [symmetric]]\<close>)

end
