(* ===== verification/Composition.thy ===== *)
theory Composition
  imports System Lobby_Runs
begin

text \<open>
  The components over the one store that they share. Whatever the process does (requests of the operator and of
  players, datagrams, sweeps) is a run of the store, so everything that is proved of reachable stores holds of
  the running process; the end of a room, ordered over HTTP, is then the end of its UDP traffic.
\<close>

section \<open>The process as a run of the store\<close>

definition server_leads :: "('l, 'k) externals \<Rightarrow> ('l, 'k) server \<Rightarrow> ('l, 'k) server \<Rightarrow> bool" where
  "server_leads X sv sv' \<longleftrightarrow> (limiter_law (x_limiter X) \<and> m_limiter (sv_manager sv) = x_limiter X \<longrightarrow>
     store_leads (x_hmac X) (sv_manager sv) (sv_manager sv'))"

lemma server_leads_trans: "server_leads X a b \<Longrightarrow> server_leads X b c \<Longrightarrow> server_leads X a c"
  unfolding server_leads_def using store_leads_trans by (fastforce simp: store_leads_def [of _ "sv_manager a"])

lemma signalled_manager [simp]: "sv_manager (signalled w sv) = sv_manager sv"
  by (simp add: signalled_def notify_fatal_def)

lemma store_leads_run:
  assumes "run (store_step (m_limiter m) H) (m_relay m) es st"
  shows "store_leads H m (m\<lparr>m_relay := st\<rparr>)"
  using assms by (auto simp: store_leads_def)

lemma control_serve_leads:
  assumes "control_serve G (m_limiter m) H clk rq h (m_relay m) = Some (h', st', w)"
    and "rq_body rq \<noteq> None" and "reading_ok (sc_store clk)"
  shows "store_leads H m (m\<lparr>m_relay := st'\<rparr>)"
proof -
  obtain h1 x where a: "control_admit (m_limiter m) (sc_limiter clk) rq h = (h1, x)" by fastforce
  note spec = control_serve_spec [OF assms(2,3), where A = "m_limiter m" and h = h and G = G and H = H and st = "m_relay m", unfolded a]
  have "st' = m_relay m \<or> (\<exists>e. store_step (m_limiter m) H (m_relay m) e st')"
    using spec assms(1) by (auto split: sum.splits option.splits)
  then show ?thesis
  proof
    assume "\<exists>e. store_step (m_limiter m) H (m_relay m) e st'"
    then obtain e where "run (store_step (m_limiter m) H) (m_relay m) [e] st'" by (auto simp: run_Cons_iff)
    then show ?thesis by (rule store_leads_run)
  qed simp
qed

lemma player_serve_leads:
  assumes "player_serve G A H clk rq h m = Some (h', m', w)"
  shows "store_leads H m m'"
  using player_serve_cases [OF assms] by (auto intro: lobby_perform_leads)

lemma system_step_leads:
  assumes step: "system_step G X sv e sv'" and law: "limiter_law (x_limiter X)" and inv: "consistent sv"
    and lim: "m_limiter (sv_manager sv) = x_limiter X"
  shows "store_leads (x_hmac X) (sv_manager sv) (sv_manager sv')"
proof (cases e)
  case (Management_Request clk rq)
  then obtain h st w where "control_serve G (x_limiter X) (x_hmac X) clk rq (sv_management sv) (m_relay (sv_manager sv)) = Some (h, st, w)"
    and sv': "sv_manager sv' = (sv_manager sv)\<lparr>m_relay := st\<rparr>" and ok: "event_ok e sv"
    using step by (auto simp: system_step_iff with_manager_def)
  then show ?thesis using control_serve_leads [of G "sv_manager sv"] lim Management_Request by simp
next
  case (Player_Request clk rq)
  then show ?thesis using step by (auto simp: system_step_iff with_manager_def dest!: player_serve_leads)
next
  case (Datagram datagram endpoint r1 r2 now)
  then obtain relay err where "dispatch X datagram endpoint r1 r2 now (sv_relay sv) = Some (relay, err)"
    and sv': "sv_manager sv' = (sv_manager sv)\<lparr>m_relay := rl_rooms relay\<rparr>" and ok: "reading_ok r1" "reading_ok r2"
    using step by (auto simp: system_step_iff)
  then obtain es where "run (store_step (x_limiter X) (x_hmac X)) (m_relay (sv_manager sv)) es (rl_rooms relay)"
    using dispatch_runs_store [OF law, of "sv_relay sv" r1 r2 datagram endpoint now] inv
    by (auto simp: dispatch_ok_def store_runs_def consistent_def manager_inv_def relay_inv_def)
  then show ?thesis unfolding sv' lim [symmetric] by (rule store_leads_run)
next
  case (Sweeper_Tick rids keys r1 r2 ord)
  let ?m = "sv_manager sv" and ?st = "expire rids keys (mono r1) (m_relay (sv_manager sv))"
  have ok: "reading_ok r1" "op_fits (Sweep rids keys) (m_relay ?m)" and sv': "sv_manager sv' = sweep_tick rids keys r1 r2 ord ?m"
    using step Sweeper_Tick by (auto simp: system_step_iff with_manager_def)
  have "run (store_step (m_limiter ?m) (x_hmac X)) (m_relay ?m) [(Sweep rids keys, r1, Swept)] ?st"
    using ok by (auto simp: run_Cons_iff intro: store_step)
  from store_leads_trans [OF store_leads_run [OF this] expire_locked_leads] show ?thesis
    unfolding sv' sweep_tick_def lobby_expire_def .
next
  case (Close_Call results)
  then show ?thesis using step
    by (auto simp: system_step_iff server_close_def server_shutdown_def Let_def split: option.splits prod.splits)
qed

interpretation process: monotone "system_step G X" "lawful_server X" "server_leads X" for G X
proof
  fix a b c :: "('a, 'b) server" and e
  show "server_leads X a a" by (simp add: server_leads_def)
  show "server_leads X a b \<Longrightarrow> server_leads X b c \<Longrightarrow> server_leads X a c" by (rule server_leads_trans)
  assume "system_step G X a e b" "lawful_server X a"
  then show "server_leads X a b" using system_step_leads by (auto simp: server_leads_def lawful_server_def)
qed

text \<open>A new server: its store is reachable, its limiter the one it was given, its clocks in range.\<close>

lemma server_new_store:
  assumes "fst (server_new A H self net config) = Inr sv" and "\<forall>k. reading_ok (sn_store_clock net k)"
  shows "m_limiter (sv_manager sv) = A" and "\<forall>k. reading_ok (m_store_clock (sv_manager sv) k)"
    and "store_new A self default_limits (sn_store_random net) = Inr (m_relay (sv_manager sv))"
    and "store_reachable A H (m_relay (sv_manager sv))" and "consistent sv"
proof -
  obtain rooms tokens lobbies socket port where st: "store_new A self default_limits (sn_store_random net) = Inr rooms"
    and m: "manager_new A (Some rooms) (sn_store_clock net) (sn_lobby_random net) = Inr lobbies"
    and sv: "server_assemble A config rooms tokens lobbies socket port = Inr sv"
    using assms(1) by (auto simp: server_new_def Let_def split: option.splits sum.splits prod.splits if_splits)
  have "sv_manager sv = lobbies"
    using sv by (auto simp: server_assemble_def Let_def split: option.splits sum.splits)
  moreover have "m_limiter lobbies = A" "m_store_clock lobbies = sn_store_clock net" "m_relay lobbies = rooms"
    using m by (auto simp: manager_new_def)
  ultimately show "m_limiter (sv_manager sv) = A" "\<forall>k. reading_ok (m_store_clock (sv_manager sv) k)"
    "store_new A self default_limits (sn_store_random net) = Inr (m_relay (sv_manager sv))"
    using assms(2) st by simp_all
  then show "store_reachable A H (m_relay (sv_manager sv))" unfolding store_reachable_def by (blast intro: run_Nil)
  show "consistent sv" by (rule server_new_consistent [OF assms])
qed

lemma process_run:
  assumes law: "limiter_law (x_limiter X)" and new: "fst (server_new (x_limiter X) (x_hmac X) self net config) = Inr sv0"
    and clk: "\<forall>k. reading_ok (sn_store_clock net k)" and before: "run (system_step G X) sv0 es sv"
    and later: "run (system_step G X) sv fs sv'"
  shows "store_reachable (x_limiter X) (x_hmac X) (m_relay (sv_manager sv))"
    and "\<exists>ops. run (store_step (x_limiter X) (x_hmac X)) (m_relay (sv_manager sv)) ops (m_relay (sv_manager sv'))"
proof -
  note start = server_new_store [OF new clk]
  have "lawful_server X sv0" using start(5) by (simp add: lawful_server_def)
  then have "server_leads X sv0 sv" "lawful_server X sv" by (rule process.run_le [OF before] system.run_inv [OF before])+
  moreover from this(2) have "server_leads X sv sv'" by (rule process.run_le [OF later])
  ultimately have led: "store_leads (x_hmac X) (sv_manager sv0) (sv_manager sv)"
    "store_leads (x_hmac X) (sv_manager sv) (sv_manager sv')"
    using law start(1) by (simp_all add: server_leads_def store_leads_def [of _ "sv_manager sv0"])
  from led(1) start(1,2) obtain ops where "run (store_step (x_limiter X) (x_hmac X)) (m_relay (sv_manager sv0)) ops (m_relay (sv_manager sv))"
    by (auto simp: store_leads_def)
  then show "store_reachable (x_limiter X) (x_hmac X) (m_relay (sv_manager sv))"
    by (rule store_reachable_run [OF start(4)])
  show "\<exists>ops. run (store_step (x_limiter X) (x_hmac X)) (m_relay (sv_manager sv)) ops (m_relay (sv_manager sv'))"
    using led start(1,2) by (simp add: store_leads_def)
qed

text \<open>C7: the whole process refines the store. From a server that its constructor has built, after any requests,
  datagrams, sweeps and calls of \<open>Close\<close>, the store is one that its own operations can reach, and whatever
  happens next changes it by a sequence of those operations: nothing else ever touches it, so what holds of
  every reachable store and along every run of the store holds of the running process.\<close>

theorem process_refines_store:
  assumes "limiter_law (x_limiter X)" and "fst (server_new (x_limiter X) (x_hmac X) self net config) = Inr sv0"
    and "\<forall>k. reading_ok (sn_store_clock net k)"
    and "run (system_step G X) sv0 es sv" and "run (system_step G X) sv fs sv'"
  shows "store_reachable (x_limiter X) (x_hmac X) (m_relay (sv_manager sv)) \<and>
    (\<exists>ops. run (store_step (x_limiter X) (x_hmac X)) (m_relay (sv_manager sv)) ops (m_relay (sv_manager sv')))"
  using process_run [OF assms] by blast

section \<open>A room deleted over HTTP\<close>

lemma control_delete:
  assumes serve: "control_serve G A H clk rq h st = Some (h', st', w)" and "rq_method rq = ''DELETE''" and "hw_status w = 204"
  shows "valid_id (fst (canonical_room_path rq))"
    and "end_room (fst (canonical_room_path rq)) (sc_store clk) st = (st', None)"
proof -
  obtain h1 x where a: "control_admit A (sc_limiter clk) rq h = (h1, x)" by fastforce
  have refused: "hw_status w1 \<noteq> 204" if "x = Inl w1" for w1
    using a that by (auto simp: control_admit_def rate_limited_def Let_def split: prod.splits if_splits)
  with serve assms(3) a obtain w1 where x: "x = Inr w1" by (cases x) (auto simp: control_serve_def)
  have route: "\<not> token_route rq" and id: "valid_id (fst (canonical_room_path rq))"
    using a x assms(2) by (auto simp: control_admit_def Let_def split: prod.splits if_splits)
  have d: "control_dispatch G A H clk rq h1 st w1 = Some (st', w)"
    using serve a x by (auto simp: control_serve_def split: option.splits)
  have dispatch: "control_dispatch G A H clk rq h1 st w1 = (if request_has_body rq then Some (st, invalid_request w1)
      else Some (delete_room (fst (canonical_room_path rq)) (sc_store clk) st w1))"
    using route assms(2) by (simp add: control_dispatch_def Let_def)
  have "\<not> request_has_body rq" using d assms(3) unfolding dispatch by (auto split: if_splits)
  then have del: "delete_room (fst (canonical_room_path rq)) (sc_store clk) st w1 = (st', w)"
    using d unfolding dispatch by simp
  obtain st2 e where e: "end_room (fst (canonical_room_path rq)) (sc_store clk) st = (st2, e)" by fastforce
  have "store_status err \<noteq> 204" for err by (cases err) simp_all
  then have "e = None" using del e assms(3) by (cases e) (auto simp: delete_room_def)
  then show "end_room (fst (canonical_room_path rq)) (sc_store clk) st = (st', None)"
    using del e by (simp add: delete_room_def)
  show "valid_id (fst (canonical_room_path rq))" by (rule id)
qed

text \<open>C6: a room deleted over HTTP is silent on UDP for good. When the running process answers a \<open>DELETE\<close> with
  204, the credentials of every participant of that room are dead from then on, whatever requests and
  datagrams follow: no grant, candidate or binding identifier leads to them again, so no packet can be
  admitted or delivered under them, even when the identifier of the room is used for another room later.\<close>

theorem deleted_room_silent:
  assumes "limiter_law (x_limiter X)" and "fst (server_new (x_limiter X) (x_hmac X) self net config) = Inr sv0"
    and "\<forall>k. reading_ok (sn_store_clock net k)" and "run (system_step G X) sv0 es sv"
    and "control_serve G (x_limiter X) (x_hmac X) clk rq (sv_management sv) (m_relay (sv_manager sv)) = Some (h, st1, w)"
    and "rq_method rq = ''DELETE''" and "hw_status w = 204"
    and "fmlookup (s_rooms (m_relay (sv_manager sv))) (fst (canonical_room_path rq)) = Some R"
    and "r_state R \<noteq> roomStateTombstone" and "g \<in> set (r_grants R)"
    and "system_step G X sv (Management_Request clk rq) sv1" and "run (system_step G X) sv1 fs sv2"
  shows "\<not> grant_live (s_heap (m_relay (sv_manager sv2)) g) \<and>
    (\<forall>i. s_grants_by_id (m_relay (sv_manager sv2)) i \<noteq> Some g \<and> s_candidates_by_id (m_relay (sv_manager sv2)) i \<noteq> Some g \<and>
       s_bindings_by_id (m_relay (sv_manager sv2)) i \<noteq> Some g)"
proof -
  note ended = control_delete [OF assms(5-7)]
  have "event_ok (Management_Request clk rq) sv" and st1: "m_relay (sv_manager sv1) = st1"
    using assms(5,11) by (auto simp: system_step_iff with_manager_def)
  then have clk: "reading_ok (sc_store clk)" by simp
  have "run (system_step G X) sv0 (es @ [Management_Request clk rq]) sv1"
    using assms(4,11) by (auto simp: run_append run_Cons_iff)
  from process_run(2) [OF assms(1-3) this assms(12)] obtain ops where
    "run (store_step (x_limiter X) (x_hmac X)) st1 ops (m_relay (sv_manager sv2))" by (auto simp: st1)
  then show ?thesis
    by (rule ended_room_dead [OF assms(1) process_run(1) [OF assms(1-4) run_Nil] clk assms(8-10) ended])
qed

section \<open>A server for the witnesses\<close>

definition demo_server :: "(int \<times> int, (byte list \<times> addr_port) list) server" where
  "demo_server = (case fst (server_new (x_limiter demo_externals) (x_hmac demo_externals) 0 demo_net demo_config) of Inr sv \<Rightarrow> sv)"

definition demo_delete :: http_request where
  "demo_delete = demo_request ''DELETE'' ''/v1/rooms/room'' demo_operator []"

lemma demo_server_new: "fst (server_new (x_limiter demo_externals) (x_hmac demo_externals) 0 demo_net demo_config) = Inr demo_server"
proof -
  have "case fst (server_new (x_limiter demo_externals) (x_hmac demo_externals) 0 demo_net demo_config) of Inl _ \<Rightarrow> False | Inr _ \<Rightarrow> True"
    by code_simp
  then show ?thesis by (auto simp: demo_server_def split: sum.splits)
qed

lemma demo_world: "limiter_law (x_limiter demo_externals)" "\<forall>k. reading_ok (sn_store_clock demo_net k)"
  by (simp_all add: demo_externals_def demo_net_def in_i64_def)

lemma demo_server_store: "m_relay (sv_manager demo_server) = demo_start"
  using server_new_store(3) [OF demo_server_new demo_world(2)]
  by (simp add: demo_start_def demo_externals_def demo_net_def)

text \<open>The room of \<open>demo_put\<close>, created over HTTP.\<close>

definition demo_admitted_put :: "(int \<times> int) control_handler" where
  "demo_admitted_put = control_release (fst (control_admit bucket 0 demo_put (sv_management demo_server)))"

lemma demo_put_served:
  "\<exists>w. control_serve demo_lib bucket hmac_message demo_clock demo_put (sv_management demo_server) demo_start =
     Some (demo_admitted_put, demo_open, w) \<and> \<not> hw_fatal w"
proof -
  let ?a = "control_admit bucket 0 demo_put (sv_management demo_server)"
  have "case snd ?a of Inl _ \<Rightarrow> False | Inr _ \<Rightarrow> True" by code_simp
  then obtain w0 where a: "?a = (fst ?a, Inr w0)" by (cases ?a) (auto split: sum.splits)
  note req = demo_put_requested
  obtain st' r w where s: "store_step bucket hmac_message demo_start (Create_Room ''room'' demo_definition, demo_at 0, r) st'"
    "control_serve demo_lib bucket hmac_message demo_clock demo_put (sv_management demo_server) demo_start =
       Some (control_release (fst ?a), st', w)" "hw_fatal w \<longleftrightarrow> r = Created (Inl ErrFatalRandom) \<and> ch_fatal (sv_management demo_server)"
    using control_serve_spec [OF req(2,3), where A = bucket and h = "sv_management demo_server" and G = demo_lib and
        H = hmac_message and st = demo_start] a req(1,4,5)
    by (auto split: prod.splits sum.splits)
  moreover obtain st2 al where "create_room bucket ''room'' demo_definition (demo_at 0) demo_start = (st2, Inr (al, True))"
    using demo_created by blast
  ultimately show ?thesis by (auto simp: store_step_iff demo_open_def demo_admitted_put_def)
qed

definition demo_opened :: "(int \<times> int, (byte list \<times> addr_port) list) server" where
  "demo_opened = (with_manager ((sv_manager demo_server)\<lparr>m_relay := demo_open\<rparr>) demo_server)\<lparr>sv_management := demo_admitted_put\<rparr>"

lemma demo_externals_fields: "x_limiter demo_externals = bucket" "x_hmac demo_externals = hmac_message"
  by (simp_all add: demo_externals_def)

lemma demo_opened_run: "run (system_step demo_lib demo_externals) demo_server [Management_Request demo_clock demo_put] demo_opened"
  using demo_put_served demo_put_requested(2,3)
  by (auto simp: run_Cons_iff system_step_iff demo_externals_fields demo_server_store demo_opened_def signalled_def)

theorem process_refines_store_witness:
  "store_reachable bucket hmac_message (m_relay (sv_manager demo_opened))"
  using process_refines_store [OF demo_world(1) demo_server_new demo_world(2) demo_opened_run run_Nil]
  by (simp add: demo_externals_fields)

lemma demo_delete_served:
  obtains h st1 w where "control_serve demo_lib bucket hmac_message demo_clock demo_delete demo_admitted_put demo_open = Some (h, st1, w)"
    "hw_status w = 204" "\<not> hw_fatal w"
proof -
  have "case control_serve demo_lib bucket hmac_message demo_clock demo_delete demo_admitted_put demo_open of
      None \<Rightarrow> False | Some (h, st1, w) \<Rightarrow> hw_status w = 204 \<and> \<not> hw_fatal w" by code_simp
  then show ?thesis using that by (auto split: option.splits)
qed

theorem deleted_room_silent_witness:
  "\<exists>sv. run (system_step demo_lib demo_externals) demo_opened [Management_Request demo_clock demo_delete] sv \<and>
     \<not> grant_live (s_heap (m_relay (sv_manager sv)) 0)"
proof -
  obtain h st1 w where served: "control_serve demo_lib bucket hmac_message demo_clock demo_delete demo_admitted_put demo_open = Some (h, st1, w)"
    "hw_status w = 204" "\<not> hw_fatal w" by (rule demo_delete_served)
  have opened: "sv_management demo_opened = demo_admitted_put" "m_relay (sv_manager demo_opened) = demo_open"
    by (simp_all add: demo_opened_def with_manager_def)
  have "fmlookup (s_rooms demo_open) ''room'' = Some (the (fmlookup (s_rooms demo_open) ''room'')) \<and>
    r_state (the (fmlookup (s_rooms demo_open) ''room'')) \<noteq> roomStateTombstone \<and>
    0 \<in> set (r_grants (the (fmlookup (s_rooms demo_open) ''room''))) \<and> fst (canonical_room_path demo_delete) = ''room''" by code_simp
  then have R: "fmlookup (s_rooms (m_relay (sv_manager demo_opened))) (fst (canonical_room_path demo_delete)) =
      Some (the (fmlookup (s_rooms demo_open) ''room''))"
    "r_state (the (fmlookup (s_rooms demo_open) ''room'')) \<noteq> roomStateTombstone"
    "0 \<in> set (r_grants (the (fmlookup (s_rooms demo_open) ''room'')))" by (simp_all add: opened)
  have serve: "control_serve demo_lib (x_limiter demo_externals) (x_hmac demo_externals) demo_clock demo_delete (sv_management demo_opened)
      (m_relay (sv_manager demo_opened)) = Some (h, st1, w)" using served(1) by (simp add: demo_externals_fields opened)
  have m: "rq_method demo_delete = ''DELETE''" "rq_body demo_delete \<noteq> None" by (simp_all add: demo_delete_def demo_request_def)
  obtain sv where step: "system_step demo_lib demo_externals demo_opened (Management_Request demo_clock demo_delete) sv"
    using serve m(2) demo_put_requested(3) by (auto simp: system_step_iff)
  from deleted_room_silent [OF demo_world(1) demo_server_new demo_world(2) demo_opened_run serve m(1) served(2) R step run_Nil]
  show ?thesis using step by (auto simp: run_Cons_iff)
qed

end
