(* ===== verification/Lifecycle.thy ===== *)
theory Lifecycle
  imports Composition
begin

text \<open>
  \<open>Run\<close> of \<open>internal/server/server.go\<close> as a whole. It starts four loops (the two HTTP servers, the relay, the
  sweeper); what they do until the process ends is a sequence of events: an event of the system, the
  cancellation of the context, or the end of a loop, whose result \<open>classifyLoopResult\<close> judges by the state of that
  moment. The coordinator is woken up for one of its four reasons, stops everything and collects the results.

  The flags of a server only ever go one way, so it runs at most once.
\<close>

section \<open>Run\<close>

datatype run_event = Handles system_event | Context_Done | Ends loop_name bool

record ('l, 'k) run_state =
  rs_server :: "('l, 'k) server"
  rs_ctx_done :: bool
  rs_results :: "loop_result list"

definition run_start :: "('l, 'k) server \<Rightarrow> ('l, 'k) run_state" where
  "run_start sv = \<lparr>rs_server = sv, rs_ctx_done = False, rs_results = []\<rparr>"

text \<open>One event; \<^const>\<open>None\<close> is a panic, or a loop that would end twice. The results are in the order of the channel.\<close>

fun run_apply :: "go_lib \<Rightarrow> ('l, 'k) externals \<Rightarrow> run_event \<Rightarrow> ('l, 'k) run_state \<Rightarrow> ('l, 'k) run_state option" where
  "run_apply G X (Handles e) s = map_option (\<lambda>sv. s\<lparr>rs_server := sv\<rparr>) (system_apply G X e (rs_server s))"
| "run_apply G X Context_Done s = Some (s\<lparr>rs_ctx_done := True\<rparr>)"
| "run_apply G X (Ends name failed) s =
     (if name \<in> lr_name ` set (rs_results s) then None
      else Some (s\<lparr>rs_results := rs_results s @ [classify_loop_result (rs_ctx_done s) name failed (rs_server s)]\<rparr>))"

fun run_events :: "go_lib \<Rightarrow> ('l, 'k) externals \<Rightarrow> run_event list \<Rightarrow> ('l, 'k) run_state \<Rightarrow> ('l, 'k) run_state option" where
  "run_events G X [] s = Some s"
| "run_events G X (e # es) s = Option.bind (run_apply G X e s) (run_events G X es)"

text \<open>The first \<open>select\<close> of the coordinator: a reason to wake up, if it can be one in this state.\<close>

datatype wake_reason = By_Context | By_Close | By_Fatal | By_Result

fun wake_of :: "wake_reason \<Rightarrow> ('l, 'k) run_state \<Rightarrow> wake option" where
  "wake_of By_Context s = (if rs_ctx_done s then Some Wake_Context else None)"
| "wake_of By_Close s = (if sv_close_signal (rs_server s) then Some Wake_Close else None)"
| "wake_of By_Fatal s = (if sv_fatal_signal (rs_server s) then Some Wake_Fatal else None)"
| "wake_of By_Result s = (case rs_results s of [] \<Rightarrow> None | r # _ \<Rightarrow> Some (Wake_Result r))"

text \<open>The function \<open>stop\<close>: it cancels the context of the loops and shuts the server down.\<close>

definition stop_run :: "('l, 'k) externals \<Rightarrow> close_results \<Rightarrow> ('l, 'k) run_state \<Rightarrow> ('l, 'k) run_state" where
  "stop_run X results s = s\<lparr>rs_server := fst (server_shutdown X results (rs_server s)), rs_ctx_done := True\<rparr>"

text \<open>
  \<open>Run\<close>: \<open>before\<close> is what happens until the coordinator wakes up, \<open>late\<close> what still happens after the stop, until
  the last result has been received and the fatal signal is looked at. \<^const>\<open>None\<close> is a panic, a sequence of
  events that cannot happen, or a result that never arrives.
\<close>

definition server_run ::
    "go_lib \<Rightarrow> ('l, 'k) externals \<Rightarrow> bool \<Rightarrow> run_event list \<Rightarrow> wake_reason \<Rightarrow> run_event list \<Rightarrow> close_results \<Rightarrow>
     ('l, 'k) server \<Rightarrow> (('l, 'k) server \<times> server_error option) option" where
  "server_run G X ctx_nil before reason late results sv = (case run_admitted ctx_nil sv of
     (sv0, Inl err) \<Rightarrow> Some (sv0, err)
   | (sv0, Inr _) \<Rightarrow> (case run_events G X before (run_start sv0) of
       None \<Rightarrow> None
     | Some s1 \<Rightarrow> (case wake_of reason s1 of
         None \<Rightarrow> None
       | Some wake \<Rightarrow> (case run_events G X late (stop_run X results s1) of
           None \<Rightarrow> None
         | Some s2 \<Rightarrow> map_option (map_prod (\<lambda>s. (rs_server s)\<lparr>sv_finished := True\<rparr>) id)
             (coordinate_loop_results wake (if reason = By_Result then tl (rs_results s2) else rs_results s2)
                (sv_fatal_signal (rs_server s2)) (\<lambda>_. s2) s1)))))"

text \<open>What happens to a server outside of \<open>Run\<close>, before or after it.\<close>

fun system_events :: "go_lib \<Rightarrow> ('l, 'k) externals \<Rightarrow> system_event list \<Rightarrow> ('l, 'k) server \<Rightarrow> ('l, 'k) server option" where
  "system_events G X [] sv = Some sv"
| "system_events G X (e # es) sv = Option.bind (system_apply G X e sv) (system_events G X es)"

section \<open>The flags\<close>

definition flags_le :: "('l, 'k) server \<Rightarrow> ('l, 'k) server \<Rightarrow> bool" where
  "flags_le sv sv' \<longleftrightarrow> sv_run_started sv' = sv_run_started sv \<and> sv_finished sv' = sv_finished sv \<and>
     (sv_close_requested sv \<longrightarrow> sv_close_requested sv') \<and> (sv_fatal_signal sv \<longrightarrow> sv_fatal_signal sv') \<and>
     (sv_shutdown sv \<noteq> None \<longrightarrow> sv_shutdown sv' = sv_shutdown sv)"

lemma flags_le_refl [simp]: "flags_le sv sv"
  by (simp add: flags_le_def)

lemma flags_le_trans: "flags_le a b \<Longrightarrow> flags_le b c \<Longrightarrow> flags_le a c"
  by (auto simp: flags_le_def)

lemma flags_le_parts [simp]:
  "flags_le sv (sv'\<lparr>sv_management := h\<rparr>) = flags_le sv sv'" "flags_le sv (sv'\<lparr>sv_players := p\<rparr>) = flags_le sv sv'"
  "flags_le sv (with_manager m sv') = flags_le sv sv'" "flags_le sv (sv'\<lparr>sv_manager := m\<rparr>) = flags_le sv sv'"
  "flags_le sv (sv'\<lparr>sv_relay := r\<rparr>) = flags_le sv sv'"
  by (simp_all add: flags_le_def with_manager_def)

lemma flags_le_signalled: "flags_le sv sv' \<Longrightarrow> flags_le sv (signalled w sv')"
  by (simp add: flags_le_def signalled_def notify_fatal_def)

lemma flags_le_shutdown: "flags_le sv (fst (server_shutdown X results sv))"
  by (auto simp: flags_le_def server_shutdown_def Let_def split: option.split prod.split)

lemma shutdown_signals [simp]:
  "sv_fatal_signal (fst (server_shutdown X results sv)) = sv_fatal_signal sv"
  "sv_close_requested (fst (server_shutdown X results sv)) = sv_close_requested sv"
  by (simp_all add: server_shutdown_def Let_def split: option.split prod.split)

lemma shutdown_done: "sv_shutdown (fst (server_shutdown X results sv)) \<noteq> None"
  by (auto simp: server_shutdown_def Let_def split: option.split prod.split)

lemma system_apply_flags: "system_apply G X e sv = Some sv' \<Longrightarrow> flags_le sv sv'"
proof (cases e)
  case (Close_Call results)
  have "flags_le sv (sv\<lparr>sv_close_requested := True, sv_close_signal := True\<rparr>)" by (simp add: flags_le_def)
  moreover assume "system_apply G X e sv = Some sv'"
  ultimately show ?thesis using Close_Call flags_le_trans [OF _ flags_le_shutdown] by (auto simp: server_close_def)
qed (auto intro!: flags_le_signalled)

lemma system_events_flags: "system_events G X es sv = Some sv' \<Longrightarrow> flags_le sv sv'"
proof (induction G X es sv rule: system_events.induct)
  case (2 G X e es sv)
  then obtain sv1 where "system_apply G X e sv = Some sv1" "system_events G X es sv1 = Some sv'"
    by (cases "system_apply G X e sv") auto
  then show ?case using 2(1) flags_le_trans [OF system_apply_flags] by blast
qed simp

text \<open>A run of the step relation is such a sequence of events.\<close>

lemma run_system_events: "run (system_step G X) sv es sv' \<Longrightarrow> system_events G X es sv = Some sv'"
  by (induction rule: run.induct) (auto simp: system_step_iff)

section \<open>The results of the loops\<close>

lemma bind_eq_Some: "Option.bind x f = Some y \<longleftrightarrow> (\<exists>z. x = Some z \<and> f z = Some y)"
  by (cases x) simp_all

lemma run_apply_keeps:
  assumes "run_apply G X e s = Some s'"
  shows "flags_le (rs_server s) (rs_server s')" and "rs_ctx_done s \<Longrightarrow> rs_ctx_done s'"
    and "\<exists>rs. rs_results s' = rs_results s @ rs"
    and "lr_name ` set (rs_results s') = lr_name ` set (rs_results s) \<union> {n. \<exists>failed. e = Ends n failed}"
    and "distinct (map lr_name (rs_results s)) \<Longrightarrow> distinct (map lr_name (rs_results s'))"
  using assms by (cases e; auto simp: classify_loop_result_def intro: system_apply_flags split: if_splits)+

lemma run_apply_unexpected:
  assumes "run_apply G X e s = Some s'"
  shows "(\<exists>r \<in> set (rs_results s'). lr_unexpected r) \<longleftrightarrow> (\<exists>r \<in> set (rs_results s). lr_unexpected r) \<or>
    (\<exists>n failed. e = Ends n failed) \<and> \<not> rs_ctx_done s \<and> \<not> sv_close_requested (rs_server s)"
proof (cases e)
  case (Ends n failed)
  then have "s' = s\<lparr>rs_results := rs_results s @ [classify_loop_result (rs_ctx_done s) n failed (rs_server s)]\<rparr>"
    using assms by (simp split: if_splits)
  moreover have "lr_unexpected (classify_loop_result (rs_ctx_done s) n failed (rs_server s)) \<longleftrightarrow>
      \<not> rs_ctx_done s \<and> \<not> sv_close_requested (rs_server s)"
    by (simp add: classify_loop_result_def intentional_stop_def)
  ultimately show ?thesis using Ends by auto
qed (use assms in auto)

lemma run_events_keeps:
  assumes "run_events G X es s = Some s'"
  shows "flags_le (rs_server s) (rs_server s')" and "rs_ctx_done s \<Longrightarrow> rs_ctx_done s'"
    and "\<exists>rs. rs_results s' = rs_results s @ rs"
    and "lr_name ` set (rs_results s') = lr_name ` set (rs_results s) \<union> {n. \<exists>failed. Ends n failed \<in> set es}"
    and "distinct (map lr_name (rs_results s)) \<Longrightarrow> distinct (map lr_name (rs_results s'))"
proof -
  have "flags_le (rs_server s) (rs_server s') \<and> (rs_ctx_done s \<longrightarrow> rs_ctx_done s') \<and> (\<exists>rs. rs_results s' = rs_results s @ rs) \<and>
    lr_name ` set (rs_results s') = lr_name ` set (rs_results s) \<union> {n. \<exists>failed. Ends n failed \<in> set es} \<and>
    (distinct (map lr_name (rs_results s)) \<longrightarrow> distinct (map lr_name (rs_results s')))"
    using assms
  proof (induction es arbitrary: s)
    case (Cons e es)
    then obtain s1 where s1: "run_apply G X e s = Some s1" "run_events G X es s1 = Some s'" by (auto simp: bind_eq_Some)
    note keeps = run_apply_keeps [OF s1(1)] and IH = Cons.IH [OF s1(2)]
    have "flags_le (rs_server s) (rs_server s')" using flags_le_trans keeps(1) IH by blast
    moreover have "\<exists>rs. rs_results s' = rs_results s @ rs" using keeps(3) IH by (metis append_assoc)
    moreover have "lr_name ` set (rs_results s') = lr_name ` set (rs_results s) \<union> {n. \<exists>failed. Ends n failed \<in> set (e # es)}"
      using keeps(4) IH by auto
    ultimately show ?case using keeps(2,5) IH by blast
  qed simp
  then show "flags_le (rs_server s) (rs_server s')" "rs_ctx_done s \<Longrightarrow> rs_ctx_done s'"
    "\<exists>rs. rs_results s' = rs_results s @ rs"
    "lr_name ` set (rs_results s') = lr_name ` set (rs_results s) \<union> {n. \<exists>failed. Ends n failed \<in> set es}"
    "distinct (map lr_name (rs_results s)) \<Longrightarrow> distinct (map lr_name (rs_results s'))" by blast+
qed

text \<open>A loop ends unasked: its context has not been cancelled and \<open>Close\<close> has not been called at that moment.\<close>

definition ends_unasked :: "go_lib \<Rightarrow> ('l, 'k) externals \<Rightarrow> run_event list \<Rightarrow> ('l, 'k) run_state \<Rightarrow> bool" where
  "ends_unasked G X es s \<longleftrightarrow> (\<exists>es1 name failed es2 s1. es = es1 @ Ends name failed # es2 \<and> run_events G X es1 s = Some s1 \<and>
     \<not> rs_ctx_done s1 \<and> \<not> sv_close_requested (rs_server s1))"

lemma ends_unasked_Nil [simp]: "\<not> ends_unasked G X [] s"
  by (simp add: ends_unasked_def)

lemma ends_unasked_Cons:
  "ends_unasked G X (e # es) s \<longleftrightarrow>
     (\<exists>n failed. e = Ends n failed) \<and> \<not> rs_ctx_done s \<and> \<not> sv_close_requested (rs_server s) \<or>
     (\<exists>s'. run_apply G X e s = Some s' \<and> ends_unasked G X es s')" (is "?l \<longleftrightarrow> ?now \<or> ?later")
proof
  assume ?l
  then obtain es1 n failed es2 s1 where es: "e # es = es1 @ Ends n failed # es2" and s1: "run_events G X es1 s = Some s1"
    and quiet: "\<not> rs_ctx_done s1" "\<not> sv_close_requested (rs_server s1)" by (auto simp: ends_unasked_def)
  show "?now \<or> ?later"
  proof (cases es1)
    case (Cons e' es1')
    then obtain z where "run_apply G X e s = Some z" "run_events G X es1' z = Some s1" "es = es1' @ Ends n failed # es2"
      using es s1 by (auto simp: bind_eq_Some)
    then show ?thesis using quiet unfolding ends_unasked_def by blast
  qed (use es s1 quiet in auto)
next
  assume "?now \<or> ?later"
  then show ?l
  proof
    assume ?now
    then show ?l unfolding ends_unasked_def by (intro exI [of _ "[]"]) auto
  next
    assume ?later
    then obtain s' es1 n failed es2 s1 where "run_apply G X e s = Some s'" "es = es1 @ Ends n failed # es2"
      "run_events G X es1 s' = Some s1" "\<not> rs_ctx_done s1" "\<not> sv_close_requested (rs_server s1)"
      by (auto simp: ends_unasked_def)
    then show ?l unfolding ends_unasked_def by (intro exI [of _ "e # es1"]) auto
  qed
qed

lemma run_events_unexpected:
  "run_events G X es s = Some s' \<Longrightarrow>
     (\<exists>r \<in> set (rs_results s'). lr_unexpected r) \<longleftrightarrow> (\<exists>r \<in> set (rs_results s). lr_unexpected r) \<or> ends_unasked G X es s"
proof (induction es arbitrary: s)
  case (Cons e es)
  then obtain s1 where s1: "run_apply G X e s = Some s1" "run_events G X es s1 = Some s'" by (auto simp: bind_eq_Some)
  show ?case
    using Cons.IH [OF s1(2)] run_apply_unexpected [OF s1(1)] s1(1) unfolding ends_unasked_Cons by auto
qed simp

lemma ends_unasked_stopped:
  assumes "rs_ctx_done s"
  shows "\<not> ends_unasked G X es s"
  using assms run_events_keeps(2) unfolding ends_unasked_def by blast

text \<open>The loops that have ended, when no loop ends twice: four results are the results of all.\<close>

lemma all_loops_ended:
  assumes "distinct (map lr_name rs)"
  shows "length rs \<le> 4" and "4 \<le> length rs \<longleftrightarrow> (\<forall>n. n \<in> lr_name ` set rs)"
proof -
  have univ: "(UNIV :: loop_name set) = {Management_Loop, Player_Loop, Relay_Loop, Sweeper_Loop}"
    using loop_name.exhaust by auto
  have fin: "finite (UNIV :: loop_name set)" and four: "card (UNIV :: loop_name set) = 4" by (simp_all add: univ)
  have len: "length rs = card (lr_name ` set rs)" using distinct_card [OF assms] by simp
  also have "\<dots> \<le> 4" using card_mono [OF fin subset_UNIV] four by metis
  finally show "length rs \<le> 4" .
  show "4 \<le> length rs \<longleftrightarrow> (\<forall>n. n \<in> lr_name ` set rs)"
    using card_seteq [OF fin subset_UNIV, of "lr_name ` set rs"] len four by (metis UNIV_I UNIV_eq_I order_refl)
qed

text \<open>What the coordinator makes of the results, once it has been woken up for a reason that holds.\<close>

lemma coordinated:
  assumes s1: "run_events G X before (run_start sv0) = Some s1" and wake: "wake_of reason s1 = Some wake"
    and s2: "run_events G X late (stop_run X results s1) = Some s2"
  shows "coordinate_loop_results wake (if reason = By_Result then tl (rs_results s2) else rs_results s2)
      (sv_fatal_signal (rs_server s2)) stop s =
    (if \<forall>n. \<exists>failed. Ends n failed \<in> set (before @ late)
     then Some (stop s, if sv_fatal_signal (rs_server s2) \<or> ends_unasked G X before (run_start sv0)
       then Some Server_Owned_Loop else None)
     else None)"
proof -
  let ?in = "if reason = By_Result then tl (rs_results s2) else rs_results s2"
  note k1 = run_events_keeps [OF s1] and k2 = run_events_keeps [OF s2]
  have dist: "distinct (map lr_name (rs_results s2))" using k1(5) k2(5) by (simp add: run_start_def stop_run_def)
  have names: "lr_name ` set (rs_results s2) = {n. \<exists>failed. Ends n failed \<in> set (before @ late)}"
    using k1(4) k2(4) by (auto simp: run_start_def stop_run_def)
  have all: "4 \<le> length (rs_results s2) \<longleftrightarrow> (\<forall>n. \<exists>failed. Ends n failed \<in> set (before @ late))"
    unfolding all_loops_ended(2) [OF dist] names by simp
  obtain rs where rs: "rs_results s2 = rs_results s1 @ rs" using k2(3) by (auto simp: stop_run_def)
  have first: "\<exists>r. wake = Wake_Result r \<and> rs_results s2 = r # tl (rs_results s2)" if "reason = By_Result"
    using wake that rs by (auto split: list.splits)
  have other: "wake_missing wake = 4" "wake_unexpected wake \<longrightarrow> sv_fatal_signal (rs_server s1)" if "reason \<noteq> By_Result"
    using wake that by (cases reason; auto simp: wake_missing_def wake_unexpected_def split: if_splits)+
  have fatal: "sv_fatal_signal (rs_server s1) \<longrightarrow> sv_fatal_signal (rs_server s2)"
    using k2(1) by (simp add: flags_le_def stop_run_def)
  have missing: "wake_missing wake \<le> length ?in \<longleftrightarrow> 4 \<le> length (rs_results s2)"
    using first other(1) by (cases "reason = By_Result") (auto simp: wake_missing_def dest: arg_cong [where f = length])
  have "(\<exists>r \<in> set (rs_results s2). lr_unexpected r) \<longleftrightarrow> ends_unasked G X before (run_start sv0)"
    using run_events_unexpected [OF s1] run_events_unexpected [OF s2] ends_unasked_stopped [of "stop_run X results s1"]
    by (simp add: run_start_def stop_run_def)
  moreover have "sv_fatal_signal (rs_server s2) \<or> wake_unexpected wake \<or> (\<exists>r \<in> set (take (wake_missing wake) ?in). lr_unexpected r) \<longleftrightarrow>
      sv_fatal_signal (rs_server s2) \<or> (\<exists>r \<in> set (rs_results s2). lr_unexpected r)"
  proof (cases "reason = By_Result")
    case True
    then obtain r where r: "wake = Wake_Result r" "rs_results s2 = r # tl (rs_results s2)" using first by blast
    have "take 3 (tl (rs_results s2)) = tl (rs_results s2)" using all_loops_ended(1) [OF dist] by simp
    moreover have "set (rs_results s2) = insert r (set (tl (rs_results s2)))" using r(2) by (metis list.simps(15))
    ultimately show ?thesis using True r(1) by (simp add: wake_missing_def wake_unexpected_def)
  next
    case False
    then show ?thesis using other fatal all_loops_ended(1) [OF dist] by auto
  qed
  ultimately show ?thesis unfolding coordinate_result not_le [symmetric] missing using all by auto
qed

section \<open>A server runs once\<close>

lemma run_refused:
  assumes "sv_run_started sv"
  shows "server_run G X False before reason late results sv =
    Some (sv, if sv_close_requested sv then None else Some Server_Already_Running)"
  using assms by (simp add: server_run_def run_admitted_def)

text \<open>C36: the lifecycle. A call of \<open>Run\<close> that is admitted returns only when all four loops have ended, with the
  sockets shut down, and with an error exactly when the fatal signal was given while it ran or a loop ended
  although nobody had asked for it: before the coordinator stopped the others, when neither the context had been
  cancelled nor \<open>Close\<close> been called. Whatever requests, sweeps and calls of \<open>Close\<close> come afterwards, the sockets stay
  shut down and no other call of \<open>Run\<close> is ever admitted: it returns at once, with nil if the server was closed
  and with the error "already running" otherwise, and changes nothing.\<close>

theorem run_lifecycle:
  assumes "run_admitted False sv = (sv0, Inr ())"
    and "server_run G X False before reason late results sv = Some (sv1, err)"
    and "system_events G X later sv1 = Some sv2"
  shows "(\<forall>n. \<exists>failed. Ends n failed \<in> set (before @ late)) \<and>
    sv_finished sv1 \<and> sv_shutdown sv1 \<noteq> None \<and> sv_shutdown sv2 = sv_shutdown sv1 \<and>
    (err = Some Server_Owned_Loop \<longleftrightarrow> sv_fatal_signal sv1 \<or> ends_unasked G X before (run_start sv0)) \<and>
    (err = None \<or> err = Some Server_Owned_Loop) \<and>
    server_run G X False before' reason' late' results' sv2 =
      Some (sv2, if sv_close_requested sv2 then None else Some Server_Already_Running)"
proof -
  obtain s1 wake s2 where s1: "run_events G X before (run_start sv0) = Some s1" and wake: "wake_of reason s1 = Some wake"
    and s2: "run_events G X late (stop_run X results s1) = Some s2"
    and fin: "map_option (map_prod (\<lambda>s. (rs_server s)\<lparr>sv_finished := True\<rparr>) id)
      (coordinate_loop_results wake (if reason = By_Result then tl (rs_results s2) else rs_results s2)
         (sv_fatal_signal (rs_server s2)) (\<lambda>_. s2) s1) = Some (sv1, err)"
    using assms(1,2) by (auto simp: server_run_def split: option.splits)
  have ended: "\<forall>n. \<exists>failed. Ends n failed \<in> set (before @ late)" and sv1: "sv1 = (rs_server s2)\<lparr>sv_finished := True\<rparr>"
    and err: "err = (if sv_fatal_signal (rs_server s2) \<or> ends_unasked G X before (run_start sv0) then Some Server_Owned_Loop else None)"
    using fin unfolding coordinated [OF s1 wake s2] by (auto split: if_splits)
  note f1 = run_events_keeps(1) [OF s1] and f2 = run_events_keeps(1) [OF s2]
  have "sv_run_started sv0" using assms(1) by (auto simp: run_admitted_def split: if_splits)
  moreover have "flags_le (rs_server s1) (rs_server (stop_run X results s1))" using flags_le_shutdown by (simp add: stop_run_def)
  moreover have "sv_shutdown (rs_server s2) \<noteq> None"
    using shutdown_done [of X results "rs_server s1"] f2 by (simp add: flags_le_def stop_run_def)
  moreover have "flags_le sv1 sv2" by (rule system_events_flags [OF assms(3)])
  ultimately have "sv_run_started sv2" "sv_shutdown sv2 = sv_shutdown sv1" "sv_shutdown sv1 \<noteq> None"
    using f1 f2 by (simp_all add: flags_le_def sv1 run_start_def)
  then show ?thesis using ended err run_refused [of sv2] by (simp add: sv1)
qed

section \<open>Run returns\<close>

lemma server_new_unstarted:
  assumes "fst (server_new A H self net config) = Inr sv"
  shows "\<not> sv_run_started sv" and "\<not> sv_close_requested sv" and "\<not> sv_finished sv"
  using assms by (auto simp: server_new_def server_assemble_def Let_def split: option.splits sum.splits prod.splits if_splits)

text \<open>What the outside guarantees along a sequence of events: those of \<open>event_ok\<close>, and that no loop ends twice.\<close>

fun run_event_ok :: "run_event \<Rightarrow> ('l, 'k) run_state \<Rightarrow> bool" where
  "run_event_ok (Handles e) s \<longleftrightarrow> event_ok e (rs_server s)"
| "run_event_ok Context_Done s \<longleftrightarrow> True"
| "run_event_ok (Ends name failed) s \<longleftrightarrow> name \<notin> lr_name ` set (rs_results s)"

fun run_ok :: "go_lib \<Rightarrow> ('l, 'k) externals \<Rightarrow> run_event list \<Rightarrow> ('l, 'k) run_state \<Rightarrow> bool" where
  "run_ok G X [] s \<longleftrightarrow> True"
| "run_ok G X (e # es) s \<longleftrightarrow> run_event_ok e s \<and> (case run_apply G X e s of None \<Rightarrow> True | Some s' \<Rightarrow> run_ok G X es s')"

lemma run_apply_returns:
  assumes "limiter_law (x_limiter X)" and "consistent (rs_server s)" and "run_event_ok e s"
  shows "\<exists>s'. run_apply G X e s = Some s' \<and> consistent (rs_server s')"
proof (cases e)
  case (Handles x)
  then obtain sv where "system_apply G X x (rs_server s) = Some sv" "consistent sv"
    using system_event_returns [OF assms(1,2), of x G] assms(3) by auto
  then show ?thesis using Handles by simp
qed (use assms in auto)

lemma run_events_return:
  assumes "limiter_law (x_limiter X)"
  shows "consistent (rs_server s) \<Longrightarrow> run_ok G X es s \<Longrightarrow> \<exists>s'. run_events G X es s = Some s' \<and> consistent (rs_server s')"
proof (induction es arbitrary: s)
  case (Cons e es)
  then obtain s1 where "run_apply G X e s = Some s1" "consistent (rs_server s1)"
    using run_apply_returns [OF assms Cons.prems(1), of e G] Cons.prems(2) by auto
  then show ?case using Cons by auto
qed simp

text \<open>
  A history of one call of \<open>Run\<close> that can happen: those guarantees hold on the way, and the coordinator wakes up for a
  reason that there is.
\<close>

definition history_ok ::
    "go_lib \<Rightarrow> ('l, 'k) externals \<Rightarrow> run_event list \<Rightarrow> wake_reason \<Rightarrow> run_event list \<Rightarrow> close_results \<Rightarrow> ('l, 'k) server \<Rightarrow> bool" where
  "history_ok G X before reason late results sv \<longleftrightarrow> run_ok G X before (run_start sv) \<and>
     (case run_events G X before (run_start sv) of
        None \<Rightarrow> True
      | Some s \<Rightarrow> wake_of reason s \<noteq> None \<and> run_ok G X late (stop_run X results s))"

text \<open>C37: \<open>Run\<close> of a new server returns as soon as its four loops have ended, and not before. Whatever requests,
  datagrams and sweeps the loops handle before and after the stop, none of them panics; whichever of the four reasons
  wakes up the coordinator (a cancelled context, a call of \<open>Close\<close>, the fatal signal, or the end of a loop, whose
  result is then one of the four), no result is waited for in vain and none is missed; and the manager and the
  store are left with their invariants, on the one store that they share with the relay.\<close>

theorem run_returns:
  assumes "limiter_law (x_limiter X)" and "fst (server_new (x_limiter X) (x_hmac X) self net config) = Inr sv"
    and "\<forall>k. reading_ok (sn_store_clock net k)"
    and "history_ok G X before reason late results (sv\<lparr>sv_run_started := True\<rparr>)"
  shows "if \<forall>n. \<exists>failed. Ends n failed \<in> set (before @ late)
    then \<exists>sv1 err. server_run G X False before reason late results sv = Some (sv1, err) \<and>
      manager_inv (sv_manager sv1) \<and> store_inv (m_relay (sv_manager sv1)) \<and> rl_rooms (sv_relay sv1) = m_relay (sv_manager sv1)
    else server_run G X False before reason late results sv = None"
proof -
  let ?sv0 = "sv\<lparr>sv_run_started := True\<rparr>"
  have adm: "run_admitted False sv = (?sv0, Inr ())" using server_new_unstarted [OF assms(2)] by (simp add: run_admitted_def)
  have "consistent (rs_server (run_start ?sv0))"
    using server_new_consistent [OF assms(2,3)] by (simp add: run_start_def consistent_fields)
  then obtain s1 where s1: "run_events G X before (run_start ?sv0) = Some s1" "consistent (rs_server s1)"
    using run_events_return [OF assms(1)] assms(4) unfolding history_ok_def by blast
  then obtain wake where wake: "wake_of reason s1 = Some wake" and late: "run_ok G X late (stop_run X results s1)"
    using assms(4) by (auto simp: history_ok_def)
  have "consistent (rs_server (stop_run X results s1))" using consistent_shutdown [OF s1(2)] by (simp add: stop_run_def)
  then obtain s2 where s2: "run_events G X late (stop_run X results s1) = Some s2" "consistent (rs_server s2)"
    using run_events_return [OF assms(1)] late by blast
  have ran: "server_run G X False before reason late results sv = map_option (map_prod (\<lambda>s. (rs_server s)\<lparr>sv_finished := True\<rparr>) id)
    (coordinate_loop_results wake (if reason = By_Result then tl (rs_results s2) else rs_results s2)
       (sv_fatal_signal (rs_server s2)) (\<lambda>_. s2) s1)"
    by (simp add: server_run_def adm s1(1) wake s2(1))
  show ?thesis
    unfolding ran coordinated [OF s1(1) wake s2(1)] using s2(2) by (auto simp: consistent_def manager_inv_def relay_inv_def)
qed

section \<open>An example\<close>

definition demo_closed :: close_results where
  "demo_closed = \<lparr>cr_management_server = Close_Ok, cr_player_server = Close_Ok, cr_management_listener = Close_Net_Closed,
     cr_player_listener = Close_Net_Closed\<rparr>"

text \<open>The process is told to stop, and every loop ends then.\<close>

definition demo_ends :: "run_event list" where
  "demo_ends = map (\<lambda>n. Ends n False) [Management_Loop, Player_Loop, Relay_Loop, Sweeper_Loop]"

lemma demo_ends_all: "\<exists>failed. Ends n failed \<in> set (es @ demo_ends)"
  by (cases n) (auto simp: demo_ends_def)

lemma demo_stops: "history_ok G X [Context_Done] By_Context demo_ends results sv"
  by (simp add: history_ok_def run_start_def stop_run_def demo_ends_def classify_loop_result_def)

lemma demo_run:
  assumes "run_admitted False sv = (sv0, Inr ())" and "\<not> sv_fatal_signal sv0"
  shows "server_run G X False [Context_Done] By_Context demo_ends results sv =
    Some ((fst (server_shutdown X results sv0))\<lparr>sv_finished := True\<rparr>, None)"
  using assms
  by (simp add: server_run_def run_start_def stop_run_def demo_ends_def coordinate_result wake_missing_def wake_unexpected_def
      classify_loop_result_def intentional_stop_def take_Cons')

theorem run_returns_witness:
  "\<exists>sv sv1. fst (server_new (x_limiter demo_externals) (x_hmac demo_externals) 0 demo_net demo_config) = Inr sv \<and>
     (\<exists>err. server_run demo_lib demo_externals False [Context_Done] By_Context demo_ends demo_closed sv = Some (sv1, err)) \<and>
     manager_inv (sv_manager sv1)"
proof -
  have "case fst (server_new (x_limiter demo_externals) (x_hmac demo_externals) 0 demo_net demo_config) of Inl _ \<Rightarrow> False | Inr _ \<Rightarrow> True"
    by code_simp
  then obtain sv where sv: "fst (server_new (x_limiter demo_externals) (x_hmac demo_externals) 0 demo_net demo_config) = Inr sv"
    by (auto split: sum.splits)
  have clock: "\<forall>k. reading_ok (sn_store_clock demo_net k)" by (simp add: demo_net_def in_i64_def)
  have law: "limiter_law (x_limiter demo_externals)" by (simp add: demo_externals_def)
  show ?thesis
    using run_returns [OF law sv clock demo_stops [of demo_lib demo_externals demo_closed "sv\<lparr>sv_run_started := True\<rparr>"]]
      demo_ends_all [of _ "[Context_Done]"] sv by auto
qed

theorem run_lifecycle_witness:
  "\<exists>sv1. server_run demo_lib demo_externals False [Context_Done] By_Context demo_ends demo_closed demo_server = Some (sv1, None) \<and>
     server_run demo_lib demo_externals False [] By_Result [] demo_closed sv1 = Some (sv1, Some Server_Already_Running)"
proof -
  let ?sv0 = "demo_server\<lparr>sv_run_started := True\<rparr>"
  have "\<not> sv_run_started demo_server \<and> \<not> sv_close_requested demo_server \<and> \<not> sv_finished demo_server \<and> \<not> sv_fatal_signal demo_server"
    by code_simp
  then have fresh: "\<not> sv_run_started demo_server" "\<not> sv_close_requested demo_server" "\<not> sv_finished demo_server"
    "\<not> sv_fatal_signal demo_server" by blast+
  then have adm: "run_admitted False demo_server = (?sv0, Inr ())" by (simp add: run_admitted_def)
  let ?sv1 = "(fst (server_shutdown demo_externals demo_closed ?sv0))\<lparr>sv_finished := True\<rparr>"
  have ran: "server_run demo_lib demo_externals False [Context_Done] By_Context demo_ends demo_closed demo_server = Some (?sv1, None)"
    using demo_run [OF adm] fresh by simp
  have "\<not> sv_close_requested ?sv1" using fresh by simp
  then show ?thesis
    using run_lifecycle [OF adm ran, of "[]" ?sv1 "[]" By_Result "[]" demo_closed] ran by simp
qed

end
