(* ===== verification/Relay_Main.thy ===== *)
theory Relay_Main
  imports Server Http_Properties
begin

text \<open>
  \<open>cmd/relay/main.go\<close>: the command line, the file that holds the operator token, and the exit status. The
  \<open>flag\<close> package is modelled as far as the program uses it: every flag takes a value and may be set once.
\<close>

section \<open>The operator token file\<close>

text \<open>
  What the process observes of the file: the result of the first \<open>Lstat\<close>, whether \<open>Open\<close> succeeds, \<open>Stat\<close> of
  the open file, the second \<open>Lstat\<close>, and the bytes it then reads, with a failure or the end after them. The
  file type, the permission bits and the identity that \<open>os.SameFile\<close> compares are fields; \<^const>\<open>None\<close> is an error.
\<close>

record file_info =
  fi_regular :: bool
  fi_perm :: nat
  fi_identity :: nat

record token_file =
  tf_before :: "file_info option"
  tf_opens :: bool
  tf_opened :: "file_info option"
  tf_after :: "file_info option"
  tf_bytes :: "byte list"
  tf_fails :: bool

text \<open>Regular, with the permissions 0600.\<close>

definition private_file :: "file_info option \<Rightarrow> bool" where
  "private_file info = (case info of None \<Rightarrow> False | Some i \<Rightarrow> fi_regular i \<and> fi_perm i = 384)"

definition same_file :: "file_info option \<Rightarrow> file_info option \<Rightarrow> bool" where
  "same_file a b = (case (a, b) of (Some i, Some j) \<Rightarrow> fi_identity i = fi_identity j | _ \<Rightarrow> False)"

text \<open>\<open>io.ReadAll(io.LimitReader(file, n))\<close>: a failure behind the limit is never met.\<close>

definition read_prefix :: "nat \<Rightarrow> byte list \<Rightarrow> bool \<Rightarrow> byte list option" where
  "read_prefix n bs fails = (if length bs < n \<and> fails then None else Some (take n bs))"

definition read_operator_token_with :: "token_file \<Rightarrow> bytes32 option" where
  "read_operator_token_with f =
     (if \<not> private_file (tf_before f) then None
      else if \<not> tf_opens f then None
      else if \<not> private_file (tf_opened f) \<or> \<not> same_file (tf_before f) (tf_opened f) then None
      else if \<not> private_file (tf_after f) \<or> \<not> same_file (tf_before f) (tf_after f) \<or> \<not> same_file (tf_opened f) (tf_after f) then None
      else (case read_prefix 46 (tf_bytes f) (tf_fails f) of
          None \<Rightarrow> None
        | Some body \<Rightarrow>
            if length body > 45 then None
            else if length body = 43 \<or> length body = 44 \<and> body ! 43 = 10 \<or> length body = 45 \<and> body ! 43 = 13 \<and> body ! 44 = 10
            then parse_operator_token (bytes_str (take 43 body))
            else None))"

section \<open>The command line\<close>

definition flag_names :: "string list" where
  "flag_names = [''management-listen'', ''player-listen'', ''relay-network'', ''relay-listen'', ''advertised-host'',
     ''advertised-port'', ''operator-token-file'']"

text \<open>\<open>requiredValue.Set\<close>\<close>

definition required_set :: "string \<Rightarrow> string \<Rightarrow> (string, string) fmap \<Rightarrow> (string, string) fmap option" where
  "required_set name next values = (if fmlookup values name \<noteq> None then None else Some (fmupd name next values))"

text \<open>The name of a flag argument and the value behind its first equals sign (which the name does not start with).\<close>

fun split_equals :: "string \<Rightarrow> string \<times> string option" where
  "split_equals [] = ([], None)"
| "split_equals (c # cs) = (if c = CHR ''='' then ([], Some cs)
     else (case split_equals cs of (name, v) \<Rightarrow> (c # name, v)))"

definition flag_argument :: "string \<Rightarrow> string option" where
  "flag_argument arg = (case arg of
     c1 # rest \<Rightarrow>
       if c1 \<noteq> CHR ''-'' \<or> rest = [] then None
       else Some (if hd rest = CHR ''-'' then tl rest else rest)
   | [] \<Rightarrow> None)"

text \<open>
  \<open>FlagSet.Parse\<close>: the values and the arguments that are left; \<^const>\<open>None\<close> is an error (a malformed or
  undefined flag, which includes \<open>help\<close>, a flag without a value, or an error of \<open>Set\<close>). It stops at the first
  argument that is no flag, and after the terminator \<open>--\<close>.
\<close>

function parse_flags :: "string list \<Rightarrow> (string, string) fmap \<Rightarrow> ((string, string) fmap \<times> string list) option" where
  "parse_flags [] values = Some (values, [])"
| "parse_flags (arg # args) values = (case flag_argument arg of
     None \<Rightarrow> Some (values, arg # args)
   | Some text \<Rightarrow>
       if arg = ''--'' then Some (values, args)
       else if text = [] \<or> hd text = CHR ''-'' \<or> hd text = CHR ''='' then None
       else (case split_equals text of
           (name, given) \<Rightarrow>
             if name \<notin> set flag_names then None
             else (case given of
                 Some v \<Rightarrow> (case required_set name v values of None \<Rightarrow> None | Some values' \<Rightarrow> parse_flags args values')
               | None \<Rightarrow> (case args of
                   [] \<Rightarrow> None
                 | v # args' \<Rightarrow> (case required_set name v values of None \<Rightarrow> None | Some values' \<Rightarrow> parse_flags args' values')))))"
  by pat_completeness auto
termination by (relation "measure (length \<circ> fst)") auto

text \<open>\<open>strconv.ParseUint(s, 10, 16)\<close>\<close>

definition parse_port :: "string \<Rightarrow> u16 option" where
  "parse_port s = (if s = [] then None else (case parse_digits 0 s of
     None \<Rightarrow> None | Some n \<Rightarrow> if n < 65536 then Some (of_nat n) else None))"

text \<open>\<open>parseConfig\<close>; \<open>files\<close> is the file system.\<close>

definition parse_config :: "(string \<Rightarrow> token_file) \<Rightarrow> string list \<Rightarrow> server_config option" where
  "parse_config files args =
     (if \<exists>arg \<in> set args. arg = ''--'' \<or> take 1 arg = ''-'' \<and> take 2 arg \<noteq> ''--'' then None
      else (case parse_flags args fmempty of
          None \<Rightarrow> None
        | Some (values, rest) \<Rightarrow>
            if rest \<noteq> [] then None
            else if \<exists>name \<in> set flag_names. fmlookup values name = None \<or> fmlookup values name = Some [] then None
            else (let value = (\<lambda>name. the (fmlookup values name)) in
              if value ''relay-network'' \<noteq> ''udp4'' \<and> value ''relay-network'' \<noteq> ''udp6'' \<or>
                 take 1 (value ''operator-token-file'') \<noteq> ''/'' then None
              else (case parse_port (value ''advertised-port'') of
                  None \<Rightarrow> None
                | Some port \<Rightarrow>
                    if port = 0 then None
                    else (case read_operator_token_with (files (value ''operator-token-file'')) of
                        None \<Rightarrow> None
                      | Some token \<Rightarrow> Some \<lparr>sc_management_listen = value ''management-listen'',
                          sc_player_listen = value ''player-listen'', sc_relay_network = value ''relay-network'',
                          sc_relay_listen = value ''relay-listen'', sc_advertised_host = value ''advertised-host'',
                          sc_advertised_port = port, sc_operator_token = token\<rparr>)))))"

text \<open>\<open>run\<close> and the exit status of \<open>main\<close>; \<open>outcome\<close> is what \<open>Run\<close> returns for the server that was built.\<close>

definition run_main ::
    "'l limiter_api \<Rightarrow> hmac_fun \<Rightarrow> nat \<Rightarrow> 'k server_net \<Rightarrow> (string \<Rightarrow> token_file) \<Rightarrow> (('l, 'k) server \<Rightarrow> server_error option) \<Rightarrow>
     string list \<Rightarrow> bool" where
  "run_main A H self net files outcome args = (case parse_config files args of
     None \<Rightarrow> False
   | Some config \<Rightarrow> (case fst (server_new A H self net config) of
       Inl _ \<Rightarrow> False
     | Inr sv \<Rightarrow> outcome sv = None))"

definition exit_status :: "bool \<Rightarrow> nat" where
  "exit_status ok = (if ok then 0 else 1)"

section \<open>What the token file must be\<close>

text \<open>The text of the file is the token in its one spelling, alone or with one line end.\<close>

definition token_text :: "bytes32 \<Rightarrow> byte list \<Rightarrow> bool" where
  "token_text t bs \<longleftrightarrow> bs \<in> {str_bytes (b64_encode t), str_bytes (b64_encode t) @ [10], str_bytes (b64_encode t) @ [13, 10]}"


lemma token_text_iff:
  assumes "length t = 32"
  shows "token_text t bs \<longleftrightarrow>
    (length bs = 43 \<or> length bs = 44 \<and> bs ! 43 = 10 \<or> length bs = 45 \<and> bs ! 43 = 13 \<and> bs ! 44 = 10) \<and>
    bytes_str (take 43 bs) = b64_encode t"
proof -
  have len: "length (str_bytes (b64_encode t)) = 43" using assms by (simp add: length_encode b64_encoded_len_def)
  have str: "bytes_str (take 43 bs) = b64_encode t \<longleftrightarrow> take 43 bs = str_bytes (b64_encode t)"
    by (metis bytes_str_str_bytes str_bytes_bytes_str)
  have "length bs = 44 \<Longrightarrow> bs = take 43 bs @ [bs ! 43]" "length bs = 45 \<Longrightarrow> bs = take 43 bs @ [bs ! 43, bs ! 44]"
    using take_Suc_conv_app_nth [of 43 bs] take_Suc_conv_app_nth [of 44 bs] by simp_all
  then show ?thesis
    unfolding token_text_def str using len by (auto simp: nth_append)
qed

text \<open>C39: the operator token is only ever read from a file that is private and is the file that was checked: a token
  is accepted exactly when the path names a regular file with permissions 0600 before and after it has been
  opened, the open file is that same file with the same properties, and its whole content is the token in its
  one spelling, with at most one line end behind it.\<close>

theorem token_file_accepts_iff:
  "read_operator_token_with f = Some t \<longleftrightarrow>
     private_file (tf_before f) \<and> tf_opens f \<and> private_file (tf_opened f) \<and> private_file (tf_after f) \<and>
     same_file (tf_before f) (tf_opened f) \<and> same_file (tf_opened f) (tf_after f) \<and>
     \<not> tf_fails f \<and> token_text t (tf_bytes f) \<and> length t = 32 \<and> t \<noteq> replicate 32 0"
proof -
  define files where "files \<longleftrightarrow> private_file (tf_before f) \<and> tf_opens f \<and> private_file (tf_opened f) \<and> private_file (tf_after f) \<and>
     same_file (tf_before f) (tf_opened f) \<and> same_file (tf_opened f) (tf_after f)"
  have same: "same_file a b \<Longrightarrow> same_file b c \<Longrightarrow> same_file a c" for a b c
    by (auto simp: same_file_def split: option.splits)
  let ?bs = "tf_bytes f"
  have "read_operator_token_with f = Some t \<longleftrightarrow> files \<and> \<not> (length ?bs < 46 \<and> tf_fails f) \<and> length (take 46 ?bs) \<le> 45 \<and>
      (length ?bs = 43 \<or> length ?bs = 44 \<and> ?bs ! 43 = 10 \<or> length ?bs = 45 \<and> ?bs ! 43 = 13 \<and> ?bs ! 44 = 10) \<and>
      parse_operator_token (bytes_str (take 43 ?bs)) = Some t"
    using same unfolding read_operator_token_with_def files_def read_prefix_def
    by (auto simp: min_def split: if_splits)
  also have "\<dots> \<longleftrightarrow> files \<and> \<not> tf_fails f \<and> token_text t ?bs \<and> length t = 32 \<and> t \<noteq> replicate 32 0"
    using token_text_iff [of t ?bs] by (auto simp: operator_token_iff)
  finally show ?thesis by (auto simp: files_def)
qed


section \<open>Command lines\<close>

text \<open>A configuration written as flags, in any order.\<close>

definition config_flags :: "server_config \<Rightarrow> string \<Rightarrow> (string \<times> string) list" where
  "config_flags config path =
     [(''management-listen'', sc_management_listen config), (''player-listen'', sc_player_listen config),
      (''relay-network'', sc_relay_network config), (''relay-listen'', sc_relay_listen config),
      (''advertised-host'', sc_advertised_host config), (''advertised-port'', format_uint (unat (sc_advertised_port config))),
      (''operator-token-file'', path)]"

definition flag_text :: "string \<times> string \<Rightarrow> string" where
  "flag_text f = ''--'' @ fst f @ ''='' @ snd f"

lemma split_equals_name: "CHR ''='' \<notin> set name \<Longrightarrow> split_equals (name @ CHR ''='' # v) = (name, Some v)"
  by (induction name) auto

lemma flag_name_shape: "name \<in> set flag_names \<Longrightarrow> name \<noteq> [] \<and> hd name \<noteq> CHR ''-'' \<and> hd name \<noteq> CHR ''='' \<and> CHR ''='' \<notin> set name"
  by (auto simp: flag_names_def)

lemma parse_flags_text:
  "distinct (map fst fs) \<Longrightarrow> set (map fst fs) \<subseteq> set flag_names \<Longrightarrow> \<forall>name \<in> set (map fst fs). fmlookup vs name = None \<Longrightarrow>
     \<exists>vs'. parse_flags (map flag_text fs) vs = Some (vs', []) \<and>
       (\<forall>k. fmlookup vs' k = (case map_of fs k of Some v \<Rightarrow> Some v | None \<Rightarrow> fmlookup vs k))"
proof (induction fs arbitrary: vs)
  case (Cons f fs)
  obtain name v where f: "f = (name, v)" by fastforce
  have shape: "name \<noteq> []" "hd name \<noteq> CHR ''-''" "hd name \<noteq> CHR ''=''" "CHR ''='' \<notin> set name"
    using flag_name_shape [of name] Cons.prems(2) f by auto
  have new: "fmlookup vs name = None" using Cons.prems(3) f by simp
  have step: "parse_flags (flag_text f # args) vs = parse_flags args (fmupd name v vs)" for args
    using shape new Cons.prems(2) split_equals_name [OF shape(4), of v] f
    by (simp add: flag_text_def flag_argument_def required_set_def)
  have free: "\<forall>n \<in> set (map fst fs). fmlookup (fmupd name v vs) n = None" using Cons.prems(1,3) f by auto
  obtain vs' where "parse_flags (map flag_text fs) (fmupd name v vs) = Some (vs', [])"
    "\<forall>k. fmlookup vs' k = (case map_of fs k of Some v \<Rightarrow> Some v | None \<Rightarrow> fmlookup (fmupd name v vs) k)"
    using Cons.IH [OF _ _ free] Cons.prems(1,2) by auto
  moreover have "map_of fs name = None" using Cons.prems(1) f by (simp add: map_of_eq_None_iff)
  ultimately show ?case using step f by (auto split: option.splits)
qed simp

lemma port_round_trip: "parse_port (format_uint (unat (p :: u16))) = Some p"
proof -
  have "unat p < 65536" using unsigned_less [of p, where ?'a = nat] by simp
  then show ?thesis by (simp add: parse_port_def format_uint_nonempty parse_format_uint)
qed

text \<open>C40: the command line is parsed back: writing a configuration as flags, in any order, and parsing them gives the
  configuration again, for every configuration with non-empty addresses, a known network, a port other than 0
  and a token that can be read from an absolute path.\<close>

theorem parse_config_round_trip:
  assumes "mset fs = mset (config_flags config path)"
    and "read_operator_token_with (files path) = Some (sc_operator_token config)" and "take 1 path = ''/''"
    and "sc_management_listen config \<noteq> []" and "sc_player_listen config \<noteq> []" and "sc_relay_listen config \<noteq> []"
    and "sc_advertised_host config \<noteq> []" and "sc_advertised_port config \<noteq> 0"
    and "sc_relay_network config = ''udp4'' \<or> sc_relay_network config = ''udp6''"
  shows "parse_config files (map flag_text fs) = Some config"
proof -
  have names: "map fst (config_flags config path) = flag_names" by (simp add: config_flags_def flag_names_def)
  have "mset (map fst fs) = mset flag_names" using assms(1) names by (metis mset_map)
  moreover have "distinct flag_names" by (simp add: flag_names_def)
  ultimately have d: "distinct (map fst fs)" "set (map fst fs) = set flag_names"
    using mset_eq_imp_distinct_iff mset_eq_setD by metis+
  obtain vs where v: "parse_flags (map flag_text fs) fmempty = Some (vs, [])"
    and vk: "\<forall>k. fmlookup vs k = (case map_of fs k of Some x \<Rightarrow> Some x | None \<Rightarrow> fmlookup fmempty k)"
    using parse_flags_text [of fs fmempty] d by auto
  have "set fs = set (config_flags config path)" using assms(1) by (rule mset_eq_setD)
  then have look: "fmlookup vs n = Some x" if "(n, x) \<in> set (config_flags config path)" for n x
    using vk d(1) that by simp
  have vals: "fmlookup vs ''management-listen'' = Some (sc_management_listen config)"
    "fmlookup vs ''player-listen'' = Some (sc_player_listen config)"
    "fmlookup vs ''relay-network'' = Some (sc_relay_network config)"
    "fmlookup vs ''relay-listen'' = Some (sc_relay_listen config)"
    "fmlookup vs ''advertised-host'' = Some (sc_advertised_host config)"
    "fmlookup vs ''advertised-port'' = Some (format_uint (unat (sc_advertised_port config)))"
    "fmlookup vs ''operator-token-file'' = Some path"
    by (rule look; simp add: config_flags_def)+
  have dashes: "arg \<noteq> ''--'' \<and> take 2 arg = ''--''" if "arg \<in> set (map flag_text fs)" for arg
    using that flag_name_shape d(2) by (auto simp: flag_text_def)
  then have "\<not> (\<exists>arg \<in> set (map flag_text fs). arg = ''--'' \<or> take 1 arg = ''-'' \<and> take 2 arg \<noteq> ''--'')" by blast
  moreover have "\<not> (\<exists>name \<in> set flag_names. fmlookup vs name = None \<or> fmlookup vs name = Some [])"
    using vals assms(3-9) format_uint_nonempty by (auto simp: flag_names_def)
  ultimately show ?thesis
    unfolding parse_config_def v using vals assms(2,3,8,9)
    by (simp add: Let_def port_round_trip)
qed

definition demo_file :: "string \<Rightarrow> token_file" where
  "demo_file path = (let info = Some \<lparr>fi_regular = True, fi_perm = 384, fi_identity = 1\<rparr>
     in \<lparr>tf_before = info, tf_opens = True, tf_opened = info, tf_after = info,
         tf_bytes = str_bytes (b64_encode (replicate 32 5)) @ [10], tf_fails = False\<rparr>)"

theorem parse_config_round_trip_witness:
  "parse_config demo_file (map flag_text (rev (config_flags
      \<lparr>sc_management_listen = '':1'', sc_player_listen = '':2'', sc_relay_network = ''udp4'', sc_relay_listen = '':3'',
       sc_advertised_host = ''relay'', sc_advertised_port = 9, sc_operator_token = replicate 32 5\<rparr> ''/token''))) =
   Some \<lparr>sc_management_listen = '':1'', sc_player_listen = '':2'', sc_relay_network = ''udp4'', sc_relay_listen = '':3'',
       sc_advertised_host = ''relay'', sc_advertised_port = 9, sc_operator_token = replicate 32 5\<rparr>"
proof (rule parse_config_round_trip)
  show "read_operator_token_with (demo_file ''/token'') = Some (sc_operator_token
      \<lparr>sc_management_listen = '':1'', sc_player_listen = '':2'', sc_relay_network = ''udp4'', sc_relay_listen = '':3'',
       sc_advertised_host = ''relay'', sc_advertised_port = 9, sc_operator_token = replicate 32 5\<rparr>)"
    by code_simp
qed simp_all

end
