(* ===== verification/Spec2Isabelle.thy ===== *)
theory Spec2Isabelle
  imports Store_Properties Lobby_Properties Lifecycle Relay_Main
begin

text \<open>
  This library models and verifies the relay server of the repository: a process in which a trusted
  operator creates rooms over HTTP, players meet in lobbies or queues and receive credentials over HTTP, and
  clients exchange authenticated datagrams over UDP, all on one store of rooms kept in memory.

  \<^bold>\<open>The program and its theories.\<close> The theories stand in the order of the calls, lowest first.

  \<^item> \<open>Prelude\<close> (machine types, time, random sources, \<open>float64\<close> comparisons), \<open>Transitions\<close> (runs of a step
    relation; the locales \<open>preserved\<close> and \<open>monotone\<close> in which invariants and histories are proved), \<open>Base64\<close>
    (\<open>base64.RawURLEncoding.Strict\<close>, big-endian integers), \<open>Json\<close> (\<open>encoding/json\<close> as far as it is used, with the
    scanner \<open>scanJSONValue\<close> that both HTTP packages carry), \<open>Admission\<close> (the semaphore as an interface).
  \<^item> \<open>internal/protocol/codec.go\<close> is \<open>Codec\<close>; \<open>internal/protocol/auth.go\<close> is \<open>Auth_Tags\<close>: datagram validation and
    the messages under the HMAC tags.
  \<^item> \<open>internal/store\<close>: \<open>Limiter\<close> (\<open>allowAtomic\<close>), \<open>Replay\<close> (\<open>replayWindow\<close>), \<open>Endpoint\<close> (\<open>sourceKey\<close>),
    \<open>Store_Limits\<close> (\<open>Limits\<close>, \<open>validLimits\<close>), \<open>Store_State\<close> (the records of \<open>store.go\<close> and \<open>relay.go\<close>, the steps on
    one grant and one room), \<open>Store_Rooms\<close> (\<open>CreateRoom\<close>, \<open>GetRoom\<close>, \<open>EndRoom\<close>, \<open>Expire\<close>) and \<open>Store_Relay\<close> (the
    handshake, the admission of packets, the fan-out).
  \<^item> \<open>internal/relay/udp.go\<close> is \<open>Udp_Relay\<close>: one datagram (\<open>dispatch\<close>) and the loop around it.
  \<^item> \<open>internal/playerauth/auth.go\<close> is \<open>Player_Auth\<close>: the bearer tokens of players.
  \<^item> \<open>internal/lobby\<close>: \<open>Lobby_State\<close> (the records of \<open>lobby.go\<close> and \<open>match.go\<close>, the random names and cursors) and
    \<open>Lobby_Ops\<close> (the sweep, the allocation of a match, lobbies) and \<open>Lobby_Match\<close> (queues and tickets). A match calls \<open>create_room\<close> of the store.
  \<^item> \<open>internal/control/http.go\<close> is \<open>Http\<close> (what it shares with the player API) and \<open>Control_Http\<close>;
    \<open>internal/playerapi/http.go\<close> is \<open>Player_Http\<close>.
  \<^item> \<open>internal/server/server.go\<close> is \<open>Server\<close>, with \<open>Run\<close> as a whole in \<open>Lifecycle\<close>; \<open>System\<close> and \<open>Composition\<close> put
    all parts together. \<open>cmd/relay/main.go\<close> is \<open>Relay_Main\<close>.

  \<^bold>\<open>State and operations.\<close> A Go struct is a record whose fields keep the Go names up to a prefix, an
  operation is a function from the state before to the state after and the result, an error is the left side
  of a sum, a panic is \<^const>\<open>None\<close>. A method that holds a mutex from its first line to its last is one such
  function, and the mutex is the reason why a concurrent execution is a sequence of them: the step relations
  \<open>store_step\<close>, \<open>lobby_step\<close> and \<open>system_step\<close> are labelled with the operation and its answer. What the code
  reads from outside during an operation (the clock, the order in which Go iterates over a map) is an
  argument, so a theorem holds for every clock reading and every order; random bytes come from a list in the
  state, which may run out (the one source that the server hands to the store, the token issuer and the
  manager is a list for each of them). Grants are shared between a room and the indexes of the store and live in an
  explicit heap. Go's integers keep their width where the code can meet the edge (\<open>u64\<close> revisions and
  sequences, saturating deadlines); counters that are bounded by an invariant are integers.

  \<^bold>\<open>Atomic steps.\<close> A step of \<open>store_step\<close> or \<open>lobby_step\<close> is one method under its mutex. An event of \<open>system_step\<close> is
  coarser: one HTTP request, one datagram (up to two calls of the store) or one tick of the sweeper. Interleavings
  inside such an event are those of the calls, and they are covered by the theorems on the store, which hold
  for every sequence of its operations, whoever makes them; the theorems on the system show which of these
  sequences each event makes. A run of the server (\<open>server_run\<close>) is a sequence of such events, of the
  cancellation of the context and of the ends of its four loops, each judged by \<open>classifyLoopResult\<close> as it ends.

  \<^bold>\<open>Parameters.\<close> Code that is not in the repository is an argument: the Protobuf marshaller and the socket
  (the record \<open>externals\<close>), HMAC-SHA-256 (\<open>hmac_fun\<close>), the token bucket of \<open>x/time/rate\<close> (\<open>limiter_api\<close>; the only
  law used is \<open>limiter_law\<close>, that a bucket that reports enough tokens lets them be taken at the same moment),
  \<open>mime.ParseMediaType\<close> and the RFC 3339 layout (\<open>go_lib\<close>), address resolution and listening (\<open>server_net\<close>), what
  the file system answers about the token file (\<open>token_file\<close>). The generated envelope message is a record.

  \<^bold>\<open>Lemma groups.\<close>

  \<^item> \<open>Store_Inv\<close>, \<open>Relay_Inv\<close>, \<open>Handshake_Inv\<close>, \<open>Store_Evolve\<close>: the invariant of the store, kept by every operation
    on every branch, and how one operation changes a grant. \<open>Room_Contract\<close>: what the room operations
    answer. \<open>Store_Machine\<close> and \<open>Store_Properties\<close>: reachable stores; authenticity, at-most-once admission, isolation
    of rooms, silence of an ended room, bounds, progress.
  \<^item> \<open>Lobby_Rooms\<close>, \<open>Lobby_Inv\<close>, \<open>Lobby_Keeps\<close>, \<open>Match_Keeps\<close>: the invariant of the manager; the store
    as an interface (locale \<open>room_service\<close>). \<open>Lobby_Machine\<close> and \<open>Lobby_Properties\<close>: reachable managers, revisions,
    what \<open>Start\<close> and \<open>Enqueue\<close> promise. \<open>Lobby_Runs\<close>: all that the manager does to the store is a run of the store.
  \<^item> \<open>Http_Properties\<close> (with the concrete values of \<open>Http_Demo\<close>): each API refines the component below it, who may call
    it, and how many requests run at once. \<open>System\<close>: construction, soundness of the whole process, what the
    coordinator makes of the results of the loops. \<open>Composition\<close>: the process refines the store, so that the
    theorems on reachable stores hold of it; a room deleted over HTTP is silent on UDP. \<open>Lifecycle\<close>: \<open>Run\<close> from the
    admission to the error it returns: a server runs once, how it ends, and that it returns.
    \<open>Relay_Main\<close>: the token file and the command line.

  \<^bold>\<open>Bounds.\<close> No function of the model needs fuel that could run out, with one exception: the reader of a JSON
  document is given twice the number of lexemes, and every recursive call costs at most two units per lexeme;
  its nesting bound of 10000 is that of \<open>encoding/json\<close>. The code's own bounded retries (9 draws of an
  identifier, 9 attempts of a match) are recursion over the number of attempts left. The matching loop
  removes players from a finite queue, the scanner consumes lexemes: both are shown to terminate.

  \<^bold>\<open>Not modelled.\<close> The timeouts and header limits that \<open>NewServer\<close> hands to \<open>net/http\<close>; the goroutines, tickers and
  channels of \<open>Run\<close> as such: a loop is known by the events it handles and by the moment of its end; the address accessors of the
  server; the copies in \<open>internal/playerapi/http.go\<close> of helpers of \<open>internal/control/http.go\<close> (scanner, exact keys,
  \<open>decodeExact\<close>, body check, JSON writer), for which the definitions of \<open>Http\<close> and \<open>Json\<close> stand; constant-time comparison as
  a timing property; the text of the error values. The generated Protobuf code, the tests, the C# client
  and the documents contain no logic of the server.
\<close>

end
